(* ===== verification/Prelude.thy ===== *)
theory Prelude
  imports "HOL-Library.Word"
begin

text \<open>
  The shared vocabulary of the development: machine integers and byte strings,
  Rust's \<open>Result\<close> as a sum (the error on the left), the combinators that stand
  for \<open>?\<close> and \<open>ok_or\<close>, and the interface locales used by every component that is
  a state machine: steps that keep an invariant, steps that only move forward in a
  preorder, guarded systems with their reachable states, and checkpoints.
\<close>

type_synonym byte = "8 word"
type_synonym bytes = "byte list"
type_synonym u16 = "16 word"
type_synonym u32 = "32 word"
type_synonym u64 = "64 word"

named_theorems result_simps "equations and inversions for the Result combinators"
named_theorems bytes_simps "facts on byte strings and big-endian integers"

subsection \<open>Results\<close>

text \<open>\<open>and_then r f\<close> is \<open>let x = r?; f(x)\<close>; \<open>ok_or\<close> and \<open>ensure\<close> are the two
  ways the code raises: from a missing option and from a failed guard.\<close>

definition and_then :: "'e + 'a \<Rightarrow> ('a \<Rightarrow> 'e + 'b) \<Rightarrow> 'e + 'b" where
  "and_then r f = (case r of Inl e \<Rightarrow> Inl e | Inr x \<Rightarrow> f x)"

definition ok_or :: "'e \<Rightarrow> 'a option \<Rightarrow> 'e + 'a" where
  "ok_or e r = (case r of None \<Rightarrow> Inl e | Some x \<Rightarrow> Inr x)"

definition ensure :: "bool \<Rightarrow> 'e \<Rightarrow> 'e + unit" where
  "ensure b e = (if b then Inr () else Inl e)"

definition map_err :: "('e \<Rightarrow> 'f) \<Rightarrow> 'e + 'a \<Rightarrow> 'f + 'a" where
  "map_err g r = (case r of Inl e \<Rightarrow> Inl (g e) | Inr x \<Rightarrow> Inr x)"

definition is_ok :: "'e + 'a \<Rightarrow> bool" where
  "is_ok r = (case r of Inl _ \<Rightarrow> False | Inr _ \<Rightarrow> True)"

lemma and_then_eval [simp]:
  "and_then (Inl e) f = Inl e"
  "and_then (Inr x) f = f x"
  by (simp_all add: and_then_def)

lemma ok_or_eval [simp]:
  "ok_or e None = Inl e"
  "ok_or e (Some x) = Inr x"
  by (simp_all add: ok_or_def)

lemma ensure_eval [simp]:
  "ensure True e = Inr ()"
  "ensure False e = Inl e"
  by (simp_all add: ensure_def)

lemma map_err_eval [simp]:
  "map_err g (Inl e) = Inl (g e)"
  "map_err g (Inr x) = Inr x"
  by (simp_all add: map_err_def)

lemma is_ok_eval [simp]:
  "is_ok (Inl e) \<longleftrightarrow> False"
  "is_ok (Inr x) \<longleftrightarrow> True"
  by (simp_all add: is_ok_def)

lemma and_then_Inr_iff [result_simps]:
  "and_then r f = Inr y \<longleftrightarrow> (\<exists>x. r = Inr x \<and> f x = Inr y)"
  by (cases r) simp_all

lemma and_then_Inl_iff [result_simps]:
  "and_then r f = Inl e \<longleftrightarrow> r = Inl e \<or> (\<exists>x. r = Inr x \<and> f x = Inl e)"
  by (cases r) simp_all

lemma ok_or_Inr_iff [result_simps]: "ok_or e r = Inr x \<longleftrightarrow> r = Some x"
  by (cases r) simp_all

lemma ok_or_Inl_iff [result_simps]: "ok_or e r = Inl e' \<longleftrightarrow> r = None \<and> e' = e"
  by (cases r) auto

lemma ensure_Inr_iff [result_simps]: "ensure b e = Inr u \<longleftrightarrow> b"
  by (cases b) simp_all

lemma ensure_Inl_iff [result_simps]: "ensure b e = Inl e' \<longleftrightarrow> \<not> b \<and> e' = e"
  by (cases b) auto

lemma map_err_Inr_iff [result_simps]: "map_err g r = Inr x \<longleftrightarrow> r = Inr x"
  by (cases r) simp_all

lemma map_err_Inl_iff [result_simps]: "map_err g r = Inl e \<longleftrightarrow> (\<exists>e'. r = Inl e' \<and> e = g e')"
  by (cases r) auto

lemma is_ok_iff [result_simps]: "is_ok r \<longleftrightarrow> (\<exists>x. r = Inr x)"
  by (cases r) simp_all

text \<open>\<open>traverse f xs\<close> is a loop over \<open>xs\<close> that collects \<open>f(x)?\<close> and stops at the first
  error.\<close>

fun traverse :: "('a \<Rightarrow> 'e + 'b) \<Rightarrow> 'a list \<Rightarrow> 'e + 'b list" where
  "traverse f [] = Inr []"
| "traverse f (x # xs) = and_then (f x) (\<lambda>y. and_then (traverse f xs) (\<lambda>ys. Inr (y # ys)))"

lemma traverse_Inr_iff [result_simps]:
  "traverse f xs = Inr ys \<longleftrightarrow> list_all2 (\<lambda>x y. f x = Inr y) xs ys"
  by (induction xs arbitrary: ys) (auto simp: and_then_Inr_iff list_all2_Cons1)

lemma traverse_total:
  "(\<And>x. x \<in> set xs \<Longrightarrow> f x = Inr (g x)) \<Longrightarrow> traverse f xs = Inr (map g xs)"
  by (induction xs) simp_all

lemma traverse_Inl_D: "traverse f xs = Inl e \<Longrightarrow> \<exists>x \<in> set xs. f x = Inl e"
  by (induction xs) (auto simp: and_then_Inl_iff)

subsection \<open>Byte strings\<close>

text \<open>\<open>ascii\<close> reads a byte-string literal of the source (\<open>b"..."\<close>).\<close>

definition ascii :: "string \<Rightarrow> bytes" where
  "ascii s = map of_char s"

lemma length_ascii [simp, bytes_simps]: "length (ascii s) = length s"
  by (simp add: ascii_def)

text \<open>Blocks of one fixed width are determined by their concatenation.\<close>

lemma concat_fixed_width:
  assumes "\<forall>x \<in> set xs. length x = n" and "\<forall>y \<in> set ys. length y = n"
    and "length xs = length ys" and "concat xs = concat ys"
  shows "xs = ys"
  using assms(3,1,2,4) by (induction xs ys rule: list_induct2) auto

lemma length_concat_fixed:
  "\<forall>x \<in> set xs. length x = n \<Longrightarrow> length (concat xs) = length xs * n"
  by (induction xs) auto

text \<open>\<open>from_be_bytes\<close> of the integer types, and \<open>bs[a..b]\<close> of a byte string.\<close>

definition from_be_bytes :: "bytes \<Rightarrow> 'a::len word" where
  "from_be_bytes bs = of_nat (foldl (\<lambda>acc b. acc * 256 + unat b) 0 bs)"

definition slice :: "nat \<Rightarrow> nat \<Rightarrow> bytes \<Rightarrow> bytes" where
  "slice a b bs = take (b - a) (drop a bs)"

text \<open>Their big-endian bytes.\<close>

fun be_digits :: "nat \<Rightarrow> nat \<Rightarrow> bytes" where
  "be_digits 0 n = []"
| "be_digits (Suc k) n = be_digits k (n div 256) @ [of_nat (n mod 256)]"

definition to_be_bytes :: "'a::len word \<Rightarrow> bytes" where
  "to_be_bytes w = be_digits (LENGTH('a) div 8) (unat w)"

lemma length_be_digits [simp]: "length (be_digits k n) = k"
  by (induction k arbitrary: n) simp_all

lemma be_digits_value: "foldl (\<lambda>acc b. acc * 256 + unat b) 0 (be_digits k n) = n mod 256 ^ k"
proof (induction k arbitrary: n)
  case (Suc k)
  have "unat (of_nat (n mod 256) :: byte) = n mod 256"
    by (simp add: unat_of_nat)
  then show ?case
    using Suc [of "n div 256"] by (simp add: mod_mult2_eq)
qed simp

lemma from_to_be_bytes:
  assumes "8 dvd LENGTH('a::len)"
  shows "from_be_bytes (to_be_bytes (w :: 'a word)) = w"
proof -
  have "(256 :: nat) ^ k = 2 ^ (8 * k)" for k
    by (simp add: power_mult)
  then have "(256 :: nat) ^ (LENGTH('a) div 8) = 2 ^ LENGTH('a)"
    using assms by simp
  then show ?thesis
    by (simp add: from_be_bytes_def to_be_bytes_def be_digits_value)
qed

lemma length_to_be_bytes [simp]: "length (to_be_bytes (w :: 'a::len word)) = LENGTH('a) div 8"
  by (simp add: to_be_bytes_def)

lemma from_to_be_bytes_simps [simp]:
  "from_be_bytes (to_be_bytes (a :: u16)) = a" "from_be_bytes (to_be_bytes (b :: u32)) = b"
  "from_be_bytes (to_be_bytes (c :: u64)) = c"
  by (rule from_to_be_bytes, simp)+

subsection \<open>External primitives\<close>

text \<open>Functions of the crates the program calls (\<open>sha2\<close>, \<open>hex\<close>, \<open>p256\<close>), as the fields of a
  record every definition that needs one takes as an argument. A P-256 key and a signature are
  kept as the bytes they were read from; \<open>p256_verify key msg sig\<close> is \<open>VerifyingKey::verify\<close>.
  Components that need further crates extend the record.\<close>

record Ext =
  sha256 :: "bytes \<Rightarrow> bytes"
  hex_encode :: "bytes \<Rightarrow> string"
  hex_decode :: "string \<Rightarrow> bytes option"
  p256_from_sec1 :: "bytes \<Rightarrow> bool"
  p256_sig_from_slice :: "bytes \<Rightarrow> bool"
  p256_verify :: "bytes \<Rightarrow> bytes \<Rightarrow> bytes \<Rightarrow> bool"

subsection \<open>Steps with an invariant, and steps that move forward\<close>

text \<open>A component whose state changes only through \<open>step\<close> and whose every step
  keeps \<open>inv\<close>: the invariant then holds after any sequence of inputs.\<close>

locale invariant_steps =
  fixes step :: "'i \<Rightarrow> 's \<Rightarrow> 's"
    and inv :: "'s \<Rightarrow> bool"
  assumes step_inv: "inv s \<Longrightarrow> inv (step i s)"
begin

lemma run_inv: "inv s \<Longrightarrow> inv (fold step is s)"
  by (induction "is" arbitrary: s) (simp_all add: step_inv)

end

text \<open>If every step from a good state moves forward in a preorder, so does every run.\<close>

locale forward_steps = invariant_steps step inv
  for step :: "'i \<Rightarrow> 's \<Rightarrow> 's" and inv :: "'s \<Rightarrow> bool" +
  fixes leq :: "'s \<Rightarrow> 's \<Rightarrow> bool"
  assumes leq_refl: "leq s s"
    and leq_trans: "leq s t \<Longrightarrow> leq t u \<Longrightarrow> leq s u"
    and step_forward: "inv s \<Longrightarrow> leq s (step i s)"
begin

lemma run_forward: "inv s \<Longrightarrow> leq s (fold step is s)"
proof (induction "is" arbitrary: s)
  case Nil
  then show ?case by (simp add: leq_refl)
next
  case (Cons i "is")
  then have "leq (step i s) (fold step is (step i s))"
    using step_inv by blast
  with step_forward [OF Cons.prems, of i] show ?case
    using leq_trans by auto
qed

end

text \<open>A system whose steps are guarded: the states it reaches, and the rule that an invariant of
  the guarded steps holds in all of them.\<close>

inductive reachable :: "'s \<Rightarrow> ('a \<Rightarrow> 's \<Rightarrow> bool) \<Rightarrow> ('a \<Rightarrow> 's \<Rightarrow> 's) \<Rightarrow> 's \<Rightarrow> bool"
  for init enabled step where
  reach_init: "reachable init enabled step init"
| reach_step: "reachable init enabled step s \<Longrightarrow> enabled a s \<Longrightarrow> reachable init enabled step (step a s)"

locale guarded_steps =
  fixes init :: 's
    and enabled :: "'a \<Rightarrow> 's \<Rightarrow> bool"
    and step :: "'a \<Rightarrow> 's \<Rightarrow> 's"
    and inv :: "'s \<Rightarrow> bool"
  assumes inv_init: "inv init"
    and inv_step: "inv s \<Longrightarrow> enabled a s \<Longrightarrow> inv (step a s)"
begin

lemma reachable_inv: "reachable init enabled step s \<Longrightarrow> inv s"
  by (induction rule: reachable.induct) (simp_all add: inv_init inv_step)

end

text \<open>A component that can be checkpointed: restoring a snapshot gives back the
  state it was taken from, whatever the state it is restored over.\<close>

locale checkpointed =
  fixes step :: "'i \<Rightarrow> 's \<Rightarrow> 's"
    and snap :: "'s \<Rightarrow> 'c"
    and restore :: "'c \<Rightarrow> 's \<Rightarrow> 's"
  assumes restore_snap: "restore (snap s) t = s"
begin

lemma replay_from_snapshot:
  "fold step (take n log) s0 = s \<Longrightarrow>
    fold step (drop n log) (restore (snap s) t) = fold step log s0"
  by (metis append_take_drop_id fold_append o_apply restore_snap)

end

end
