(* ===== verification/Signing.thy ===== *)
theory Signing
  imports Prelude
begin

text \<open>
  Control-key signatures and canonical decoding, \<open>enclavia-protocol/src/signing.rs\<close>. The signed
  message carries a context string per domain, and every signed or hashed CBOR value is decoded
  with a decoder that accepts one encoding per value. The CBOR codec of each payload type and
  P-256 are parameters.
\<close>

datatype ChainLinkKind = Boot | Upgrade | Revocation

datatype SignedDomain = UpgradePayloadDomain | RevocationPayloadDomain | ControlCommandDomain

fun domain_context :: "SignedDomain \<Rightarrow> bytes" where
  "domain_context UpgradePayloadDomain = ascii ''enclavia/upgrade-payload/v1'' @ [0]"
| "domain_context RevocationPayloadDomain = ascii ''enclavia/revocation-payload/v1'' @ [0]"
| "domain_context ControlCommandDomain = ascii ''enclavia/control-command/v1'' @ [0]"

fun domain_for_link :: "ChainLinkKind \<Rightarrow> SignedDomain option" where
  "domain_for_link Upgrade = Some UpgradePayloadDomain"
| "domain_for_link Revocation = Some RevocationPayloadDomain"
| "domain_for_link Boot = None"

definition signed_message :: "SignedDomain \<Rightarrow> bytes \<Rightarrow> bytes" where
  "signed_message domain bs = domain_context domain @ bs"

text \<open>\<open>sign\<close> is the software key's ECDSA signer, \<open>normalize_s\<close> returns the low-S form of a
  signature that is not already low-S.\<close>

definition sign_control ::
    "(bytes \<Rightarrow> bytes) \<Rightarrow> (bytes \<Rightarrow> bytes option) \<Rightarrow> SignedDomain \<Rightarrow> bytes \<Rightarrow> bytes" where
  "sign_control sign normalize_s domain bs =
     (let sig = sign (signed_message domain bs)
      in case normalize_s sig of Some low \<Rightarrow> low | None \<Rightarrow> sig)"

datatype ControlSignatureError = SigShape | SigInvalid

definition verify_control_signature ::
    "'x Ext_scheme \<Rightarrow> bytes \<Rightarrow> SignedDomain \<Rightarrow> bytes \<Rightarrow> bytes \<Rightarrow> ControlSignatureError + unit" where
  "verify_control_signature X key domain bs signature =
     and_then (ensure (p256_sig_from_slice X signature) SigShape) (\<lambda>_.
       ensure (p256_verify X key (signed_message domain bs) signature) SigInvalid)"

datatype CanonicalDecodeError = DecodeFailed | NotCanonical

text \<open>\<open>cbor_enc\<close> is \<open>ciborium::into_writer\<close> at the payload's type, \<open>cbor_dec\<close> is
  \<open>ciborium::from_reader\<close>.\<close>

definition decode_canonical ::
    "(bytes \<Rightarrow> 'v option) \<Rightarrow> ('v \<Rightarrow> bytes) \<Rightarrow> bytes \<Rightarrow> CanonicalDecodeError + 'v" where
  "decode_canonical cbor_dec cbor_enc bs =
     and_then (ok_or DecodeFailed (cbor_dec bs)) (\<lambda>v.
       if cbor_enc v \<noteq> bs then Inl NotCanonical else Inr v)"

subsection \<open>One signature, one domain\<close>

lemma context_prefix_free:
  "domain_context d1 @ b1 = domain_context d2 @ b2 \<longleftrightarrow> d1 = d2 \<and> b1 = b2"
  by (cases d1; cases d2) (auto simp: ascii_def)

lemma signed_message_inj [simp]:
  "signed_message d1 b1 = signed_message d2 b2 \<longleftrightarrow> d1 = d2 \<and> b1 = b2"
  by (simp add: signed_message_def context_prefix_free)

lemma verify_control_signature_Inr_iff [result_simps]:
  "verify_control_signature X key d bs sig = Inr u \<longleftrightarrow>
     p256_sig_from_slice X sig \<and> p256_verify X key (signed_message d bs) sig"
  by (simp add: verify_control_signature_def result_simps)

lemma decode_canonical_Inr_iff [result_simps]:
  "decode_canonical cbor_dec cbor_enc bs = Inr v \<longleftrightarrow> cbor_dec bs = Some v \<and> cbor_enc v = bs"
  by (auto simp: decode_canonical_def result_simps split: if_splits)

text \<open>Domain separation. Two control-key signatures cover the same message only if they are
  in the same domain and over the same payload bytes; so the message signed for an upgrade is never
  the message of a revocation or of a control command.\<close>

theorem signed_messages_are_separated:
  "signed_message d1 b1 = signed_message d2 b2 \<longleftrightarrow> d1 = d2 \<and> b1 = b2"
  by simp

text \<open>Canonical decoding accepts one encoding per value. Two byte strings that decode to the
  same value are equal, and a value's own encoding is accepted whenever the codec reads it back.\<close>

theorem canonical_decoding_is_unique:
  "(\<forall>b1 b2 v. decode_canonical cbor_dec cbor_enc b1 = Inr v \<and>
      decode_canonical cbor_dec cbor_enc b2 = Inr v \<longrightarrow> b1 = b2) \<and>
   (\<forall>v. cbor_dec (cbor_enc v) = Some v \<longrightarrow>
      decode_canonical cbor_dec cbor_enc (cbor_enc v) = Inr v)"
  by (auto simp: decode_canonical_Inr_iff)

theorem canonical_decoding_is_unique_witness:
  "decode_canonical (\<lambda>bs. Some (length bs)) (\<lambda>n. replicate n (7 :: byte)) [7, 7] = Inr 2 \<and>
   decode_canonical (\<lambda>bs. Some (length bs)) (\<lambda>n. replicate n (7 :: byte)) [7, 8] = Inl NotCanonical"
proof -
  have "decode_canonical (\<lambda>bs. Some (length bs)) (\<lambda>n. replicate n (7 :: byte)) (replicate 2 7) =
      Inr 2"
    using canonical_decoding_is_unique
      [of "\<lambda>bs. Some (length bs)" "\<lambda>n. replicate n (7 :: byte)"] by simp
  moreover have "replicate 2 (7 :: byte) = [7, 7]" by (simp add: numeral_2_eq_2)
  ultimately show ?thesis by (simp add: decode_canonical_def numeral_2_eq_2)
qed

end
