(* ===== verification/Pin_Identity.thy ===== *)
theory Pin_Identity
  imports Prelude
begin

text \<open>
  Pin identities, \<open>enclavia-protocol/src/pin_identity.rs\<close>: the 19 PCR values that name an
  enclave to the synchronizer, how they are read from an attestation document, their canonical
  encoding and the key derived from it, and the wire form. SHA-256 and the hex codec come from
  external crates and are parameters. A \<open>BTreeMap\<close> over PCR indices is an association list in
  ascending key order, since the code iterates over it.
\<close>

definition PCR_LEN :: nat where "PCR_LEN = 48"
definition MAX_PCRS :: nat where "MAX_PCRS = 32"
definition USER_PCR_FIRST :: nat where "USER_PCR_FIRST = 16"
definition USER_PCR_COUNT :: nat where "USER_PCR_COUNT = MAX_PCRS - USER_PCR_FIRST"

definition PIN_IDENTITY_PCR_INDICES :: "nat list" where
  "PIN_IDENTITY_PCR_INDICES =
     [0, 1, 2, 16, 17, 18, 19, 20, 21, 22, 23, 24, 25, 26, 27, 28, 29, 30, 31]"

definition PIN_IDENTITY_DST :: bytes where
  "PIN_IDENTITY_DST = ascii ''enclavia/synchronizer/pin-identity/v1''"

type_synonym Pcr = bytes

definition zero_pcr :: Pcr where "zero_pcr = replicate PCR_LEN 0"

definition ZERO_USER_PCRS :: "Pcr list" where
  "ZERO_USER_PCRS = replicate USER_PCR_COUNT zero_pcr"

lemmas pcr_consts = PCR_LEN_def MAX_PCRS_def USER_PCR_FIRST_def USER_PCR_COUNT_def

datatype PinIdentityError =
    MissingImagePcr nat
  | BadLength nat nat
  | IndexOutOfRange nat
  | BadHex nat

record PinIdentity =
  pi_image :: "Pcr list"
  pi_user :: "Pcr list"

text \<open>The image PCRs of the attestation module (\<open>Pcrs\<close>, \<open>attestation.rs\<close>).\<close>

record Pcrs =
  pcr0 :: bytes
  pcr1 :: bytes
  pcr2 :: bytes

text \<open>What the Rust array types of \<open>PinIdentity\<close> guarantee.\<close>

definition pin_wf :: "PinIdentity \<Rightarrow> bool" where
  "pin_wf i \<longleftrightarrow> length (pi_image i) = 3 \<and> length (pi_user i) = USER_PCR_COUNT \<and>
     (\<forall>p \<in> set (pi_image i @ pi_user i). length p = PCR_LEN)"

definition pin_new :: "Pcr list \<Rightarrow> Pcr list \<Rightarrow> PinIdentity" where
  "pin_new img user = \<lparr> pi_image = img, pi_user = user \<rparr>"

definition fixed_pcr :: "nat \<Rightarrow> bytes \<Rightarrow> PinIdentityError + Pcr" where
  "fixed_pcr index val =
     (if length val = PCR_LEN then Inr val else Inl (BadLength index (length val)))"

definition from_image_pcrs :: "Pcrs \<Rightarrow> Pcr list \<Rightarrow> PinIdentityError + PinIdentity" where
  "from_image_pcrs pcrs user =
     and_then (fixed_pcr 0 (pcr0 pcrs)) (\<lambda>p0.
     and_then (fixed_pcr 1 (pcr1 pcrs)) (\<lambda>p1.
     and_then (fixed_pcr 2 (pcr2 pcrs)) (\<lambda>p2.
       Inr (pin_new [p0, p1, p2] user))))"

text \<open>The validation loop at the head of \<open>from_doc_pcrs\<close>, in key order.\<close>

fun check_doc_pcrs :: "(nat \<times> bytes) list \<Rightarrow> PinIdentityError + unit" where
  "check_doc_pcrs [] = Inr ()"
| "check_doc_pcrs ((index, val) # rest) =
     (if index \<ge> MAX_PCRS then Inl (IndexOutOfRange index)
      else if length val \<noteq> PCR_LEN then Inl (BadLength index (length val))
      else check_doc_pcrs rest)"

definition doc_image_pcr :: "(nat \<times> bytes) list \<Rightarrow> nat \<Rightarrow> PinIdentityError + Pcr" where
  "doc_image_pcr pcrs index =
     and_then (ok_or (MissingImagePcr index) (map_of pcrs index)) (fixed_pcr index)"

definition doc_user_pcr :: "(nat \<times> bytes) list \<Rightarrow> nat \<Rightarrow> PinIdentityError + Pcr" where
  "doc_user_pcr pcrs slot =
     (case map_of pcrs (USER_PCR_FIRST + slot) of
        None \<Rightarrow> Inr (ZERO_USER_PCRS ! slot)
      | Some v \<Rightarrow> fixed_pcr (USER_PCR_FIRST + slot) v)"

definition from_doc_pcrs :: "(nat \<times> bytes) list \<Rightarrow> PinIdentityError + PinIdentity" where
  "from_doc_pcrs pcrs =
     and_then (check_doc_pcrs pcrs) (\<lambda>_.
     and_then (traverse (doc_image_pcr pcrs) [0, 1, 2]) (\<lambda>img.
     and_then (traverse (doc_user_pcr pcrs) [0..<USER_PCR_COUNT]) (\<lambda>user.
       Inr \<lparr> pi_image = img, pi_user = user \<rparr>)))"

definition pin_pcr :: "PinIdentity \<Rightarrow> nat \<Rightarrow> Pcr option" where
  "pin_pcr i index =
     (if index \<le> 2 then Some (pi_image i ! index)
      else if USER_PCR_FIRST \<le> index \<and> index < MAX_PCRS
      then Some (pi_user i ! (index - USER_PCR_FIRST))
      else None)"

definition with_user_pcrs :: "PinIdentity \<Rightarrow> Pcr list \<Rightarrow> PinIdentity" where
  "with_user_pcrs i user = \<lparr> pi_image = pi_image i, pi_user = user \<rparr>"

definition image_pcrs :: "PinIdentity \<Rightarrow> Pcrs" where
  "image_pcrs i = \<lparr> pcr0 = pi_image i ! 0, pcr1 = pi_image i ! 1, pcr2 = pi_image i ! 2 \<rparr>"

definition nonzero_user_pcrs :: "PinIdentity \<Rightarrow> (nat \<times> Pcr) list" where
  "nonzero_user_pcrs i =
     map (\<lambda>(slot, v). (USER_PCR_FIRST + slot, v))
       (filter (\<lambda>(_, v). \<exists>b \<in> set v. b \<noteq> 0) (List.enumerate 0 (pi_user i)))"

definition canonical_bytes :: "PinIdentity \<Rightarrow> bytes" where
  "canonical_bytes i = PIN_IDENTITY_DST @ concat (pi_image i @ pi_user i)"

definition pin_key :: "(bytes \<Rightarrow> bytes) \<Rightarrow> PinIdentity \<Rightarrow> bytes" where
  "pin_key sha i = sha (canonical_bytes i)"

subsection \<open>The wire form\<close>

record PinIdentityWire =
  w_pcr0 :: string
  w_pcr1 :: string
  w_pcr2 :: string
  w_pcr16 :: string
  w_pcr17 :: string
  w_pcr18 :: string
  w_pcr19 :: string
  w_pcr20 :: string
  w_pcr21 :: string
  w_pcr22 :: string
  w_pcr23 :: string
  w_pcr24 :: string
  w_pcr25 :: string
  w_pcr26 :: string
  w_pcr27 :: string
  w_pcr28 :: string
  w_pcr29 :: string
  w_pcr30 :: string
  w_pcr31 :: string

definition pcr_from_hex :: "(string \<Rightarrow> bytes option) \<Rightarrow> nat \<Rightarrow> string \<Rightarrow> PinIdentityError + Pcr" where
  "pcr_from_hex unhex index s =
     and_then (ok_or (BadHex index) (unhex s)) (fixed_pcr index)"

definition pin_serialize :: "(bytes \<Rightarrow> string) \<Rightarrow> PinIdentity \<Rightarrow> PinIdentityWire" where
  "pin_serialize enhex i =
     (let u = pi_user i; h = enhex in
      \<lparr> w_pcr0 = h (pi_image i ! 0), w_pcr1 = h (pi_image i ! 1), w_pcr2 = h (pi_image i ! 2),
        w_pcr16 = h (u ! 0), w_pcr17 = h (u ! 1), w_pcr18 = h (u ! 2), w_pcr19 = h (u ! 3),
        w_pcr20 = h (u ! 4), w_pcr21 = h (u ! 5), w_pcr22 = h (u ! 6), w_pcr23 = h (u ! 7),
        w_pcr24 = h (u ! 8), w_pcr25 = h (u ! 9), w_pcr26 = h (u ! 10), w_pcr27 = h (u ! 11),
        w_pcr28 = h (u ! 12), w_pcr29 = h (u ! 13), w_pcr30 = h (u ! 14), w_pcr31 = h (u ! 15) \<rparr>)"

definition wire_user_hex :: "PinIdentityWire \<Rightarrow> string list" where
  "wire_user_hex w =
     [w_pcr16 w, w_pcr17 w, w_pcr18 w, w_pcr19 w, w_pcr20 w, w_pcr21 w, w_pcr22 w, w_pcr23 w,
      w_pcr24 w, w_pcr25 w, w_pcr26 w, w_pcr27 w, w_pcr28 w, w_pcr29 w, w_pcr30 w, w_pcr31 w]"

definition pin_deserialize ::
    "(string \<Rightarrow> bytes option) \<Rightarrow> PinIdentityWire \<Rightarrow> PinIdentityError + PinIdentity" where
  "pin_deserialize unhex w =
     and_then (pcr_from_hex unhex 0 (w_pcr0 w)) (\<lambda>p0.
     and_then (pcr_from_hex unhex 1 (w_pcr1 w)) (\<lambda>p1.
     and_then (pcr_from_hex unhex 2 (w_pcr2 w)) (\<lambda>p2.
     and_then (traverse (\<lambda>(slot, s). pcr_from_hex unhex (USER_PCR_FIRST + slot) s)
                 (List.enumerate 0 (wire_user_hex w))) (\<lambda>user.
       Inr \<lparr> pi_image = [p0, p1, p2], pi_user = user \<rparr>))))"

subsection \<open>Reading an identity from a document\<close>

lemma fixed_pcr_Inr_iff [result_simps]: "fixed_pcr index v = Inr p \<longleftrightarrow> length v = PCR_LEN \<and> p = v"
  by (auto simp: fixed_pcr_def)

lemma check_doc_pcrs_Inr_iff [result_simps]:
  "check_doc_pcrs pcrs = Inr u \<longleftrightarrow> (\<forall>(index, v) \<in> set pcrs. index < MAX_PCRS \<and> length v = PCR_LEN)"
  by (induction pcrs rule: check_doc_pcrs.induct) (auto simp: not_le)

lemma doc_image_pcr_Inr_iff [result_simps]:
  "doc_image_pcr pcrs index = Inr p \<longleftrightarrow> map_of pcrs index = Some p \<and> length p = PCR_LEN"
  by (auto simp: doc_image_pcr_def result_simps)

text \<open>A user PCR that the document does not carry reads as zero.\<close>

definition user_pcr_or_zero :: "(nat \<times> bytes) list \<Rightarrow> nat \<Rightarrow> Pcr" where
  "user_pcr_or_zero pcrs slot =
     (case map_of pcrs (USER_PCR_FIRST + slot) of None \<Rightarrow> zero_pcr | Some v \<Rightarrow> v)"

lemma length_zero_pcr [simp]: "length zero_pcr = PCR_LEN"
  by (simp add: zero_pcr_def)

lemma doc_user_pcr_checked:
  assumes "\<forall>(index, v) \<in> set pcrs. index < MAX_PCRS \<and> length v = PCR_LEN"
    and "slot < USER_PCR_COUNT"
  shows "doc_user_pcr pcrs slot = Inr (user_pcr_or_zero pcrs slot)"
  using assms
  by (auto simp: doc_user_pcr_def user_pcr_or_zero_def ZERO_USER_PCRS_def fixed_pcr_def
      split: option.splits dest!: map_of_SomeD)

lemma doc_pcr_length:
  "\<forall>(index, v) \<in> set pcrs. index < MAX_PCRS \<and> length v = PCR_LEN \<Longrightarrow>
    map_of pcrs k = Some p \<Longrightarrow> length p = PCR_LEN"
  by (auto dest: map_of_SomeD)

lemma from_doc_pcrs_Inr_iff:
  "from_doc_pcrs pcrs = Inr i \<longleftrightarrow>
     (\<forall>(index, v) \<in> set pcrs. index < MAX_PCRS \<and> length v = PCR_LEN) \<and>
     (\<exists>p0 p1 p2. map_of pcrs 0 = Some p0 \<and> map_of pcrs 1 = Some p1 \<and> map_of pcrs 2 = Some p2 \<and>
       i = \<lparr> pi_image = [p0, p1, p2],
             pi_user = map (user_pcr_or_zero pcrs) [0..<USER_PCR_COUNT] \<rparr>)"
proof (cases "\<forall>(index, v) \<in> set pcrs. index < MAX_PCRS \<and> length v = PCR_LEN")
  case False
  then show ?thesis by (auto simp: from_doc_pcrs_def result_simps)
next
  case True
  have user: "traverse (doc_user_pcr pcrs) [0..<USER_PCR_COUNT] =
      Inr (map (user_pcr_or_zero pcrs) [0..<USER_PCR_COUNT])"
    by (rule traverse_total) (simp add: doc_user_pcr_checked [OF True])
  have ok: "check_doc_pcrs pcrs = Inr ()" using True by (simp add: check_doc_pcrs_Inr_iff)
  show ?thesis
    using True by (auto simp: from_doc_pcrs_def ok user result_simps list_all2_Cons1
        dest: doc_pcr_length [OF True])
qed

lemma doc_user_pcr_length:
  "\<forall>(index, v) \<in> set pcrs. index < MAX_PCRS \<and> length v = PCR_LEN \<Longrightarrow>
    length (user_pcr_or_zero pcrs slot) = PCR_LEN"
  by (auto simp: user_pcr_or_zero_def split: option.splits dest: doc_pcr_length)

lemma from_doc_pcrs_wf: "from_doc_pcrs pcrs = Inr i \<Longrightarrow> pin_wf i"
  unfolding from_doc_pcrs_Inr_iff pin_wf_def
  by (auto simp: doc_user_pcr_length dest: doc_pcr_length)

subsection \<open>The canonical encoding\<close>

lemma pin_wf_concat_length:
  "pin_wf i \<Longrightarrow> length (concat (pi_image i @ pi_user i)) = 19 * PCR_LEN"
  unfolding pin_wf_def
  by (subst length_concat_fixed [of _ PCR_LEN]) (auto simp: pcr_consts)

lemma canonical_bytes_length: "pin_wf i \<Longrightarrow> length (canonical_bytes i) = 949"
  using pin_wf_concat_length [of i]
  by (simp add: canonical_bytes_def PIN_IDENTITY_DST_def PCR_LEN_def)

lemma canonical_bytes_inj:
  assumes "pin_wf a" and "pin_wf b" and "canonical_bytes a = canonical_bytes b"
  shows "a = b"
proof -
  have "concat (pi_image a @ pi_user a) = concat (pi_image b @ pi_user b)"
    using assms(3) by (simp add: canonical_bytes_def)
  then have "pi_image a @ pi_user a = pi_image b @ pi_user b"
    using assms(1,2) by (intro concat_fixed_width [where n = PCR_LEN]) (auto simp: pin_wf_def)
  then show ?thesis using assms(1,2) by (simp add: pin_wf_def)
qed

lemma pin_wf_image_nth: "pin_wf i \<Longrightarrow> pi_image i = [pi_image i ! 0, pi_image i ! 1, pi_image i ! 2]"
  by (rule nth_equalityI) (auto simp: pin_wf_def nth_Cons' less_Suc_eq numeral_3_eq_3 numeral_2_eq_2)

subsection \<open>Properties\<close>

text \<open>An identity is read from a document exactly when the document is well formed: every PCR
  index is below 32, every value is 48 bytes, PCR0 to PCR2 are present. The identity is then the
  three image PCRs and the sixteen user PCRs, an absent one reading as zero.\<close>

theorem doc_identity_exact:
  "from_doc_pcrs pcrs = Inr i \<longleftrightarrow>
     (\<forall>(index, v) \<in> set pcrs. index < 32 \<and> length v = 48) \<and>
     {0, 1, 2} \<subseteq> dom (map_of pcrs) \<and>
     pin_wf i \<and>
     (\<forall>k \<in> {0, 1, 2}. pin_pcr i k = map_of pcrs k) \<and>
     (\<forall>k \<in> {16..<32}. pin_pcr i k = Some (case map_of pcrs k of None \<Rightarrow> zero_pcr | Some v \<Rightarrow> v))"
  (is "?lhs \<longleftrightarrow> ?rhs")
proof
  assume ?lhs
  then show ?rhs
    using from_doc_pcrs_wf [of pcrs i]
    by (auto simp: from_doc_pcrs_Inr_iff pin_pcr_def pcr_consts user_pcr_or_zero_def)
next
  assume r: ?rhs
  then have wf: "pin_wf i" by blast
  have user: "pi_user i = map (user_pcr_or_zero pcrs) [0..<USER_PCR_COUNT]"
  proof (rule nth_equalityI)
    show "length (pi_user i) = length (map (user_pcr_or_zero pcrs) [0..<USER_PCR_COUNT])"
      using wf by (simp add: pin_wf_def)
    fix s assume "s < length (pi_user i)"
    then have s: "s < 16" using wf by (simp add: pin_wf_def pcr_consts)
    then have "pin_pcr i (16 + s) = Some (user_pcr_or_zero pcrs s)"
      using r by (simp add: user_pcr_or_zero_def USER_PCR_FIRST_def)
    with s show "pi_user i ! s = map (user_pcr_or_zero pcrs) [0..<USER_PCR_COUNT] ! s"
      by (simp add: pin_pcr_def pcr_consts)
  qed
  from r have img: "map_of pcrs 0 = Some (pi_image i ! 0)" "map_of pcrs 1 = Some (pi_image i ! 1)"
      "map_of pcrs 2 = Some (pi_image i ! 2)"
    by (simp_all add: pin_pcr_def)
  show ?lhs
    unfolding from_doc_pcrs_Inr_iff
    using r img user pin_wf_image_nth [OF wf]
    by (auto simp: pcr_consts intro: PinIdentity.equality)
qed

text \<open>C35. A pin key names one identity. If two identities have the same key then they are the same
  identity, or their two distinct 949-byte encodings are a collision of the hash.\<close>

theorem pin_key_names_identity:
  assumes "pin_wf a" and "pin_wf b" and "pin_key sha a = pin_key sha b"
  shows "a = b \<or>
    (length (canonical_bytes a) = 949 \<and> length (canonical_bytes b) = 949 \<and>
     canonical_bytes a \<noteq> canonical_bytes b \<and> sha (canonical_bytes a) = sha (canonical_bytes b))"
  using assms canonical_bytes_inj [OF assms(1,2)]
  by (auto simp: pin_key_def canonical_bytes_length)

text \<open>The wire form of an identity decodes back to it, given that the hex decoder inverts the
  hex encoder.\<close>

theorem pin_wire_roundtrip:
  assumes hex: "\<And>b. unhex (enhex b) = Some b" and wf: "pin_wf i"
  shows "pin_deserialize unhex (pin_serialize enhex i) = Inr i"
proof -
  have user: "wire_user_hex (pin_serialize enhex i) = map (enhex \<circ> (!) (pi_user i)) [0..<16]"
    by (simp add: wire_user_hex_def pin_serialize_def Let_def upt_rec numeral_eq_Suc)
  have len: "s < 16 \<Longrightarrow> length (pi_user i ! s) = PCR_LEN"
      "s < 3 \<Longrightarrow> length (pi_image i ! s) = PCR_LEN" for s
    using wf by (auto simp: pin_wf_def pcr_consts)
  have "traverse (\<lambda>(slot, s). pcr_from_hex unhex (USER_PCR_FIRST + slot) s)
      (List.enumerate 0 (wire_user_hex (pin_serialize enhex i))) =
      Inr (map (\<lambda>(slot, s). pi_user i ! slot)
        (List.enumerate 0 (wire_user_hex (pin_serialize enhex i))))"
    unfolding user
    by (rule traverse_total)
      (auto simp: in_set_enumerate_eq pcr_from_hex_def hex fixed_pcr_def len)
  moreover have "map (\<lambda>(slot, s). pi_user i ! slot)
      (List.enumerate 0 (wire_user_hex (pin_serialize enhex i))) = pi_user i"
    unfolding user
    by (rule nth_equalityI) (use wf in \<open>auto simp: nth_enumerate_eq pin_wf_def pcr_consts\<close>)
  ultimately show ?thesis
    using len(2) [of 0] len(2) [of 1] len(2) [of 2] pin_wf_image_nth [OF wf]
    by (simp add: pin_deserialize_def pcr_from_hex_def hex fixed_pcr_def
        pin_serialize_def Let_def PinIdentity.equality)
qed

subsection \<open>Witnesses\<close>

text \<open>A document with the three image PCRs and one locked user PCR.\<close>

definition ex_pcr :: "byte \<Rightarrow> Pcr" where
  "ex_pcr b = replicate PCR_LEN b"

definition ex_doc_pcrs :: "(nat \<times> bytes) list" where
  "ex_doc_pcrs = [(0, ex_pcr 1), (1, ex_pcr 2), (2, ex_pcr 3), (3, ex_pcr 9), (17, ex_pcr 4)]"

definition ex_identity :: PinIdentity where
  "ex_identity = \<lparr> pi_image = [ex_pcr 1, ex_pcr 2, ex_pcr 3],
     pi_user = (replicate 16 zero_pcr)[1 := ex_pcr 4] \<rparr>"

lemma length_ex_pcr [simp]: "length (ex_pcr b) = PCR_LEN"
  by (simp add: ex_pcr_def)

lemma ex_identity_read: "from_doc_pcrs ex_doc_pcrs = Inr ex_identity"
  by (auto simp: from_doc_pcrs_Inr_iff ex_doc_pcrs_def ex_identity_def pcr_consts
      user_pcr_or_zero_def nth_list_update intro!: nth_equalityI)

lemma ex_identity_wf: "pin_wf ex_identity"
  by (rule from_doc_pcrs_wf [OF ex_identity_read])

theorem doc_identity_exact_witness:
  "from_doc_pcrs ex_doc_pcrs = Inr ex_identity \<and> pin_pcr ex_identity 16 = Some zero_pcr \<and>
   pin_pcr ex_identity 17 = Some (ex_pcr 4)"
  using doc_identity_exact [of ex_doc_pcrs ex_identity] ex_identity_read
  by (simp add: ex_doc_pcrs_def)

theorem pin_key_names_identity_witness:
  "let other = with_user_pcrs ex_identity ZERO_USER_PCRS
   in pin_wf ex_identity \<and> pin_wf other \<and> pin_key (take 1) ex_identity = pin_key (take 1) other \<and>
     canonical_bytes ex_identity \<noteq> canonical_bytes other"
proof -
  let ?other = "with_user_pcrs ex_identity ZERO_USER_PCRS"
  have wf: "pin_wf ?other"
    using ex_identity_wf
    by (auto simp: pin_wf_def with_user_pcrs_def ZERO_USER_PCRS_def)
  have "pin_key (take 1) ex_identity = pin_key (take 1) ?other"
    by (simp add: pin_key_def canonical_bytes_def PIN_IDENTITY_DST_def)
  moreover have "pi_user ex_identity ! 1 \<noteq> pi_user ?other ! 1"
    by (simp add: ex_identity_def with_user_pcrs_def ZERO_USER_PCRS_def ex_pcr_def zero_pcr_def
        pcr_consts)
  then have "ex_identity \<noteq> ?other" by metis
  ultimately show ?thesis
    using pin_key_names_identity [OF ex_identity_wf wf] wf ex_identity_wf
    unfolding Let_def by blast
qed

text \<open>A concrete stand-in for the hex codec: one character per byte.\<close>

definition ex_hex :: "bytes \<Rightarrow> string" where
  "ex_hex = map (\<lambda>b. char_of (unat b))"

definition ex_unhex :: "string \<Rightarrow> bytes option" where
  "ex_unhex s = Some (map (\<lambda>c. of_nat (of_char c)) s)"

lemma ex_unhex_hex: "ex_unhex (ex_hex b) = Some b"
  by (induction b) (simp_all add: ex_unhex_def ex_hex_def take_bit_nat_eq_self unsigned_less
      [where 'b = 8, simplified])

theorem pin_wire_roundtrip_witness:
  "pin_deserialize ex_unhex (pin_serialize ex_hex ex_identity) = Inr ex_identity"
  by (rule pin_wire_roundtrip [OF ex_unhex_hex ex_identity_wf])

end
