(* ===== verification/Attestation.thy ===== *)
theory Attestation
  imports Pin_Identity
begin

text \<open>
  Validation of Nitro attestation documents: \<open>enclavia-protocol/src/nitro_verify.rs\<close> (chain and
  COSE signature at the document's own timestamp), \<open>enclavia-protocol/src/attestation.rs\<close> (the
  session and chain-link contexts and what a validated document may be asked), and the
  synchronizer's \<open>attest.rs\<close>. The COSE decoder, webpki, the X.509 decoder, P-384 and base64 are
  parameters. The human-readable \<open>detail\<close> of a \<open>ValidationFailure\<close> is left out; its
  \<open>reason\<close> is kept.
\<close>

datatype RejectionReason =
    Malformed
  | NotYetValid
  | Expired
  | UntrustedChain
  | Signature
  | ClockSkew
  | NonceMismatch
  | PayloadBindingMismatchReason
  | PcrMismatch
  | SkipChainNotCompiledReason

datatype AttestationError =
    Validation RejectionReason
  | InvalidPcrLength nat nat
  | InvalidPcrHex nat
  | InvalidControlPubkey
  | PayloadBindingMismatch
  | InvalidControlNonce
  | PcrsNotExpected
  | InvalidIdentity PinIdentityError
  | SkipChainNotCompiled

fun attestation_error_reason :: "AttestationError \<Rightarrow> RejectionReason" where
  "attestation_error_reason (Validation f) = f"
| "attestation_error_reason (InvalidPcrLength _ _) = Malformed"
| "attestation_error_reason (InvalidPcrHex _) = Malformed"
| "attestation_error_reason InvalidControlPubkey = Malformed"
| "attestation_error_reason InvalidControlNonce = Malformed"
| "attestation_error_reason (InvalidIdentity _) = Malformed"
| "attestation_error_reason PayloadBindingMismatch = PayloadBindingMismatchReason"
| "attestation_error_reason PcrsNotExpected = PcrMismatch"
| "attestation_error_reason SkipChainNotCompiled = SkipChainNotCompiledReason"

definition CONTROL_PUBKEY_LEN :: nat where "CONTROL_PUBKEY_LEN = 65"

definition NON_UPGRADABLE_CONTROL_KEY :: bytes where
  "NON_UPGRADABLE_CONTROL_KEY =
     [0x04, 0x22, 0x18, 0xad, 0x29, 0x17, 0x7d, 0x9a, 0x5c, 0xb3, 0x52, 0xc4, 0x78, 0x64, 0x06, 0xfa,
      0x76, 0x57, 0xaa, 0xc1, 0x6c, 0xe4, 0xb2, 0xe8, 0x19, 0xcd, 0xbd, 0x7f, 0x6e, 0xbd, 0xfa, 0x5a,
      0x8e, 0xb1, 0x1a, 0xf7, 0x68, 0x69, 0x3a, 0xd6, 0x5f, 0xc5, 0xb2, 0x21, 0x10, 0x3f, 0x10, 0x8a,
      0xe9, 0x50, 0x87, 0xb3, 0x1d, 0x68, 0x54, 0xe8, 0x13, 0x51, 0x60, 0x6d, 0xc4, 0xe2, 0xd4, 0xf7,
      0xda]"

text \<open>The decoded NSM document (a type of the NSM crate), with the fields the code reads.\<close>

record AttestationDoc =
  doc_timestamp :: u64
  doc_pcrs :: "(nat \<times> bytes) list"
  doc_certificate :: bytes
  doc_cabundle :: "bytes list"
  doc_user_data :: "bytes option"
  doc_nonce :: "bytes option"

text \<open>\<open>webpki::Error\<close>, with the constructors the classification names.\<close>

datatype WebpkiError =
    CertNotValidYet
  | CertExpired
  | InvalidSignatureForPublicKey
  | SignatureAlgorithmMismatch
  | UnsupportedSignatureAlgorithm
  | UnsupportedSignatureAlgorithmForPublicKey
  | BadDer
  | BadDerTime
  | OtherWebpkiError

datatype SpkiCurve = Secp384r1 | OtherCurve

record SubjectPublicKey =
  spki_is_ec :: bool
  spki_curve :: "SpkiCurve option"
  spki_point :: "bytes option"

text \<open>The crates of the attestation path: \<open>decode_attestation_document\<close> (the COSE envelope and the
  document), webpki's leaf and trust-anchor parsers and chain check (at an instant in whole
  seconds, \<open>None\<close> meaning valid), the X.509 decoder, P-384 key parsing, the COSE signature check
  under a key, base64, the expected-nonce check, and the cargo feature
  \<open>dangerous-skip-chain\<close>.\<close>

record NitroExt = Ext +
  decode_attestation_document :: "bytes \<Rightarrow> (bytes \<times> AttestationDoc) option"
  webpki_leaf_parses :: "bytes \<Rightarrow> bool"
  webpki_anchor_parses :: "bytes \<Rightarrow> bool"
  webpki_verify_chain :: "bytes \<Rightarrow> bytes \<Rightarrow> bytes list \<Rightarrow> u64 \<Rightarrow> WebpkiError option"
  x509_public_key :: "bytes \<Rightarrow> SubjectPublicKey option"
  p384_from_sec1 :: "bytes \<Rightarrow> bool"
  validate_cose_signature :: "bytes \<Rightarrow> bytes \<Rightarrow> bool"
  base64_encode :: "bytes \<Rightarrow> string"
  validate_expected_nonce :: "AttestationDoc \<Rightarrow> string \<Rightarrow> bool"
  skip_chain_compiled :: bool

definition AWS_NITRO_ROOT_CA_DER :: bytes where
  "AWS_NITRO_ROOT_CA_DER =
     [0x30, 0x82, 0x02, 0x11, 0x30, 0x82, 0x01, 0x96, 0xa0, 0x03, 0x02, 0x01, 0x02, 0x02, 0x11, 0x00,
      0xf9, 0x31, 0x75, 0x68, 0x1b, 0x90, 0xaf, 0xe1, 0x1d, 0x46, 0xcc, 0xb4, 0xe4, 0xe7, 0xf8, 0x56,
      0x30, 0x0a, 0x06, 0x08, 0x2a, 0x86, 0x48, 0xce, 0x3d, 0x04, 0x03, 0x03, 0x30, 0x49, 0x31, 0x0b,
      0x30, 0x09, 0x06, 0x03, 0x55, 0x04, 0x06, 0x13, 0x02, 0x55, 0x53, 0x31, 0x0f, 0x30, 0x0d, 0x06,
      0x03, 0x55, 0x04, 0x0a, 0x0c, 0x06, 0x41, 0x6d, 0x61, 0x7a, 0x6f, 0x6e, 0x31, 0x0c, 0x30, 0x0a,
      0x06, 0x03, 0x55, 0x04, 0x0b, 0x0c, 0x03, 0x41, 0x57, 0x53, 0x31, 0x1b, 0x30, 0x19, 0x06, 0x03,
      0x55, 0x04, 0x03, 0x0c, 0x12, 0x61, 0x77, 0x73, 0x2e, 0x6e, 0x69, 0x74, 0x72, 0x6f, 0x2d, 0x65,
      0x6e, 0x63, 0x6c, 0x61, 0x76, 0x65, 0x73, 0x30, 0x1e, 0x17, 0x0d, 0x31, 0x39, 0x31, 0x30, 0x32,
      0x38, 0x31, 0x33, 0x32, 0x38, 0x30, 0x35, 0x5a, 0x17, 0x0d, 0x34, 0x39, 0x31, 0x30, 0x32, 0x38,
      0x31, 0x34, 0x32, 0x38, 0x30, 0x35, 0x5a, 0x30, 0x49, 0x31, 0x0b, 0x30, 0x09, 0x06, 0x03, 0x55,
      0x04, 0x06, 0x13, 0x02, 0x55, 0x53, 0x31, 0x0f, 0x30, 0x0d, 0x06, 0x03, 0x55, 0x04, 0x0a, 0x0c,
      0x06, 0x41, 0x6d, 0x61, 0x7a, 0x6f, 0x6e, 0x31, 0x0c, 0x30, 0x0a, 0x06, 0x03, 0x55, 0x04, 0x0b,
      0x0c, 0x03, 0x41, 0x57, 0x53, 0x31, 0x1b, 0x30, 0x19, 0x06, 0x03, 0x55, 0x04, 0x03, 0x0c, 0x12,
      0x61, 0x77, 0x73, 0x2e, 0x6e, 0x69, 0x74, 0x72, 0x6f, 0x2d, 0x65, 0x6e, 0x63, 0x6c, 0x61, 0x76,
      0x65, 0x73, 0x30, 0x76, 0x30, 0x10, 0x06, 0x07, 0x2a, 0x86, 0x48, 0xce, 0x3d, 0x02, 0x01, 0x06,
      0x05, 0x2b, 0x81, 0x04, 0x00, 0x22, 0x03, 0x62, 0x00, 0x04, 0xfc, 0x02, 0x54, 0xeb, 0xa6, 0x08,
      0xc1, 0xf3, 0x68, 0x70, 0xe2, 0x9a, 0xda, 0x90, 0xbe, 0x46, 0x38, 0x32, 0x92, 0x73, 0x6e, 0x89,
      0x4b, 0xff, 0xf6, 0x72, 0xd9, 0x89, 0x44, 0x4b, 0x50, 0x51, 0xe5, 0x34, 0xa4, 0xb1, 0xf6, 0xdb,
      0xe3, 0xc0, 0xbc, 0x58, 0x1a, 0x32, 0xb7, 0xb1, 0x76, 0x07, 0x0e, 0xde, 0x12, 0xd6, 0x9a, 0x3f,
      0xea, 0x21, 0x1b, 0x66, 0xe7, 0x52, 0xcf, 0x7d, 0xd1, 0xdd, 0x09, 0x5f, 0x6f, 0x13, 0x70, 0xf4,
      0x17, 0x08, 0x43, 0xd9, 0xdc, 0x10, 0x01, 0x21, 0xe4, 0xcf, 0x63, 0x01, 0x28, 0x09, 0x66, 0x44,
      0x87, 0xc9, 0x79, 0x62, 0x84, 0x30, 0x4d, 0xc5, 0x3f, 0xf4, 0xa3, 0x42, 0x30, 0x40, 0x30, 0x0f,
      0x06, 0x03, 0x55, 0x1d, 0x13, 0x01, 0x01, 0xff, 0x04, 0x05, 0x30, 0x03, 0x01, 0x01, 0xff, 0x30,
      0x1d, 0x06, 0x03, 0x55, 0x1d, 0x0e, 0x04, 0x16, 0x04, 0x14, 0x90, 0x25, 0xb5, 0x0d, 0xd9, 0x05,
      0x47, 0xe7, 0x96, 0xc3, 0x96, 0xfa, 0x72, 0x9d, 0xcf, 0x99, 0xa9, 0xdf, 0x4b, 0x96, 0x30, 0x0e,
      0x06, 0x03, 0x55, 0x1d, 0x0f, 0x01, 0x01, 0xff, 0x04, 0x04, 0x03, 0x02, 0x01, 0x86, 0x30, 0x0a,
      0x06, 0x08, 0x2a, 0x86, 0x48, 0xce, 0x3d, 0x04, 0x03, 0x03, 0x03, 0x69, 0x00, 0x30, 0x66, 0x02,
      0x31, 0x00, 0xa3, 0x7f, 0x2f, 0x91, 0xa1, 0xc9, 0xbd, 0x5e, 0xe7, 0xb8, 0x62, 0x7c, 0x16, 0x98,
      0xd2, 0x55, 0x03, 0x8e, 0x1f, 0x03, 0x43, 0xf9, 0x5b, 0x63, 0xa9, 0x62, 0x8c, 0x3d, 0x39, 0x80,
      0x95, 0x45, 0xa1, 0x1e, 0xbc, 0xbf, 0x2e, 0x3b, 0x55, 0xd8, 0xae, 0xee, 0x71, 0xb4, 0xc3, 0xd6,
      0xad, 0xf3, 0x02, 0x31, 0x00, 0xa2, 0xf3, 0x9b, 0x16, 0x05, 0xb2, 0x70, 0x28, 0xa5, 0xdd, 0x4b,
      0xa0, 0x69, 0xb5, 0x01, 0x6e, 0x65, 0xb4, 0xfb, 0xde, 0x8f, 0xe0, 0x06, 0x1d, 0x6a, 0x53, 0x19,
      0x7f, 0x9c, 0xda, 0xf5, 0xd9, 0x43, 0xbc, 0x61, 0xfc, 0x2b, 0xeb, 0x03, 0xcb, 0x6f, 0xee, 0x8d,
      0x23, 0x02, 0xf3, 0xdf, 0xf6]"

fun chain_rejection_reason :: "WebpkiError \<Rightarrow> RejectionReason" where
  "chain_rejection_reason CertNotValidYet = NotYetValid"
| "chain_rejection_reason CertExpired = Expired"
| "chain_rejection_reason InvalidSignatureForPublicKey = Signature"
| "chain_rejection_reason SignatureAlgorithmMismatch = Signature"
| "chain_rejection_reason UnsupportedSignatureAlgorithm = Signature"
| "chain_rejection_reason UnsupportedSignatureAlgorithmForPublicKey = Signature"
| "chain_rejection_reason BadDer = Malformed"
| "chain_rejection_reason BadDerTime = Malformed"
| "chain_rejection_reason OtherWebpkiError = UntrustedChain"

text \<open>\<open>LeafKey::from_cert_der\<close>: the leaf's key, which must be an EC key on P-384.\<close>

definition leaf_key_from_cert_der :: "'x NitroExt_scheme \<Rightarrow> bytes \<Rightarrow> unit + bytes" where
  "leaf_key_from_cert_der X cert =
     and_then (ok_or () (x509_public_key X cert)) (\<lambda>spki.
     and_then (ensure (spki_is_ec spki) ()) (\<lambda>_.
     and_then (ensure (spki_curve spki = Some Secp384r1) ()) (\<lambda>_.
     and_then (ok_or () (spki_point spki)) (\<lambda>point.
     and_then (ensure (p384_from_sec1 X point) ()) (\<lambda>_. Inr point)))))"

definition validate_at_doc_timestamp ::
    "'x NitroExt_scheme \<Rightarrow> bytes \<Rightarrow> bytes \<Rightarrow> RejectionReason + AttestationDoc" where
  "validate_at_doc_timestamp X attestation_data root_der =
     and_then (ok_or Malformed (decode_attestation_document X attestation_data)) (\<lambda>(cose, doc).
     let at = doc_timestamp doc div 1000 in
     and_then (ensure (webpki_leaf_parses X (doc_certificate doc)) Malformed) (\<lambda>_.
     and_then (ensure (webpki_anchor_parses X root_der) UntrustedChain) (\<lambda>_.
     and_then (case webpki_verify_chain X (doc_certificate doc) root_der (doc_cabundle doc) at of
                 None \<Rightarrow> Inr () | Some e \<Rightarrow> Inl (chain_rejection_reason e)) (\<lambda>_.
     and_then (map_err (\<lambda>_. Malformed) (leaf_key_from_cert_der X (doc_certificate doc))) (\<lambda>key.
     and_then (ensure (validate_cose_signature X key cose) Signature) (\<lambda>_.
       Inr doc))))))"

definition decode_only :: "'x NitroExt_scheme \<Rightarrow> bytes \<Rightarrow> AttestationError + AttestationDoc" where
  "decode_only X bs =
     and_then (ok_or (Validation Malformed) (decode_attestation_document X bs)) (\<lambda>(_, doc). Inr doc)"

datatype Provenance = Local | Session bool | ChainLinkProv bool

record ValidatedAttestation =
  va_bytes :: bytes
  va_identity :: PinIdentity
  va_timestamp_ms :: u64
  va_user_data :: "bytes option"
  va_provenance :: Provenance

definition attestation_from_doc ::
    "bytes \<Rightarrow> AttestationDoc \<Rightarrow> Provenance \<Rightarrow> AttestationError + ValidatedAttestation" where
  "attestation_from_doc bs doc provenance =
     and_then (map_err InvalidIdentity (from_doc_pcrs (doc_pcrs doc))) (\<lambda>identity.
       Inr \<lparr> va_bytes = bs, va_identity = identity, va_timestamp_ms = doc_timestamp doc,
             va_user_data = doc_user_data doc, va_provenance = provenance \<rparr>)"

text \<open>\<open>request_local\<close>, from what \<open>/dev/nsm\<close> answered: a document, or nothing.\<close>

record NsmRequest =
  nsm_nonce :: "bytes option"
  nsm_user_data :: "bytes option"
  nsm_public_key :: "bytes option"

datatype LocalAttestationError = Nsm_Device | Nsm_Document AttestationError

definition request_local ::
    "'x NitroExt_scheme \<Rightarrow> bytes option \<Rightarrow> LocalAttestationError + ValidatedAttestation" where
  "request_local X response =
     and_then (ok_or Nsm_Device response) (\<lambda>bs.
     and_then (map_err Nsm_Document (decode_only X bs)) (\<lambda>doc.
       map_err Nsm_Document (attestation_from_doc bs doc Local)))"

definition control_pubkey :: "ValidatedAttestation \<Rightarrow> AttestationError + bytes" where
  "control_pubkey a =
     and_then (ok_or InvalidControlPubkey (va_user_data a)) (\<lambda>key.
     and_then (ensure (length key = CONTROL_PUBKEY_LEN) InvalidControlPubkey) (\<lambda>_.
     and_then (ensure (key ! 0 = 0x04) InvalidControlPubkey) (\<lambda>_. Inr key)))"

definition control_nonce :: "ValidatedAttestation \<Rightarrow> AttestationError + bytes" where
  "control_nonce a =
     and_then (ok_or InvalidControlNonce (va_user_data a)) (\<lambda>nonce.
     and_then (ensure (length nonce = 32) InvalidControlNonce) (\<lambda>_. Inr nonce))"

definition va_pcrs :: "ValidatedAttestation \<Rightarrow> Pcrs" where
  "va_pcrs a = image_pcrs (va_identity a)"

definition require_pcrs :: "ValidatedAttestation \<Rightarrow> Pcrs \<Rightarrow> AttestationError + unit" where
  "require_pcrs a expected = ensure (va_pcrs a = expected) (Validation PcrMismatch)"

definition require_pcrs_in :: "ValidatedAttestation \<Rightarrow> Pcrs list \<Rightarrow> AttestationError + Pcrs" where
  "require_pcrs_in a expected =
     (let pcrs = va_pcrs a
      in if pcrs \<notin> set expected then Inl PcrsNotExpected else Inr pcrs)"

definition require_identity :: "ValidatedAttestation \<Rightarrow> PinIdentity \<Rightarrow> AttestationError + unit" where
  "require_identity a expected =
     and_then (require_pcrs a (image_pcrs expected)) (\<lambda>_.
       ensure (va_identity a = expected) (Validation PcrMismatch))"

text \<open>\<open>Pcrs::from_hex\<close>; \<open>str::trim\<close> drops the white space at both ends (the Unicode
  \<open>White_Space\<close> characters of the Latin-1 range, as the strings here are char lists).\<close>

definition is_ws :: "char \<Rightarrow> bool" where
  "is_ws c \<longleftrightarrow> (of_char c :: nat) \<in> {9, 10, 11, 12, 13, 32, 133, 160}"

definition trim :: "string \<Rightarrow> string" where
  "trim s = rev (dropWhile is_ws (rev (dropWhile is_ws s)))"

definition decode_pcr_hex :: "'x Ext_scheme \<Rightarrow> nat \<Rightarrow> string \<Rightarrow> AttestationError + bytes" where
  "decode_pcr_hex X idx s =
     and_then (ok_or (InvalidPcrHex idx) (hex_decode X (trim s))) (\<lambda>bs.
       if length bs \<notin> {32, 48, 64} then Inl (InvalidPcrLength idx (length bs)) else Inr bs)"

definition pcrs_from_hex ::
    "'x Ext_scheme \<Rightarrow> string \<Rightarrow> string \<Rightarrow> string \<Rightarrow> AttestationError + Pcrs" where
  "pcrs_from_hex X s0 s1 s2 =
     and_then (decode_pcr_hex X 0 s0) (\<lambda>b0.
     and_then (decode_pcr_hex X 1 s1) (\<lambda>b1.
     and_then (decode_pcr_hex X 2 s2) (\<lambda>b2.
       Inr \<lparr> pcr0 = b0, pcr1 = b1, pcr2 = b2 \<rparr>)))"

definition MAX_SESSION_DOC_CLOCK_SKEW_MS :: u64 where
  "MAX_SESSION_DOC_CLOCK_SKEW_MS = 24 * 60 * 60 * 1000"

datatype ChainMode = ChainVerify | ChainSkip

definition u64_abs_diff :: "u64 \<Rightarrow> u64 \<Rightarrow> u64" where
  "u64_abs_diff a b = (if a \<le> b then b - a else a - b)"

text \<open>\<open>u64::try_from(millis).unwrap_or(0)\<close> of the system clock's signed milliseconds.\<close>

definition system_now_ms :: "int \<Rightarrow> u64" where
  "system_now_ms millis = (if 0 \<le> millis then of_int millis else 0)"

definition open_document ::
    "'x NitroExt_scheme \<Rightarrow> bytes \<Rightarrow> ChainMode \<Rightarrow> bytes \<Rightarrow>
      AttestationError + AttestationDoc \<times> bool" where
  "open_document X bs chain root_der =
     (case chain of
        ChainVerify \<Rightarrow>
          and_then (map_err Validation (validate_at_doc_timestamp X bs root_der)) (\<lambda>doc.
            Inr (doc, True))
      | ChainSkip \<Rightarrow> and_then (decode_only X bs) (\<lambda>doc. Inr (doc, False)))"

definition check_nonce :: "'x NitroExt_scheme \<Rightarrow> AttestationDoc \<Rightarrow> bytes \<Rightarrow> AttestationError + unit" where
  "check_nonce X doc handshake_hash =
     (let nonce_b64 = base64_encode X handshake_hash
      in ensure (validate_expected_nonce X doc nonce_b64) (Validation NonceMismatch))"

definition validate_session_with ::
    "'x NitroExt_scheme \<Rightarrow> bytes \<Rightarrow> bytes \<Rightarrow> ChainMode \<Rightarrow> bytes \<Rightarrow> u64 \<Rightarrow>
      AttestationError + ValidatedAttestation" where
  "validate_session_with X bs handshake_hash chain root_der now_ms =
     and_then (open_document X bs chain root_der) (\<lambda>(doc, chain_verified).
     let skew = u64_abs_diff (doc_timestamp doc) now_ms in
     if skew > MAX_SESSION_DOC_CLOCK_SKEW_MS then Inl (Validation ClockSkew)
     else and_then (check_nonce X doc handshake_hash) (\<lambda>_.
       attestation_from_doc bs doc (Session chain_verified)))"

definition validate_chain_link_with ::
    "'x NitroExt_scheme \<Rightarrow> bytes \<Rightarrow> bytes \<Rightarrow> ChainMode \<Rightarrow> bytes \<Rightarrow>
      AttestationError + ValidatedAttestation" where
  "validate_chain_link_with X bs payload chain root_der =
     and_then (open_document X bs chain root_der) (\<lambda>(doc, chain_verified).
     and_then (ok_or PayloadBindingMismatch (doc_user_data doc)) (\<lambda>user_data.
     if user_data \<noteq> sha256 X payload then Inl PayloadBindingMismatch
     else attestation_from_doc bs doc (ChainLinkProv chain_verified)))"

definition doc_validate_session_at ::
    "'x NitroExt_scheme \<Rightarrow> bytes \<Rightarrow> bytes \<Rightarrow> u64 \<Rightarrow> AttestationError + ValidatedAttestation" where
  "doc_validate_session_at X bs handshake_hash now_ms =
     validate_session_with X bs handshake_hash ChainVerify AWS_NITRO_ROOT_CA_DER now_ms"

definition doc_validate_session ::
    "'x NitroExt_scheme \<Rightarrow> bytes \<Rightarrow> bytes \<Rightarrow> int \<Rightarrow> AttestationError + ValidatedAttestation" where
  "doc_validate_session X bs handshake_hash clock =
     doc_validate_session_at X bs handshake_hash (system_now_ms clock)"

definition doc_validate_chain_link ::
    "'x NitroExt_scheme \<Rightarrow> bytes \<Rightarrow> bytes \<Rightarrow> AttestationError + ValidatedAttestation" where
  "doc_validate_chain_link X bs payload =
     validate_chain_link_with X bs payload ChainVerify AWS_NITRO_ROOT_CA_DER"

definition doc_validate_session_skip_chain_at ::
    "'x NitroExt_scheme \<Rightarrow> bytes \<Rightarrow> bytes \<Rightarrow> u64 \<Rightarrow> AttestationError + ValidatedAttestation" where
  "doc_validate_session_skip_chain_at X bs handshake_hash now_ms =
     validate_session_with X bs handshake_hash ChainSkip AWS_NITRO_ROOT_CA_DER now_ms"

definition doc_validate_session_skip_chain ::
    "'x NitroExt_scheme \<Rightarrow> bytes \<Rightarrow> bytes \<Rightarrow> int \<Rightarrow> AttestationError + ValidatedAttestation" where
  "doc_validate_session_skip_chain X bs handshake_hash clock =
     doc_validate_session_skip_chain_at X bs handshake_hash (system_now_ms clock)"

definition doc_validate_chain_link_skip_chain ::
    "'x NitroExt_scheme \<Rightarrow> bytes \<Rightarrow> bytes \<Rightarrow> AttestationError + ValidatedAttestation" where
  "doc_validate_chain_link_skip_chain X bs payload =
     validate_chain_link_with X bs payload ChainSkip AWS_NITRO_ROOT_CA_DER"

subsection \<open>The synchronizer's entry points\<close>

text \<open>\<open>skip_chain::session\<close> and \<open>skip_chain::chain_link\<close> in their two builds.\<close>

definition skip_chain_session ::
    "'x NitroExt_scheme \<Rightarrow> bytes \<Rightarrow> bytes \<Rightarrow> u64 option \<Rightarrow> int \<Rightarrow>
      AttestationError + ValidatedAttestation" where
  "skip_chain_session X bs handshake_hash now_ms clock =
     (if skip_chain_compiled X
      then (case now_ms of
              Some t \<Rightarrow> doc_validate_session_skip_chain_at X bs handshake_hash t
            | None \<Rightarrow> doc_validate_session_skip_chain X bs handshake_hash clock)
      else Inl SkipChainNotCompiled)"

definition skip_chain_chain_link ::
    "'x NitroExt_scheme \<Rightarrow> bytes \<Rightarrow> bytes \<Rightarrow> AttestationError + ValidatedAttestation" where
  "skip_chain_chain_link X bs payload =
     (if skip_chain_compiled X then doc_validate_chain_link_skip_chain X bs payload
      else Inl SkipChainNotCompiled)"

definition validate_session ::
    "'x NitroExt_scheme \<Rightarrow> bytes \<Rightarrow> bytes \<Rightarrow> bool \<Rightarrow> int \<Rightarrow>
      AttestationError + ValidatedAttestation" where
  "validate_session X nsm_doc handshake_hash debug_mode clock =
     (if debug_mode then skip_chain_session X nsm_doc handshake_hash None clock
      else doc_validate_session X nsm_doc handshake_hash clock)"

definition validate_session_at ::
    "'x NitroExt_scheme \<Rightarrow> bytes \<Rightarrow> bytes \<Rightarrow> bool \<Rightarrow> u64 \<Rightarrow>
      AttestationError + ValidatedAttestation" where
  "validate_session_at X nsm_doc handshake_hash debug_mode now_ms =
     (if debug_mode then skip_chain_session X nsm_doc handshake_hash (Some now_ms) 0
      else doc_validate_session_at X nsm_doc handshake_hash now_ms)"

definition validate_chain_link ::
    "'x NitroExt_scheme \<Rightarrow> bytes \<Rightarrow> bytes \<Rightarrow> bool \<Rightarrow> AttestationError + ValidatedAttestation" where
  "validate_chain_link X attestation payload debug_mode =
     (if debug_mode then skip_chain_chain_link X attestation payload
      else doc_validate_chain_link X attestation payload)"

subsection \<open>What an accepted document went through\<close>

text \<open>\<open>chain_checked X root bs doc\<close>: the bytes decode to \<open>doc\<close>, the leaf chains to the root at the
  document's timestamp, and the leaf's P-384 key signed the envelope that carries it.\<close>

definition chain_checked :: "'x NitroExt_scheme \<Rightarrow> bytes \<Rightarrow> bytes \<Rightarrow> AttestationDoc \<Rightarrow> bool" where
  "chain_checked X root bs doc \<longleftrightarrow>
     (\<exists>cose key. decode_attestation_document X bs = Some (cose, doc) \<and>
       webpki_leaf_parses X (doc_certificate doc) \<and> webpki_anchor_parses X root \<and>
       webpki_verify_chain X (doc_certificate doc) root (doc_cabundle doc)
         (doc_timestamp doc div 1000) = None \<and>
       leaf_key_from_cert_der X (doc_certificate doc) = Inr key \<and>
       validate_cose_signature X key cose)"

lemma validate_at_doc_timestamp_Inr_iff [result_simps]:
  "validate_at_doc_timestamp X bs root = Inr doc \<longleftrightarrow> chain_checked X root bs doc"
  by (auto simp: validate_at_doc_timestamp_def chain_checked_def result_simps Let_def
      split: option.splits)

lemma open_document_verify_Inr_iff [result_simps]:
  "open_document X bs ChainVerify root = Inr (doc, v) \<longleftrightarrow> v \<and> chain_checked X root bs doc"
  by (auto simp: open_document_def result_simps)

lemma attestation_from_doc_Inr_iff [result_simps]:
  "attestation_from_doc bs doc p = Inr a \<longleftrightarrow>
     from_doc_pcrs (doc_pcrs doc) = Inr (va_identity a) \<and> va_bytes a = bs \<and>
     va_timestamp_ms a = doc_timestamp doc \<and> va_user_data a = doc_user_data doc \<and>
     va_provenance a = p"
  by (auto simp: attestation_from_doc_def result_simps)

lemma u64_abs_diff_le_iff:
  "u64_abs_diff a b \<le> c \<longleftrightarrow> \<bar>uint a - uint b\<bar> \<le> uint c"
  by (auto simp: u64_abs_diff_def word_le_def uint_sub_lem [THEN iffD1])

lemma check_nonce_Inr_iff [result_simps]:
  "check_nonce X doc h = Inr u \<longleftrightarrow> validate_expected_nonce X doc (base64_encode X h)"
  by (simp add: check_nonce_def result_simps)

lemma validate_session_with_Inr_iff:
  "validate_session_with X bs h ChainVerify root now = Inr a \<longleftrightarrow>
     (\<exists>doc. chain_checked X root bs doc \<and>
       \<bar>uint (doc_timestamp doc) - uint now\<bar> \<le> uint MAX_SESSION_DOC_CLOCK_SKEW_MS \<and>
       validate_expected_nonce X doc (base64_encode X h) \<and>
       attestation_from_doc bs doc (Session True) = Inr a)"
  unfolding validate_session_with_def u64_abs_diff_le_iff [symmetric]
  by (fastforce simp: result_simps Let_def not_less split: if_splits)

lemma validate_chain_link_with_Inr_iff:
  "validate_chain_link_with X bs payload ChainVerify root = Inr a \<longleftrightarrow>
     (\<exists>doc. chain_checked X root bs doc \<and> doc_user_data doc = Some (sha256 X payload) \<and>
       attestation_from_doc bs doc (ChainLinkProv True) = Inr a)"
  unfolding validate_chain_link_with_def
  by (fastforce simp: result_simps split: if_splits)

lemma require_pcrs_Inr_iff [result_simps]: "require_pcrs a p = Inr u \<longleftrightarrow> va_pcrs a = p"
  by (simp add: require_pcrs_def result_simps)

lemma require_identity_Inr_iff [result_simps]: "require_identity a i = Inr u \<longleftrightarrow> va_identity a = i"
  by (auto simp: require_identity_def result_simps va_pcrs_def)

lemma control_pubkey_Inr_iff [result_simps]:
  "control_pubkey a = Inr key \<longleftrightarrow> va_user_data a = Some key \<and> length key = 65 \<and> key ! 0 = 0x04"
  by (auto simp: control_pubkey_def result_simps CONTROL_PUBKEY_LEN_def)

lemma validate_chain_link_production:
  assumes "\<not> (debug_mode \<and> skip_chain_compiled X)"
    and "validate_chain_link X bs payload debug_mode = Inr a"
  obtains doc where "\<not> debug_mode" "chain_checked X AWS_NITRO_ROOT_CA_DER bs doc"
    "doc_user_data doc = Some (sha256 X payload)" "from_doc_pcrs (doc_pcrs doc) = Inr (va_identity a)"
    "va_user_data a = doc_user_data doc" "va_provenance a = ChainLinkProv True"
proof -
  have "\<not> debug_mode"
    using assms by (auto simp: validate_chain_link_def skip_chain_chain_link_def)
  with assms(2) that show thesis
    by (auto simp: validate_chain_link_def doc_validate_chain_link_def
        validate_chain_link_with_Inr_iff attestation_from_doc_Inr_iff)
qed

lemma max_skew: "uint MAX_SESSION_DOC_CLOCK_SKEW_MS = 86400000"
  by (simp add: MAX_SESSION_DOC_CLOCK_SKEW_MS_def)

subsection \<open>Properties\<close>

text \<open>What a session document must prove. Outside a debug build, the synchronizer accepts a
  document on a session only if the AWS root vouches for its leaf at the document's own signed
  timestamp, the leaf key signed it, the timestamp is within 24 hours of the verifier's clock, and
  its nonce is this session's handshake hash (given that the nonce check of the attestation crate
  compares the document's nonce with the expected one). The identity handed on is the one read from
  the document's PCRs.\<close>

theorem session_document_sound:
  assumes nonce: "\<And>doc h. validate_expected_nonce X doc (base64_encode X h) \<Longrightarrow> doc_nonce doc = Some h"
    and production: "\<not> (debug_mode \<and> skip_chain_compiled X)"
    and accepted: "validate_session_at X bs handshake_hash debug_mode now_ms = Inr a"
  shows "\<not> debug_mode \<and> va_provenance a = Session True \<and>
    (\<exists>doc. chain_checked X AWS_NITRO_ROOT_CA_DER bs doc \<and> doc_nonce doc = Some handshake_hash \<and>
      \<bar>uint (doc_timestamp doc) - uint now_ms\<bar> \<le> 86400000 \<and>
      from_doc_pcrs (doc_pcrs doc) = Inr (va_identity a) \<and> va_user_data a = doc_user_data doc)"
proof -
  have "\<not> debug_mode"
    using accepted production by (auto simp: validate_session_at_def skip_chain_session_def)
  with accepted obtain doc where doc: "chain_checked X AWS_NITRO_ROOT_CA_DER bs doc"
      "\<bar>uint (doc_timestamp doc) - uint now_ms\<bar> \<le> 86400000"
      "validate_expected_nonce X doc (base64_encode X handshake_hash)"
      "attestation_from_doc bs doc (Session True) = Inr a"
    by (auto simp: validate_session_at_def doc_validate_session_at_def
        validate_session_with_Inr_iff max_skew)
  with \<open>\<not> debug_mode\<close> nonce [OF doc(3)] show ?thesis
    by (auto simp: attestation_from_doc_Inr_iff)
qed

text \<open>What a chain link's document must prove. Outside a debug build, a link's document is
  accepted only if it is vouched for by the AWS root at its own timestamp and its user data is the
  hash of the link's payload.\<close>

theorem chain_link_document_sound:
  assumes production: "\<not> (debug_mode \<and> skip_chain_compiled X)"
    and accepted: "validate_chain_link X bs payload debug_mode = Inr a"
  shows "\<not> debug_mode \<and> va_provenance a = ChainLinkProv True \<and>
    va_user_data a = Some (sha256 X payload) \<and>
    (\<exists>doc. chain_checked X AWS_NITRO_ROOT_CA_DER bs doc \<and>
      from_doc_pcrs (doc_pcrs doc) = Inr (va_identity a))"
  using validate_chain_link_production [OF assms] by metis

subsection \<open>Witnesses\<close>

text \<open>A concrete set of external functions that accepts one document: the bytes \<open>[1]\<close>, signed at
  second 1 for the handshake \<open>[7]\<close> and carrying the given user data.\<close>

definition ex_doc :: "bytes \<Rightarrow> AttestationDoc" where
  "ex_doc user_data =
     \<lparr> doc_timestamp = 1000, doc_pcrs = ex_doc_pcrs, doc_certificate = [2], doc_cabundle = [],
       doc_user_data = Some user_data, doc_nonce = Some [7] \<rparr>"

definition ex_nitro :: "bytes \<Rightarrow> NitroExt" where
  "ex_nitro user_data =
     \<lparr> sha256 = (\<lambda>bs. take 32 (bs @ replicate 32 0)), hex_encode = ex_hex, hex_decode = ex_unhex,
       p256_from_sec1 = (\<lambda>k. length k = 65), p256_sig_from_slice = (\<lambda>s. length s = 64),
       p256_verify = (\<lambda>k m s. True),
       decode_attestation_document = (\<lambda>bs. if bs = [1] then Some ([], ex_doc user_data) else None),
       webpki_leaf_parses = (\<lambda>_. True), webpki_anchor_parses = (\<lambda>_. True),
       webpki_verify_chain = (\<lambda>_ _ _ _. None),
       x509_public_key = (\<lambda>_. Some \<lparr> spki_is_ec = True, spki_curve = Some Secp384r1,
                                     spki_point = Some [4] \<rparr>),
       p384_from_sec1 = (\<lambda>_. True), validate_cose_signature = (\<lambda>_ _. True),
       base64_encode = ex_hex,
       validate_expected_nonce = (\<lambda>doc s. map_option ex_hex (doc_nonce doc) = Some s),
       skip_chain_compiled = False \<rparr>"

lemma ex_hex_inj: "ex_hex a = ex_hex b \<Longrightarrow> a = b"
  by (metis ex_unhex_hex option.inject)

lemma ex_nitro_nonce:
  "validate_expected_nonce (ex_nitro u) doc (base64_encode (ex_nitro u) h) \<Longrightarrow> doc_nonce doc = Some h"
  by (auto simp: ex_nitro_def dest: ex_hex_inj)

lemma ex_nitro_chain: "chain_checked (ex_nitro u) root [1] (ex_doc u)"
  by (simp add: chain_checked_def ex_nitro_def leaf_key_from_cert_der_def)

lemma ex_nitro_simps [simp]:
  "sha256 (ex_nitro u) bs = take 32 (bs @ replicate 32 0)"
  "skip_chain_compiled (ex_nitro u) = False"
  "validate_expected_nonce (ex_nitro u) (ex_doc u') (base64_encode (ex_nitro u) [7])"
  by (simp_all add: ex_nitro_def ex_doc_def)

lemma ex_doc_simps [simp]:
  "doc_timestamp (ex_doc u) = 1000" "doc_user_data (ex_doc u) = Some u"
  by (simp_all add: ex_doc_def)

lemma ex_doc_attests: "\<exists>a. attestation_from_doc bs (ex_doc u) p = Inr a"
  by (simp add: attestation_from_doc_def ex_doc_def ex_identity_read)

lemma ex_session_accepted: "\<exists>a. validate_session_at (ex_nitro u) [1] [7] False 2000 = Inr a"
proof -
  obtain a where "attestation_from_doc [1] (ex_doc u) (Session True) = Inr a"
    using ex_doc_attests by blast
  then have "validate_session_at (ex_nitro u) [1] [7] False 2000 = Inr a"
    unfolding validate_session_at_def doc_validate_session_at_def
    by (simp add: validate_session_with_Inr_iff)
      (rule exI [of _ "ex_doc u"], simp add: ex_nitro_chain max_skew)
  then show ?thesis by blast
qed

lemma ex_chain_link_accepted:
  assumes "sha256 (ex_nitro u) payload = u"
  shows "\<exists>a. validate_chain_link (ex_nitro u) [1] payload False = Inr a"
proof -
  obtain a where "attestation_from_doc [1] (ex_doc u) (ChainLinkProv True) = Inr a"
    using ex_doc_attests by blast
  then have "validate_chain_link (ex_nitro u) [1] payload False = Inr a"
    unfolding validate_chain_link_def doc_validate_chain_link_def
    using assms by (simp add: validate_chain_link_with_Inr_iff)
      (rule exI [of _ "ex_doc u"], simp add: ex_nitro_chain)
  then show ?thesis by blast
qed

theorem session_document_sound_witness:
  "\<exists>a doc. validate_session_at (ex_nitro [4]) [1] [7] False 2000 = Inr a \<and>
     va_provenance a = Session True \<and> chain_checked (ex_nitro [4]) AWS_NITRO_ROOT_CA_DER [1] doc \<and>
     doc_nonce doc = Some [7]"
proof -
  obtain a where a: "validate_session_at (ex_nitro [4]) [1] [7] False 2000 = Inr a"
    using ex_session_accepted by blast
  have "va_provenance a = Session True \<and>
      (\<exists>doc. chain_checked (ex_nitro [4]) AWS_NITRO_ROOT_CA_DER [1] doc \<and> doc_nonce doc = Some [7])"
    using session_document_sound [OF ex_nitro_nonce [of "[4]"] _ a] by auto
  with a show ?thesis by blast
qed

theorem chain_link_document_sound_witness:
  "\<exists>a. validate_chain_link (ex_nitro (replicate 32 0)) [1] [] False = Inr a \<and>
     va_user_data a = Some (replicate 32 0)"
proof -
  let ?X = "ex_nitro (replicate 32 0)"
  have "\<exists>a. validate_chain_link ?X [1] [] False = Inr a"
    by (rule ex_chain_link_accepted) simp
  then obtain a where a: "validate_chain_link ?X [1] [] False = Inr a" by blast
  from chain_link_document_sound [OF _ a] a show ?thesis by auto
qed

end
