(* ===== verification/Chain.thy ===== *)
theory Chain
  imports Signing Attestation
begin

text \<open>
  The upgrade chain, \<open>enclavia-protocol/src/chain.rs\<close>: link and payload types, the per-link
  validator used at ingest, the full-chain walker with its in-force state, and the descent check
  that decides whether a client that pinned one version may trust a later one. A \<open>DateTime<Utc>\<close>
  is its number of nanoseconds since the epoch (an \<open>int\<close>). The CBOR codecs of the payload types
  and base64 are parameters; free-text messages in errors are left out.
\<close>

type_synonym Uuid = bytes
type_synonym DateTime = int

definition SECOND :: DateTime where "SECOND = 1000000000"
definition HOUR :: DateTime where "HOUR = 3600 * SECOND"

subsection \<open>Links and payloads\<close>

record ChainLink =
  cl_id :: "Uuid option"
  cl_sequence :: "u64 option"
  cl_kind :: ChainLinkKind
  cl_payload :: bytes
  cl_attestation :: bytes
  cl_signature :: "bytes option"

record PcrsHex =
  ph_pcr0 :: string
  ph_pcr1 :: string
  ph_pcr2 :: string

record AntiRollbackSetting =
  ar_enabled :: bool
  ar_upgrade_target :: bool
  ar_debug_attestation :: bool
  ar_synchronizer_pcrs :: "PcrsHex list"

record BootPayload =
  bp_enclave_id :: Uuid
  bp_image_digest :: string
  bp_pcrs :: PcrsHex
  bp_booted_at :: DateTime
  bp_nonce :: bytes
  bp_anti_rollback :: AntiRollbackSetting

record UpgradePayload =
  up_enclave_id :: Uuid
  up_from :: PinIdentity
  up_to :: PinIdentity
  up_image_digest :: string
  up_valid_from :: DateTime
  up_valid_until :: DateTime
  up_issued_at :: DateTime
  up_nonce :: bytes

record RevocationPayload =
  rp_enclave_id :: Uuid
  rp_revokes :: Uuid
  rp_issued_at :: DateTime
  rp_nonce :: bytes
  rp_revokes_link :: bytes

text \<open>The codecs: \<open>ciborium\<close> at each payload type, and base64 decoding.\<close>

record ChainExt = NitroExt +
  boot_dec :: "bytes \<Rightarrow> BootPayload option"
  boot_enc :: "BootPayload \<Rightarrow> bytes"
  upgrade_dec :: "bytes \<Rightarrow> UpgradePayload option"
  upgrade_enc :: "UpgradePayload \<Rightarrow> bytes"
  revocation_dec :: "bytes \<Rightarrow> RevocationPayload option"
  revocation_enc :: "RevocationPayload \<Rightarrow> bytes"
  base64_decode :: "string \<Rightarrow> bytes option"

abbreviation decode_boot :: "'x ChainExt_scheme \<Rightarrow> bytes \<Rightarrow> CanonicalDecodeError + BootPayload" where
  "decode_boot X \<equiv> decode_canonical (boot_dec X) (boot_enc X)"

abbreviation decode_upgrade :: "'x ChainExt_scheme \<Rightarrow> bytes \<Rightarrow> CanonicalDecodeError + UpgradePayload" where
  "decode_upgrade X \<equiv> decode_canonical (upgrade_dec X) (upgrade_enc X)"

abbreviation decode_revocation ::
    "'x ChainExt_scheme \<Rightarrow> bytes \<Rightarrow> CanonicalDecodeError + RevocationPayload" where
  "decode_revocation X \<equiv> decode_canonical (revocation_dec X) (revocation_enc X)"

datatype AntiRollbackChange =
    TurnedOff
  | TurnedOn
  | NotUpgradeTarget
  | DebugAttestationChanged
  | NoTrustedSynchronizer

definition anti_rollback_disabled :: AntiRollbackSetting where
  "anti_rollback_disabled =
     \<lparr> ar_enabled = False, ar_upgrade_target = False, ar_debug_attestation = False,
       ar_synchronizer_pcrs = [] \<rparr>"

definition check_successor ::
    "AntiRollbackSetting \<Rightarrow> AntiRollbackSetting \<Rightarrow> AntiRollbackChange + unit" where
  "check_successor cur nxt =
     (case (ar_enabled cur, ar_enabled nxt) of
        (False, False) \<Rightarrow> Inr ()
      | (True, False) \<Rightarrow> Inl TurnedOff
      | (False, True) \<Rightarrow> Inl TurnedOn
      | (True, True) \<Rightarrow>
          if \<not> ar_upgrade_target nxt then Inl NotUpgradeTarget
          else if ar_debug_attestation nxt \<noteq> ar_debug_attestation cur
          then Inl DebugAttestationChanged
          else if ar_synchronizer_pcrs nxt = [] then Inl NoTrustedSynchronizer
          else Inr ())"

definition UPGRADE_DELAY_DEFAULT :: DateTime where "UPGRADE_DELAY_DEFAULT = 7 * 24 * HOUR"
definition UPGRADE_WINDOW_DEFAULT :: DateTime where "UPGRADE_WINDOW_DEFAULT = 7 * 24 * HOUR"
definition UPGRADE_WINDOW_MAX :: DateTime where "UPGRADE_WINDOW_MAX = 30 * 24 * HOUR"
definition UPGRADE_WINDOW_MIN :: DateTime where "UPGRADE_WINDOW_MIN = HOUR"

definition upgrade_window_is_valid :: "DateTime \<Rightarrow> DateTime \<Rightarrow> bool" where
  "upgrade_window_is_valid valid_from valid_until \<longleftrightarrow> valid_until - valid_from \<ge> UPGRADE_WINDOW_MIN"

definition upgrade_link_hash :: "'x Ext_scheme \<Rightarrow> bytes \<Rightarrow> bytes" where
  "upgrade_link_hash X payload = sha256 X payload"

subsection \<open>The JSON form\<close>

record ChainLinkJson =
  cj_id :: "Uuid option"
  cj_kind :: ChainLinkKind
  cj_sequence :: "int option"
  cj_payload :: string
  cj_attestation :: string
  cj_signature :: "string option"
  cj_created_at :: "DateTime option"

datatype ChainLinkDecodeError = Base64Error string | NegativeSequence int

definition decode_b64_field ::
    "'x ChainExt_scheme \<Rightarrow> string \<Rightarrow> string \<Rightarrow> ChainLinkDecodeError + bytes" where
  "decode_b64_field X field s = ok_or (Base64Error field) (base64_decode X s)"

definition into_chain_link :: "'x ChainExt_scheme \<Rightarrow> ChainLinkJson \<Rightarrow> ChainLinkDecodeError + ChainLink" where
  "into_chain_link X j =
     and_then (decode_b64_field X ''payload'' (cj_payload j)) (\<lambda>payload.
     and_then (decode_b64_field X ''attestation'' (cj_attestation j)) (\<lambda>attestation.
     and_then (case cj_signature j of
                 Some s \<Rightarrow> and_then (decode_b64_field X ''signature'' s) (\<lambda>b. Inr (Some b))
               | None \<Rightarrow> Inr None) (\<lambda>signature.
     and_then (case cj_sequence j of
                 Some s \<Rightarrow> if s < 0 then Inl (NegativeSequence s) else Inr (Some (of_int s))
               | None \<Rightarrow> Inr None) (\<lambda>sequence.
       Inr \<lparr> cl_id = cj_id j, cl_sequence = sequence, cl_kind = cj_kind j, cl_payload = payload,
             cl_attestation = attestation, cl_signature = signature \<rparr>))))"

record RecordedLink =
  rl_link :: ChainLink
  rl_recorded_at :: "DateTime option"

definition into_recorded_link ::
    "'x ChainExt_scheme \<Rightarrow> ChainLinkJson \<Rightarrow> ChainLinkDecodeError + RecordedLink" where
  "into_recorded_link X j =
     and_then (into_chain_link X j) (\<lambda>link.
       Inr \<lparr> rl_link = link, rl_recorded_at = cj_created_at j \<rparr>)"

subsection \<open>Outcomes and errors\<close>

datatype Outcome = Append u64 | Dedup

text \<open>\<open>PanicUnreachable\<close> stands for the \<open>unreachable!\<close> arms of \<open>validate_signed\<close>.\<close>

datatype ChainValidationError =
    AttestationFailed AttestationError
  | EmptyAttestation
  | PayloadDecode ChainLinkKind
  | EnclaveIdMismatch
  | PcrsMismatch
  | UpgradeFromMismatch
  | UpgradeWindowInvalid
  | ImageDigestMismatch
  | BootHasSignature
  | SignatureMissing ChainLinkKind
  | BadControlPubkey
  | SignatureShape
  | SignatureInvalid
  | NonUpgradableSigned ChainLinkKind
  | NonUpgradableSecondBoot
  | AntiRollbackChanged AntiRollbackChange
  | NoGenesisYet
  | RevokeTargetMissing
  | RevokeTargetWrongKind ChainLinkKind
  | RevokePastActivation
  | AlreadyRevoked
  | RevokeLinkHashMismatch
  | DuplicatePayload ChainLinkKind
  | UpgradeNotYetActive
  | UpgradeExpired
  | PromotionIdentityMismatch
  | CorruptStoredPayload ChainLinkKind
  | CorruptStoredPcrHex nat
  | PanicUnreachable

definition ascii_lower :: "char \<Rightarrow> char" where
  "ascii_lower c =
     (let n = of_char c :: nat in if 65 \<le> n \<and> n \<le> 90 then char_of (n + 32) else c)"

definition eq_ignore_ascii_case :: "string \<Rightarrow> string \<Rightarrow> bool" where
  "eq_ignore_ascii_case a b \<longleftrightarrow> map ascii_lower a = map ascii_lower b"

definition pcrs_hex_same_as :: "PcrsHex \<Rightarrow> PcrsHex \<Rightarrow> bool" where
  "pcrs_hex_same_as a b \<longleftrightarrow>
     eq_ignore_ascii_case (ph_pcr0 a) (ph_pcr0 b) \<and>
     eq_ignore_ascii_case (ph_pcr1 a) (ph_pcr1 b) \<and>
     eq_ignore_ascii_case (ph_pcr2 a) (ph_pcr2 b)"

definition pcrs_hex_to_pcrs :: "'x Ext_scheme \<Rightarrow> PcrsHex \<Rightarrow> ChainValidationError + Pcrs" where
  "pcrs_hex_to_pcrs X h =
     and_then (ok_or (CorruptStoredPcrHex 0) (hex_decode X (ph_pcr0 h))) (\<lambda>b0.
     and_then (ok_or (CorruptStoredPcrHex 1) (hex_decode X (ph_pcr1 h))) (\<lambda>b1.
     and_then (ok_or (CorruptStoredPcrHex 2) (hex_decode X (ph_pcr2 h))) (\<lambda>b2.
       Inr \<lparr> pcr0 = b0, pcr1 = b1, pcr2 = b2 \<rparr>)))"

definition image_pcrs_hex :: "'x Ext_scheme \<Rightarrow> PinIdentity \<Rightarrow> PcrsHex" where
  "image_pcrs_hex X i =
     \<lparr> ph_pcr0 = hex_encode X (pi_image i ! 0), ph_pcr1 = hex_encode X (pi_image i ! 1),
       ph_pcr2 = hex_encode X (pi_image i ! 2) \<rparr>"

subsection \<open>The per-link validator\<close>

record ChainContext =
  cx_enclave_id :: Uuid
  cx_enclave_pcrs :: PcrsHex
  cx_enclave_image_digest :: string
  cx_control_public_key :: "bytes option"
  cx_upgradable :: bool
  cx_prior_chain :: "ChainLink list"

definition skip_chain :: "'x NitroExt_scheme \<Rightarrow> bytes \<Rightarrow> bytes \<Rightarrow> AttestationError + ValidatedAttestation" where
  "skip_chain X doc payload =
     (if skip_chain_compiled X then doc_validate_chain_link_skip_chain X doc payload
      else Inl SkipChainNotCompiled)"

definition link_attestation ::
    "'x NitroExt_scheme \<Rightarrow> ChainLink \<Rightarrow> bool \<Rightarrow> AttestationError + ValidatedAttestation" where
  "link_attestation X link debug_mode =
     (if debug_mode then skip_chain X (cl_attestation link) (cl_payload link)
      else doc_validate_chain_link X (cl_attestation link) (cl_payload link))"

definition signed_payload_seen :: "ChainLink \<Rightarrow> ChainLink list \<Rightarrow> bool" where
  "signed_payload_seen link prior \<longleftrightarrow>
     (\<exists>l \<in> set prior. cl_kind l = cl_kind link \<and> cl_payload l = cl_payload link)"

definition validate_boot ::
    "'x ChainExt_scheme \<Rightarrow> ChainLink \<Rightarrow> ChainContext \<Rightarrow> ChainValidationError + Outcome" where
  "validate_boot X link ctx =
     (if cl_signature link \<noteq> None then Inl BootHasSignature
      else and_then (map_err (\<lambda>_. PayloadDecode Boot) (decode_boot X (cl_payload link))) (\<lambda>parsed.
        if bp_enclave_id parsed \<noteq> cx_enclave_id ctx then Inl EnclaveIdMismatch
        else if bp_pcrs parsed \<noteq> cx_enclave_pcrs ctx then Inl PcrsMismatch
        else if bp_image_digest parsed \<noteq> cx_enclave_image_digest ctx then Inl ImageDigestMismatch
        else (case find (\<lambda>l. cl_kind l = Boot) (rev (cx_prior_chain ctx)) of
          None \<Rightarrow> Inr (Append (of_nat (length (cx_prior_chain ctx))))
        | Some prev \<Rightarrow>
            and_then (map_err (\<lambda>_. CorruptStoredPayload Boot) (decode_boot X (cl_payload prev)))
              (\<lambda>prev_payload.
            if bp_image_digest prev_payload = bp_image_digest parsed then Inr Dedup
            else if \<not> cx_upgradable ctx then Inl NonUpgradableSecondBoot
            else and_then (map_err AntiRollbackChanged
                   (check_successor (bp_anti_rollback prev_payload) (bp_anti_rollback parsed))) (\<lambda>_.
              Inr (Append (of_nat (length (cx_prior_chain ctx)))))))))"

text \<open>The double-revoke scan of \<open>validate_signed\<close>.\<close>

fun check_not_revoked ::
    "'x ChainExt_scheme \<Rightarrow> Uuid \<Rightarrow> ChainLink list \<Rightarrow> ChainValidationError + unit" where
  "check_not_revoked X revokes [] = Inr ()"
| "check_not_revoked X revokes (existing # rest) =
     (if cl_kind existing \<noteq> Revocation then check_not_revoked X revokes rest
      else and_then (map_err (\<lambda>_. CorruptStoredPayload Revocation)
             (decode_revocation X (cl_payload existing))) (\<lambda>existing_payload.
        if rp_revokes existing_payload = revokes then Inl AlreadyRevoked
        else check_not_revoked X revokes rest))"

text \<open>The two kinds of \<open>validate_signed\<close> after the signature: \<open>Some Dedup\<close> is the early return,
  \<open>None\<close> falls through to the append.\<close>

definition check_upgrade ::
    "'x ChainExt_scheme \<Rightarrow> ChainLink \<Rightarrow> ChainContext \<Rightarrow> PinIdentity \<Rightarrow>
      ChainValidationError + Outcome option" where
  "check_upgrade X link ctx attested =
     and_then (map_err (\<lambda>_. PayloadDecode Upgrade) (decode_upgrade X (cl_payload link))) (\<lambda>parsed.
       if up_enclave_id parsed \<noteq> cx_enclave_id ctx then Inl EnclaveIdMismatch
       else if \<not> upgrade_window_is_valid (up_valid_from parsed) (up_valid_until parsed)
       then Inl UpgradeWindowInvalid
       else if up_from parsed \<noteq> attested then Inl UpgradeFromMismatch
       else if signed_payload_seen link (cx_prior_chain ctx) then Inr (Some Dedup)
       else Inr None)"

definition check_revocation ::
    "'x ChainExt_scheme \<Rightarrow> ChainLink \<Rightarrow> ChainContext \<Rightarrow> DateTime \<Rightarrow>
      ChainValidationError + Outcome option" where
  "check_revocation X link ctx now =
     and_then (map_err (\<lambda>_. PayloadDecode Revocation) (decode_revocation X (cl_payload link)))
       (\<lambda>revoke.
       if rp_enclave_id revoke \<noteq> cx_enclave_id ctx then Inl EnclaveIdMismatch
       else if signed_payload_seen link (cx_prior_chain ctx) then Inr (Some Dedup)
       else and_then (ok_or RevokeTargetMissing
              (find (\<lambda>l. cl_id l = Some (rp_revokes revoke)) (cx_prior_chain ctx))) (\<lambda>target.
       if cl_kind target \<noteq> Upgrade then Inl (RevokeTargetWrongKind (cl_kind target))
       else if rp_revokes_link revoke \<noteq> upgrade_link_hash X (cl_payload target)
       then Inl RevokeLinkHashMismatch
       else and_then (map_err (\<lambda>_. CorruptStoredPayload Upgrade)
              (decode_upgrade X (cl_payload target))) (\<lambda>target_upgrade.
       if up_valid_from target_upgrade \<le> now then Inl RevokePastActivation
       else and_then (check_not_revoked X (rp_revokes revoke) (cx_prior_chain ctx)) (\<lambda>_.
         Inr None))))"

fun signature_error :: "ControlSignatureError \<Rightarrow> ChainValidationError" where
  "signature_error SigShape = SignatureShape"
| "signature_error SigInvalid = SignatureInvalid"

definition validate_signed ::
    "'x ChainExt_scheme \<Rightarrow> ChainLink \<Rightarrow> ChainContext \<Rightarrow> PinIdentity \<Rightarrow> DateTime \<Rightarrow>
      ChainValidationError + Outcome" where
  "validate_signed X link ctx attested now =
     (if \<not> cx_upgradable ctx then Inl (NonUpgradableSigned (cl_kind link))
      else and_then (ok_or (SignatureMissing (cl_kind link)) (cl_signature link)) (\<lambda>sig_bytes.
      and_then (ok_or BadControlPubkey (cx_control_public_key ctx)) (\<lambda>pubkey.
      and_then (ensure (p256_from_sec1 X pubkey) BadControlPubkey) (\<lambda>_.
      and_then (ok_or PanicUnreachable (domain_for_link (cl_kind link))) (\<lambda>domain.
      and_then (map_err signature_error
                 (verify_control_signature X pubkey domain (cl_payload link) sig_bytes)) (\<lambda>_.
      and_then (case cl_kind link of
                  Upgrade \<Rightarrow> check_upgrade X link ctx attested
                | Revocation \<Rightarrow> check_revocation X link ctx now
                | Boot \<Rightarrow> Inl PanicUnreachable) (\<lambda>early.
      case early of
        Some outcome \<Rightarrow> Inr outcome
      | None \<Rightarrow>
          if cx_prior_chain ctx = [] then Inl NoGenesisYet
          else Inr (Append (of_nat (length (cx_prior_chain ctx)))))))))))"

definition chain_validate_chain_link ::
    "'x ChainExt_scheme \<Rightarrow> ChainLink \<Rightarrow> ChainContext \<Rightarrow> DateTime \<Rightarrow> bool \<Rightarrow>
      ChainValidationError + Outcome" where
  "chain_validate_chain_link X link ctx now debug_mode =
     (if cl_attestation link = [] then Inl EmptyAttestation
      else and_then (pcrs_hex_to_pcrs X (cx_enclave_pcrs ctx)) (\<lambda>recorded_pcrs.
      and_then (map_err AttestationFailed (link_attestation X link debug_mode)) (\<lambda>doc.
      and_then (map_err AttestationFailed (require_pcrs doc recorded_pcrs)) (\<lambda>_.
      case cl_kind link of
        Boot \<Rightarrow> validate_boot X link ctx
      | Upgrade \<Rightarrow> validate_signed X link ctx (va_identity doc) now
      | Revocation \<Rightarrow> validate_signed X link ctx (va_identity doc) now))))"

subsection \<open>The walker\<close>

definition CLOCK_SKEW_TOLERANCE :: DateTime where "CLOCK_SKEW_TOLERANCE = 60 * SECOND"

definition revoked_ids :: "'x ChainExt_scheme \<Rightarrow> ChainLink list \<Rightarrow> Uuid list" where
  "revoked_ids X prior =
     List.map_filter (\<lambda>l.
       if cl_kind l = Revocation
       then (case decode_revocation X (cl_payload l) of Inr p \<Rightarrow> Some (rp_revokes p) | Inl _ \<Rightarrow> None)
       else None) prior"

text \<open>The body of the search loop of \<open>promotion_target\<close>, for the link at index \<open>i\<close>.\<close>

definition explains_boot ::
    "'x ChainExt_scheme \<Rightarrow> ChainLink list \<Rightarrow> PcrsHex \<Rightarrow> string \<Rightarrow> nat \<Rightarrow> UpgradePayload option" where
  "explains_boot X prior boot_pcrs boot_image_digest i =
     (let l = prior ! i in
      if cl_kind l \<noteq> Upgrade then None
      else if (case cl_id l of Some uid \<Rightarrow> uid \<in> set (revoked_ids X prior) | None \<Rightarrow> False) then None
      else if signed_payload_seen l (take i prior) then None
      else case decode_upgrade X (cl_payload l) of
        Inl _ \<Rightarrow> None
      | Inr p \<Rightarrow>
          if image_pcrs_hex X (up_to p) = boot_pcrs \<and> up_image_digest p = boot_image_digest
          then Some p else None)"

fun first_some :: "('a \<Rightarrow> 'b option) \<Rightarrow> 'a list \<Rightarrow> 'b option" where
  "first_some f [] = None"
| "first_some f (x # xs) = (case f x of Some y \<Rightarrow> Some y | None \<Rightarrow> first_some f xs)"

definition promotion_target ::
    "'x ChainExt_scheme \<Rightarrow> ChainLink list \<Rightarrow> PcrsHex \<Rightarrow> string \<Rightarrow> UpgradePayload option" where
  "promotion_target X prior boot_pcrs boot_image_digest =
     first_some (explains_boot X prior boot_pcrs boot_image_digest) (rev [0..<length prior])"

text \<open>The arguments of a walk that do not change, and its loop state.\<close>

record WalkArgs =
  wa_enclave_id :: Uuid
  wa_row_pcrs :: PcrsHex
  wa_row_image_digest :: string
  wa_control_public_key :: "bytes option"
  wa_upgradable :: bool
  wa_now :: DateTime
  wa_debug_mode :: bool

record WalkState =
  ws_outcomes :: "(ChainValidationError + Outcome) list"
  ws_prior :: "ChainLink list"
  ws_in_force :: "(PcrsHex \<times> string) option"
  ws_in_force_identity :: "PinIdentity option"

definition walk_start :: WalkState where
  "walk_start = \<lparr> ws_outcomes = [], ws_prior = [], ws_in_force = None, ws_in_force_identity = None \<rparr>"

text \<open>The row state a link saw at ingest: the context to validate it in and whether it promotes,
  or the error that ends its validation early.\<close>

definition walk_context ::
    "'x ChainExt_scheme \<Rightarrow> WalkArgs \<Rightarrow> WalkState \<Rightarrow> ChainLink \<Rightarrow>
      ChainValidationError + PcrsHex \<times> string \<times> bool" where
  "walk_context X a ws link =
     (let row = (wa_row_pcrs a, wa_row_image_digest a, False) in
      if cl_kind link = Boot \<and> ws_prior ws = [] then
        (case decode_boot X (cl_payload link) of
           Inr p \<Rightarrow> Inr (bp_pcrs p, bp_image_digest p, True)
         | Inl _ \<Rightarrow> Inr row)
      else if cl_kind link = Boot then
        (case (decode_boot X (cl_payload link), ws_in_force ws) of
           (Inr p, Some (pcrs, digest)) \<Rightarrow>
             if bp_pcrs p = pcrs then Inr (pcrs, digest, False)
             else (case promotion_target X (ws_prior ws) (bp_pcrs p) (bp_image_digest p) of
               Some target \<Rightarrow>
                 if bp_booted_at p < up_valid_from target - CLOCK_SKEW_TOLERANCE
                 then Inl UpgradeNotYetActive
                 else if bp_booted_at p > up_valid_until target + CLOCK_SKEW_TOLERANCE
                 then Inl UpgradeExpired
                 else if (case link_attestation X link (wa_debug_mode a) of
                            Inr doc \<Rightarrow> va_identity doc \<noteq> up_to target | Inl _ \<Rightarrow> False)
                 then Inl PromotionIdentityMismatch
                 else Inr (image_pcrs_hex X (up_to target), up_image_digest target, True)
             | None \<Rightarrow> Inr (pcrs, digest, False))
         | (_, Some (pcrs, digest)) \<Rightarrow> Inr (pcrs, digest, False)
         | (_, None) \<Rightarrow> Inr row)
      else (case ws_in_force ws of
        Some (pcrs, digest) \<Rightarrow> Inr (pcrs, digest, False)
      | None \<Rightarrow> Inr row))"

fun is_append :: "ChainValidationError + Outcome \<Rightarrow> bool" where
  "is_append (Inr (Append _)) \<longleftrightarrow> True"
| "is_append _ \<longleftrightarrow> False"

definition walk_push ::
    "ChainValidationError + Outcome \<Rightarrow> ChainLink \<Rightarrow> WalkState \<Rightarrow> WalkState" where
  "walk_push outcome link ws =
     ws\<lparr> ws_outcomes := ws_outcomes ws @ [outcome], ws_prior := ws_prior ws @ [link] \<rparr>"

definition walk_step ::
    "'x ChainExt_scheme \<Rightarrow> WalkArgs \<Rightarrow> RecordedLink \<Rightarrow> WalkState \<Rightarrow> WalkState" where
  "walk_step X a recorded ws =
     (let link = rl_link recorded;
          reference = (case rl_recorded_at recorded of Some t \<Rightarrow> t | None \<Rightarrow> wa_now a) in
      if cl_kind link \<in> {Upgrade, Revocation} \<and> signed_payload_seen link (ws_prior ws)
      then walk_push (Inl (DuplicatePayload (cl_kind link))) link ws
      else case walk_context X a ws link of
        Inl e \<Rightarrow> walk_push (Inl e) link ws
      | Inr (ctx_pcrs, ctx_digest, promotes) \<Rightarrow>
          let ctx = \<lparr> cx_enclave_id = wa_enclave_id a, cx_enclave_pcrs = ctx_pcrs,
                      cx_enclave_image_digest = ctx_digest,
                      cx_control_public_key = wa_control_public_key a,
                      cx_upgradable = wa_upgradable a, cx_prior_chain = ws_prior ws \<rparr>;
              outcome = chain_validate_chain_link X link ctx reference (wa_debug_mode a);
              ws' = (if promotes \<and> is_append outcome
                     then ws\<lparr> ws_in_force := Some (ctx_pcrs, ctx_digest),
                              ws_in_force_identity :=
                                (case link_attestation X link (wa_debug_mode a) of
                                   Inr doc \<Rightarrow> Some (va_identity doc) | Inl _ \<Rightarrow> None) \<rparr>
                     else ws)
          in walk_push outcome link ws')"

abbreviation walk :: "'x ChainExt_scheme \<Rightarrow> WalkArgs \<Rightarrow> RecordedLink list \<Rightarrow> WalkState" where
  "walk X a links \<equiv> fold (walk_step X a) links walk_start"

record ChainWalk =
  cw_outcomes :: "(ChainValidationError + Outcome) list"
  cw_final_pcrs :: "PcrsHex option"
  cw_final_image_digest :: "string option"
  cw_final_identity :: "PinIdentity option"
  cw_tip_matches_row :: bool

definition validate_chain :: "'x ChainExt_scheme \<Rightarrow> RecordedLink list \<Rightarrow> WalkArgs \<Rightarrow> ChainWalk" where
  "validate_chain X links a =
     (let ws = walk X a links in
      \<lparr> cw_outcomes = ws_outcomes ws,
        cw_final_pcrs = map_option fst (ws_in_force ws),
        cw_final_image_digest = map_option snd (ws_in_force ws),
        cw_final_identity = ws_in_force_identity ws,
        cw_tip_matches_row =
          (case ws_in_force ws of
             Some (p, d) \<Rightarrow> p = wa_row_pcrs a \<and> d = wa_row_image_digest a | None \<Rightarrow> False) \<rparr>)"

datatype PcrDescentError =
    NoGenesis
  | LinkInvalid nat ChainValidationError
  | PinnedNotInLineage
  | BootPayloadUnreadable nat

text \<open>Gate 1 of the descent check (every link validates) and gate 2's scan of the boot links.\<close>

fun all_links_valid :: "nat \<Rightarrow> (ChainValidationError + Outcome) list \<Rightarrow> PcrDescentError + unit" where
  "all_links_valid position [] = Inr ()"
| "all_links_valid position (outcome # rest) =
     and_then (map_err (LinkInvalid position) outcome) (\<lambda>_. all_links_valid (Suc position) rest)"

fun pinned_in_lineage ::
    "'x ChainExt_scheme \<Rightarrow> Pcrs \<Rightarrow> nat \<Rightarrow> RecordedLink list \<Rightarrow> bool \<Rightarrow> PcrDescentError + bool" where
  "pinned_in_lineage X pinned position [] found = Inr found"
| "pinned_in_lineage X pinned position (recorded # rest) found =
     (if cl_kind (rl_link recorded) \<noteq> Boot
      then pinned_in_lineage X pinned (Suc position) rest found
      else and_then (map_err (\<lambda>_. BootPayloadUnreadable position)
             (decode_boot X (cl_payload (rl_link recorded)))) (\<lambda>payload.
      and_then (map_err (\<lambda>_. BootPayloadUnreadable position)
             (pcrs_hex_to_pcrs X (bp_pcrs payload))) (\<lambda>state.
        pinned_in_lineage X pinned (Suc position) rest (if state = pinned then True else found))))"

definition verify_pcr_descent ::
    "'x ChainExt_scheme \<Rightarrow> Pcrs \<Rightarrow> RecordedLink list \<Rightarrow> WalkArgs \<Rightarrow> PcrDescentError + Pcrs" where
  "verify_pcr_descent X pinned links a =
     (let w = validate_chain X links a in
      and_then (all_links_valid 0 (cw_outcomes w)) (\<lambda>_.
      and_then (ok_or NoGenesis (cw_final_pcrs w)) (\<lambda>final.
      and_then (map_err (\<lambda>_. BootPayloadUnreadable 0) (pcrs_hex_to_pcrs X final)) (\<lambda>tip.
      and_then (pinned_in_lineage X pinned 0 links False) (\<lambda>found.
        if \<not> found then Inl PinnedNotInLineage else Inr tip)))))"

end
