(* ===== verification/Chain_Descent.thy ===== *)
theory Chain_Descent
  imports Chain
begin

text \<open>
  What an accepted chain guarantees. The walker of \<open>Chain\<close> is unfolded link by link: the outcome
  recorded for a link is a function of the walk up to it, so a chain whose every link validates
  can be read back as a history in which each change of the in-force version was authorized.
\<close>

subsection \<open>One link of the walk\<close>

text \<open>The outcome the walker records for a link, and the in-force state after it.\<close>

definition walk_ctx ::
    "WalkArgs \<Rightarrow> WalkState \<Rightarrow> PcrsHex \<Rightarrow> string \<Rightarrow> ChainContext" where
  "walk_ctx a ws pcrs digest =
     \<lparr> cx_enclave_id = wa_enclave_id a, cx_enclave_pcrs = pcrs, cx_enclave_image_digest = digest,
       cx_control_public_key = wa_control_public_key a, cx_upgradable = wa_upgradable a,
       cx_prior_chain = ws_prior ws \<rparr>"

definition walk_reference :: "WalkArgs \<Rightarrow> RecordedLink \<Rightarrow> DateTime" where
  "walk_reference a r = (case rl_recorded_at r of Some t \<Rightarrow> t | None \<Rightarrow> wa_now a)"

definition walk_duplicate :: "RecordedLink \<Rightarrow> WalkState \<Rightarrow> bool" where
  "walk_duplicate r ws \<longleftrightarrow>
     cl_kind (rl_link r) \<in> {Upgrade, Revocation} \<and> signed_payload_seen (rl_link r) (ws_prior ws)"

definition walk_outcome ::
    "'x ChainExt_scheme \<Rightarrow> WalkArgs \<Rightarrow> RecordedLink \<Rightarrow> WalkState \<Rightarrow> ChainValidationError + Outcome" where
  "walk_outcome X a r ws =
     (if walk_duplicate r ws then Inl (DuplicatePayload (cl_kind (rl_link r)))
      else and_then (walk_context X a ws (rl_link r)) (\<lambda>(pcrs, digest, promotes).
        chain_validate_chain_link X (rl_link r) (walk_ctx a ws pcrs digest) (walk_reference a r)
          (wa_debug_mode a)))"

lemma walk_step_cases:
  obtains (dup) "walk_duplicate r ws" "walk_step X a r ws = walk_push (walk_outcome X a r ws) (rl_link r) ws"
  | (early) e where "\<not> walk_duplicate r ws" "walk_context X a ws (rl_link r) = Inl e"
      "walk_step X a r ws = walk_push (walk_outcome X a r ws) (rl_link r) ws"
  | (checked) pcrs digest promotes ident where "\<not> walk_duplicate r ws"
      "walk_context X a ws (rl_link r) = Inr (pcrs, digest, promotes)"
      "walk_step X a r ws = walk_push (walk_outcome X a r ws) (rl_link r)
         (if promotes \<and> is_append (walk_outcome X a r ws)
          then ws\<lparr>ws_in_force := Some (pcrs, digest), ws_in_force_identity := ident\<rparr> else ws)"
proof (cases "walk_duplicate r ws")
  case True
  then show ?thesis
    by (intro dup) (simp_all add: walk_step_def walk_outcome_def walk_duplicate_def Let_def)
next
  case nodup: False
  show ?thesis
  proof (cases "walk_context X a ws (rl_link r)")
    case (Inl e)
    with nodup show ?thesis
      by (intro early [of e]) (auto simp: walk_step_def walk_outcome_def walk_duplicate_def Let_def)
  next
    case (Inr t)
    obtain pcrs digest promotes where t: "t = (pcrs, digest, promotes)" by (cases t)
    from nodup Inr show ?thesis
      unfolding t
      by (intro checked [of pcrs digest promotes])
        (auto simp: walk_step_def walk_outcome_def walk_duplicate_def walk_ctx_def
          walk_reference_def Let_def)
  qed
qed

lemma walk_step_outcomes [simp]:
  "ws_outcomes (walk_step X a r ws) = ws_outcomes ws @ [walk_outcome X a r ws]"
  by (rule walk_step_cases [of r ws X a]) (simp_all add: walk_push_def)

lemma walk_step_prior [simp]: "ws_prior (walk_step X a r ws) = ws_prior ws @ [rl_link r]"
  by (rule walk_step_cases [of r ws X a]) (simp_all add: walk_push_def)

lemma walk_prior [simp]: "ws_prior (fold (walk_step X a) links ws) = ws_prior ws @ map rl_link links"
  by (induction links arbitrary: ws) auto

lemma walk_start_prior [simp]: "ws_prior walk_start = []" "ws_outcomes walk_start = []"
    "ws_in_force walk_start = None"
  by (simp_all add: walk_start_def)

lemma walk_take_Suc:
  "n < length links \<Longrightarrow> walk X a (take (Suc n) links) = walk_step X a (links ! n) (walk X a (take n links))"
  by (simp add: take_Suc_conv_app_nth)

lemma walk_outcomes_map:
  "ws_outcomes (walk X a links) =
     map (\<lambda>n. walk_outcome X a (links ! n) (walk X a (take n links))) [0..<length links]"
proof (induction links rule: rev_induct)
  case (snoc r links)
  then show ?case by (simp add: nth_append)
qed simp

lemma walk_outcome_ok:
  assumes "walk_outcome X a r ws = Inr out"
  obtains pcrs digest promotes where
    "\<not> walk_duplicate r ws"
    "walk_context X a ws (rl_link r) = Inr (pcrs, digest, promotes)"
    "chain_validate_chain_link X (rl_link r) (walk_ctx a ws pcrs digest) (walk_reference a r)
       (wa_debug_mode a) = Inr out"
    "ws_in_force (walk_step X a r ws) =
       (if promotes \<and> is_append (Inr out) then Some (pcrs, digest) else ws_in_force ws)"
proof (rule walk_step_cases [of r ws X a])
  fix pcrs digest promotes ident
  assume "\<not> walk_duplicate r ws" "walk_context X a ws (rl_link r) = Inr (pcrs, digest, promotes)"
    "walk_step X a r ws = walk_push (walk_outcome X a r ws) (rl_link r)
       (if promotes \<and> is_append (walk_outcome X a r ws)
        then ws\<lparr>ws_in_force := Some (pcrs, digest), ws_in_force_identity := ident\<rparr> else ws)"
  with assms show thesis
    by (intro that [of pcrs digest promotes]) (simp_all add: walk_outcome_def walk_push_def)
qed (use assms in \<open>simp_all add: walk_outcome_def\<close>)

subsection \<open>What a valid link went through\<close>

lemma chain_link_ok_attested:
  assumes "chain_validate_chain_link X link ctx now dbg = Inr out"
  obtains doc pcrs where "link_attestation X link dbg = Inr doc"
    "pcrs_hex_to_pcrs X (cx_enclave_pcrs ctx) = Inr pcrs" "va_pcrs doc = pcrs"
  using assms
  by (auto simp: chain_validate_chain_link_def result_simps split: if_splits)

lemma chain_link_ok_boot:
  assumes "chain_validate_chain_link X link ctx now dbg = Inr out" and "cl_kind link = Boot"
  shows "validate_boot X link ctx = Inr out"
  using assms by (auto simp: chain_validate_chain_link_def result_simps split: if_splits)

lemma chain_link_ok_signed:
  assumes "chain_validate_chain_link X link ctx now dbg = Inr out" and "cl_kind link \<noteq> Boot"
  obtains doc where "link_attestation X link dbg = Inr doc"
    "validate_signed X link ctx (va_identity doc) now = Inr out"
  using assms
  by (cases "cl_kind link") (auto simp: chain_validate_chain_link_def result_simps split: if_splits)

lemma validate_signed_ok:
  assumes "validate_signed X link ctx attested now = Inr out"
  obtains sig key domain where "cx_upgradable ctx" "cl_signature link = Some sig"
    "cx_control_public_key ctx = Some key" "domain_for_link (cl_kind link) = Some domain"
    "p256_verify X key (signed_message domain (cl_payload link)) sig"
  using assms by (auto simp: validate_signed_def result_simps split: if_splits)

lemma validate_signed_upgrade_ok:
  assumes "validate_signed X link ctx attested now = Inr out" and "cl_kind link = Upgrade"
  obtains u where "decode_upgrade X (cl_payload link) = Inr u" "up_enclave_id u = cx_enclave_id ctx"
    "upgrade_window_is_valid (up_valid_from u) (up_valid_until u)" "up_from u = attested"
  using assms
  by (auto simp: validate_signed_def check_upgrade_def result_simps split: if_splits)

lemma validate_signed_not_genesis:
  assumes "validate_signed X link ctx attested now = Inr out"
  shows "cx_prior_chain ctx \<noteq> []"
proof
  assume empty: "cx_prior_chain ctx = []"
  then have seen: "\<not> signed_payload_seen link (cx_prior_chain ctx)"
    by (simp add: signed_payload_seen_def)
  have "check_upgrade X link ctx attested \<noteq> Inr (Some out')"
      "check_revocation X link ctx now \<noteq> Inr (Some out')" for out'
    using seen by (auto simp: check_upgrade_def check_revocation_def result_simps split: if_splits)
  then show False
    using assms empty
    by (cases "cl_kind link")
      (auto simp: validate_signed_def result_simps split: if_splits option.splits)
qed

lemma validate_boot_ok:
  assumes "validate_boot X link ctx = Inr out"
  obtains b where "cl_signature link = None" "decode_boot X (cl_payload link) = Inr b"
    "bp_enclave_id b = cx_enclave_id ctx" "bp_pcrs b = cx_enclave_pcrs ctx"
    "bp_image_digest b = cx_enclave_image_digest ctx"
  using assms by (auto simp: validate_boot_def result_simps split: if_splits)


subsection \<open>Owner-authorized promotions\<close>

text \<open>\<open>explained_by X a prior b u i\<close>: the link at position \<open>i\<close> of the prior chain is an upgrade link
  with payload \<open>u\<close>, signed by the enclave's control key in the upgrade domain, for this enclave,
  with a window of at least the minimum, revoked by no revocation of the prior chain, and it names
  the PCRs and image digest of boot \<open>b\<close>, whose boot time lies in the window up to the clock
  tolerance.\<close>

definition explained_by ::
    "'x ChainExt_scheme \<Rightarrow> WalkArgs \<Rightarrow> ChainLink list \<Rightarrow> BootPayload \<Rightarrow> UpgradePayload \<Rightarrow> nat \<Rightarrow> bool" where
  "explained_by X a prior b u i \<longleftrightarrow>
     i < length prior \<and> cl_kind (prior ! i) = Upgrade \<and>
     decode_upgrade X (cl_payload (prior ! i)) = Inr u \<and>
     wa_upgradable a \<and>
     (\<exists>sig key. cl_signature (prior ! i) = Some sig \<and> wa_control_public_key a = Some key \<and>
       p256_verify X key (signed_message UpgradePayloadDomain (cl_payload (prior ! i))) sig) \<and>
     up_enclave_id u = wa_enclave_id a \<and>
     up_valid_until u - up_valid_from u \<ge> UPGRADE_WINDOW_MIN \<and>
     (\<forall>r \<in> set prior. cl_kind r = Revocation \<longrightarrow>
       (\<forall>p. decode_revocation X (cl_payload r) = Inr p \<longrightarrow> cl_id (prior ! i) \<noteq> Some (rp_revokes p))) \<and>
     image_pcrs_hex X (up_to u) = bp_pcrs b \<and> up_image_digest u = bp_image_digest b \<and>
     up_valid_from u - CLOCK_SKEW_TOLERANCE \<le> bp_booted_at b \<and>
     bp_booted_at b \<le> up_valid_until u + CLOCK_SKEW_TOLERANCE"

lemma first_some_SomeD: "first_some f xs = Some y \<Longrightarrow> \<exists>x \<in> set xs. f x = Some y"
  by (induction xs) (auto split: option.splits)

lemma revoked_ids_mem:
  "r \<in> set prior \<Longrightarrow> cl_kind r = Revocation \<Longrightarrow> decode_revocation X (cl_payload r) = Inr p \<Longrightarrow>
    rp_revokes p \<in> set (revoked_ids X prior)"
  unfolding revoked_ids_def map_filter_def by (force simp: image_iff)

lemma explains_boot_SomeD:
  assumes "explains_boot X prior pcrs digest i = Some u"
  shows "cl_kind (prior ! i) = Upgrade" "decode_upgrade X (cl_payload (prior ! i)) = Inr u"
    "image_pcrs_hex X (up_to u) = pcrs" "up_image_digest u = digest"
    "cl_id (prior ! i) = Some uid \<Longrightarrow> uid \<notin> set (revoked_ids X prior)"
  using assms
  by (cases "decode_upgrade X (cl_payload (prior ! i))";
      simp add: explains_boot_def Let_def split: if_splits)+

lemma promotion_target_SomeD:
  assumes "promotion_target X prior pcrs digest = Some u"
  obtains i where "i < length prior" "cl_kind (prior ! i) = Upgrade"
    "decode_upgrade X (cl_payload (prior ! i)) = Inr u"
    "image_pcrs_hex X (up_to u) = pcrs" "up_image_digest u = digest"
    "\<forall>r \<in> set prior. cl_kind r = Revocation \<longrightarrow>
       (\<forall>p. decode_revocation X (cl_payload r) = Inr p \<longrightarrow> cl_id (prior ! i) \<noteq> Some (rp_revokes p))"
proof -
  obtain i where i: "i < length prior" "explains_boot X prior pcrs digest i = Some u"
    using first_some_SomeD [OF assms [unfolded promotion_target_def]] by auto
  note e = explains_boot_SomeD [OF i(2)]
  show ?thesis
    by (rule that [OF i(1) e(1-4)]) (use e(5) revoked_ids_mem in blast)
qed

lemma walk_context_signed:
  "cl_kind link \<noteq> Boot \<Longrightarrow> walk_context X a ws link = Inr (pcrs, digest, promotes) \<Longrightarrow> \<not> promotes"
  by (cases "ws_in_force ws") (auto simp: walk_context_def)

lemma walk_context_promotes:
  assumes ctx: "walk_context X a ws link = Inr (pcrs, digest, True)" and later: "ws_prior ws \<noteq> []"
    and doc: "link_attestation X link (wa_debug_mode a) = Inr doc"
  obtains b u where "cl_kind link = Boot" "decode_boot X (cl_payload link) = Inr b"
    "promotion_target X (ws_prior ws) (bp_pcrs b) (bp_image_digest b) = Some u"
    "va_identity doc = up_to u" "pcrs = image_pcrs_hex X (up_to u)" "digest = up_image_digest u"
    "up_valid_from u - CLOCK_SKEW_TOLERANCE \<le> bp_booted_at b"
    "bp_booted_at b \<le> up_valid_until u + CLOCK_SKEW_TOLERANCE"
proof -
  have kind: "cl_kind link = Boot" using walk_context_signed ctx by blast
  obtain p d where inf: "ws_in_force ws = Some (p, d)"
    using ctx later kind
    by (cases "ws_in_force ws"; cases "decode_boot X (cl_payload link)") (auto simp: walk_context_def)
  obtain b where b: "decode_boot X (cl_payload link) = Inr b"
    using ctx later kind inf
    by (cases "decode_boot X (cl_payload link)") (auto simp: walk_context_def)
  have ne: "bp_pcrs b \<noteq> p" using ctx later kind inf b by (auto simp: walk_context_def)
  obtain u where u: "promotion_target X (ws_prior ws) (bp_pcrs b) (bp_image_digest b) = Some u"
    using ctx later kind inf b ne
    by (cases "promotion_target X (ws_prior ws) (bp_pcrs b) (bp_image_digest b)")
      (auto simp: walk_context_def)
  show ?thesis
    using ctx later kind inf b ne u doc
    by (intro that [of b u]) (auto simp: walk_context_def split: if_splits)
qed

subsection \<open>Chains whose every link validates\<close>

definition all_ok :: "'x ChainExt_scheme \<Rightarrow> WalkArgs \<Rightarrow> RecordedLink list \<Rightarrow> bool" where
  "all_ok X a links \<longleftrightarrow>
     (\<forall>n < length links. is_ok (walk_outcome X a (links ! n) (walk X a (take n links))))"

lemma all_links_valid_Inr_iff: "all_links_valid k outs = Inr u \<longleftrightarrow> (\<forall>out \<in> set outs. is_ok out)"
  by (induction outs arbitrary: k) (auto simp: result_simps)

lemma pinned_in_lineage_True:
  "pinned_in_lineage X pinned k links False = Inr True \<Longrightarrow>
    \<exists>n < length links. \<exists>b. cl_kind (rl_link (links ! n)) = Boot \<and>
      decode_boot X (cl_payload (rl_link (links ! n))) = Inr b \<and>
      pcrs_hex_to_pcrs X (bp_pcrs b) = Inr pinned"
proof (induction links arbitrary: k)
  case (Cons r rest)
  show ?case
  proof (cases "cl_kind (rl_link r) = Boot \<and> (\<exists>b. decode_boot X (cl_payload (rl_link r)) = Inr b \<and>
      pcrs_hex_to_pcrs X (bp_pcrs b) = Inr pinned)")
    case True
    then show ?thesis by (intro exI [of _ 0]) auto
  next
    case False
    then have "pinned_in_lineage X pinned (Suc k) rest False = Inr True"
      using Cons.prems by (auto simp: and_then_Inr_iff map_err_Inr_iff split: if_splits)
    from Cons.IH [OF this] show ?thesis by (metis Suc_less_eq length_Cons nth_Cons_Suc)
  qed
qed simp

lemma verify_pcr_descent_Inr:
  assumes "verify_pcr_descent X pinned links a = Inr tip"
  obtains p d where "all_ok X a links" "ws_in_force (walk X a links) = Some (p, d)"
    "pcrs_hex_to_pcrs X p = Inr tip" "pinned_in_lineage X pinned 0 links False = Inr True"
  using assms
  by (auto simp: verify_pcr_descent_def validate_chain_def Let_def result_simps all_ok_def
      all_links_valid_Inr_iff walk_outcomes_map split: if_splits)

lemma all_ok_nth:
  assumes "all_ok X a links" and "n < length links"
  obtains out where "walk_outcome X a (links ! n) (walk X a (take n links)) = Inr out"
  using assms unfolding all_ok_def by (auto simp: is_ok_iff)

lemma all_ok_signed:
  assumes "all_ok X a links" and "n < length links" and "cl_kind (rl_link (links ! n)) \<noteq> Boot"
  shows "wa_upgradable a \<and> 0 < n"
proof -
  let ?ws = "walk X a (take n links)" and ?l = "rl_link (links ! n)"
  obtain out where "walk_outcome X a (links ! n) ?ws = Inr out"
    using all_ok_nth [OF assms(1,2)] .
  then obtain pcrs digest promotes where ok: "\<not> walk_duplicate (links ! n) ?ws"
      "chain_validate_chain_link X ?l (walk_ctx a ?ws pcrs digest) (walk_reference a (links ! n))
         (wa_debug_mode a) = Inr out"
    by (rule walk_outcome_ok)
  obtain ident where doc: "validate_signed X ?l (walk_ctx a ?ws pcrs digest) ident
      (walk_reference a (links ! n)) = Inr out"
    by (rule chain_link_ok_signed [OF ok(2) assms(3)]) (rule that)
  have "cx_upgradable (walk_ctx a ?ws pcrs digest)"
    by (rule validate_signed_ok [OF doc])
  moreover have "cx_prior_chain (walk_ctx a ?ws pcrs digest) \<noteq> []"
    by (rule validate_signed_not_genesis [OF doc])
  ultimately show ?thesis using assms(2) by (auto simp: walk_ctx_def)
qed

lemma all_ok_upgrade:
  assumes "all_ok X a links" and "n < length links" and "cl_kind (rl_link (links ! n)) = Upgrade"
    and "decode_upgrade X (cl_payload (rl_link (links ! n))) = Inr u"
  shows "up_enclave_id u = wa_enclave_id a \<and>
    up_valid_until u - up_valid_from u \<ge> UPGRADE_WINDOW_MIN \<and>
    (\<exists>sig key. cl_signature (rl_link (links ! n)) = Some sig \<and> wa_control_public_key a = Some key \<and>
      p256_verify X key (signed_message UpgradePayloadDomain (cl_payload (rl_link (links ! n)))) sig)"
proof -
  let ?ws = "walk X a (take n links)" and ?l = "rl_link (links ! n)"
  obtain out where "walk_outcome X a (links ! n) ?ws = Inr out"
    using all_ok_nth [OF assms(1,2)] .
  then obtain pcrs digest promotes where ok:
      "chain_validate_chain_link X ?l (walk_ctx a ?ws pcrs digest) (walk_reference a (links ! n))
         (wa_debug_mode a) = Inr out"
    by (rule walk_outcome_ok)
  obtain ident where doc: "validate_signed X ?l (walk_ctx a ?ws pcrs digest) ident
      (walk_reference a (links ! n)) = Inr out"
    by (rule chain_link_ok_signed [OF ok]) (use assms(3) that in auto)
  obtain sig key domain where "cl_signature ?l = Some sig" "wa_control_public_key a = Some key"
      "domain_for_link (cl_kind ?l) = Some domain"
      "p256_verify X key (signed_message domain (cl_payload ?l)) sig"
    by (rule validate_signed_ok [OF doc]) (simp add: walk_ctx_def)
  moreover obtain u' where "decode_upgrade X (cl_payload ?l) = Inr u'" "up_enclave_id u' = wa_enclave_id a"
      "upgrade_window_is_valid (up_valid_from u') (up_valid_until u')"
    by (rule validate_signed_upgrade_ok [OF doc assms(3)]) (simp add: walk_ctx_def)
  ultimately show ?thesis
    using assms(3,4) by (simp add: upgrade_window_is_valid_def)
qed

lemma all_ok_promotion:
  assumes ok: "all_ok X a links" and n: "n < length links"
    and changed: "ws_in_force (walk X a (take (Suc n) links)) \<noteq> ws_in_force (walk X a (take n links))"
  shows "cl_kind (rl_link (links ! n)) = Boot \<and> (n = 0 \<or>
    (\<exists>b u i doc. decode_boot X (cl_payload (rl_link (links ! n))) = Inr b \<and>
      ws_in_force (walk X a (take (Suc n) links)) = Some (bp_pcrs b, bp_image_digest b) \<and>
      explained_by X a (map rl_link (take n links)) b u i \<and>
      link_attestation X (rl_link (links ! n)) (wa_debug_mode a) = Inr doc \<and>
      va_identity doc = up_to u))"
proof -
  let ?ws = "walk X a (take n links)" and ?l = "rl_link (links ! n)"
  let ?prior = "map rl_link (take n links)"
  obtain out where "walk_outcome X a (links ! n) ?ws = Inr out"
    using all_ok_nth [OF ok n] .
  then obtain pcrs digest promotes where w: "walk_context X a ?ws ?l = Inr (pcrs, digest, promotes)"
      "chain_validate_chain_link X ?l (walk_ctx a ?ws pcrs digest) (walk_reference a (links ! n))
         (wa_debug_mode a) = Inr out"
      "ws_in_force (walk_step X a (links ! n) ?ws) =
        (if promotes \<and> is_append (Inr out) then Some (pcrs, digest) else ws_in_force ?ws)"
    by (rule walk_outcome_ok)
  from changed w(3) have p: "promotes" and inf: "ws_in_force (walk X a (take (Suc n) links)) = Some (pcrs, digest)"
    by (auto simp: walk_take_Suc [OF n] split: if_splits)
  have boot: "cl_kind ?l = Boot" using walk_context_signed w(1) p by blast
  obtain doc where doc: "link_attestation X ?l (wa_debug_mode a) = Inr doc"
    by (rule chain_link_ok_attested [OF w(2)])
  show ?thesis
  proof (cases "n = 0")
    case False
    then have later: "ws_prior ?ws \<noteq> []" using n by auto
    obtain b u where bu: "decode_boot X (cl_payload ?l) = Inr b"
        "promotion_target X ?prior (bp_pcrs b) (bp_image_digest b) = Some u"
        "va_identity doc = up_to u" "pcrs = image_pcrs_hex X (up_to u)" "digest = up_image_digest u"
        "up_valid_from u - CLOCK_SKEW_TOLERANCE \<le> bp_booted_at b"
        "bp_booted_at b \<le> up_valid_until u + CLOCK_SKEW_TOLERANCE"
      by (rule walk_context_promotes [OF w(1) [unfolded p [THEN eqTrueI]] later doc]) simp
    obtain i where i: "i < length ?prior" "cl_kind (?prior ! i) = Upgrade"
        "decode_upgrade X (cl_payload (?prior ! i)) = Inr u"
        "image_pcrs_hex X (up_to u) = bp_pcrs b" "up_image_digest u = bp_image_digest b"
        "\<forall>r \<in> set ?prior. cl_kind r = Revocation \<longrightarrow>
          (\<forall>p. decode_revocation X (cl_payload r) = Inr p \<longrightarrow> cl_id (?prior ! i) \<noteq> Some (rp_revokes p))"
      by (rule promotion_target_SomeD [OF bu(2)])
    have pi: "?prior ! i = rl_link (links ! i)" and il: "i < length links" using i(1) by auto
    have "wa_upgradable a"
      using all_ok_signed [OF ok il] i(2) pi by simp
    with all_ok_upgrade [OF ok il] i pi bu have "explained_by X a ?prior b u i"
      unfolding explained_by_def by simp
    with boot inf bu i doc show ?thesis by auto
  qed (use boot in simp)
qed

subsection \<open>Properties\<close>

text \<open>C29. A trusted descent is owner-authorized. If the descent check accepts a chain for a pinned
  version and returns a tip, then every link validated; some boot link on the chain ran exactly the
  pinned PCRs; the tip is the version in force at the end; and every link that changed the version
  in force, apart from the genesis boot, is a boot whose attested identity is the target of an
  earlier upgrade link that the enclave's control key signed for this enclave, that no earlier
  revocation names, and whose activation window contains the boot.\<close>

theorem descent_is_owner_authorized:
  assumes "verify_pcr_descent X pinned links a = Inr tip"
  shows "(\<exists>n < length links. \<exists>b. cl_kind (rl_link (links ! n)) = Boot \<and>
      decode_boot X (cl_payload (rl_link (links ! n))) = Inr b \<and>
      pcrs_hex_to_pcrs X (bp_pcrs b) = Inr pinned) \<and>
    (\<exists>p d. ws_in_force (walk X a links) = Some (p, d) \<and> pcrs_hex_to_pcrs X p = Inr tip) \<and>
    (\<forall>n < length links.
      ws_in_force (walk X a (take (Suc n) links)) \<noteq> ws_in_force (walk X a (take n links)) \<longrightarrow>
      cl_kind (rl_link (links ! n)) = Boot \<and> (n = 0 \<or>
      (\<exists>b u i doc. decode_boot X (cl_payload (rl_link (links ! n))) = Inr b \<and>
        ws_in_force (walk X a (take (Suc n) links)) = Some (bp_pcrs b, bp_image_digest b) \<and>
        explained_by X a (map rl_link (take n links)) b u i \<and>
        link_attestation X (rl_link (links ! n)) (wa_debug_mode a) = Inr doc \<and>
        va_identity doc = up_to u)))"
proof -
  obtain p d where "all_ok X a links" "ws_in_force (walk X a links) = Some (p, d)"
      "pcrs_hex_to_pcrs X p = Inr tip" "pinned_in_lineage X pinned 0 links False = Inr True"
    by (rule verify_pcr_descent_Inr [OF assms])
  then show ?thesis
    using pinned_in_lineage_True all_ok_promotion by blast
qed

lemma nonupgradable_in_force_const:
  assumes ok: "all_ok X a links" and fixed: "\<not> wa_upgradable a" and "0 < n" and "n \<le> length links"
  shows "ws_in_force (walk X a (take n links)) = ws_in_force (walk X a (take 1 links))"
  using assms(3,4)
proof (induction n)
  case (Suc n)
  show ?case
  proof (cases "n = 0")
    case False
    have "ws_in_force (walk X a (take (Suc n) links)) = ws_in_force (walk X a (take n links))"
    proof (rule ccontr)
      assume "\<not> ?thesis"
      then obtain b u i where "explained_by X a (map rl_link (take n links)) b u i"
        using all_ok_promotion [OF ok, of n] Suc.prems False by auto
      with fixed show False by (simp add: explained_by_def)
    qed
    with Suc False show ?thesis by simp
  qed simp
qed simp

text \<open>An accepted boot link runs in the context the walker chose for it.\<close>

lemma all_ok_boot:
  assumes ok: "all_ok X a links" and n: "n < length links"
    and boot: "cl_kind (rl_link (links ! n)) = Boot"
  obtains b digest promotes out where "decode_boot X (cl_payload (rl_link (links ! n))) = Inr b"
    "walk_context X a (walk X a (take n links)) (rl_link (links ! n)) = Inr (bp_pcrs b, digest, promotes)"
    "validate_boot X (rl_link (links ! n)) (walk_ctx a (walk X a (take n links)) (bp_pcrs b) digest) = Inr out"
    "ws_in_force (walk X a (take (Suc n) links)) =
       (if promotes \<and> is_append (Inr out) then Some (bp_pcrs b, digest)
        else ws_in_force (walk X a (take n links)))"
proof -
  let ?ws = "walk X a (take n links)" and ?l = "rl_link (links ! n)"
  obtain out where "walk_outcome X a (links ! n) ?ws = Inr out"
    using all_ok_nth [OF ok n] .
  then obtain pcrs digest promotes where w: "walk_context X a ?ws ?l = Inr (pcrs, digest, promotes)"
      "chain_validate_chain_link X ?l (walk_ctx a ?ws pcrs digest) (walk_reference a (links ! n))
         (wa_debug_mode a) = Inr out"
      "ws_in_force (walk_step X a (links ! n) ?ws) =
        (if promotes \<and> is_append (Inr out) then Some (pcrs, digest) else ws_in_force ?ws)"
    by (rule walk_outcome_ok)
  note vb = chain_link_ok_boot [OF w(2) boot]
  obtain b where b: "decode_boot X (cl_payload ?l) = Inr b" "pcrs = bp_pcrs b"
    by (rule validate_boot_ok [OF vb]) (simp add: walk_ctx_def)
  show thesis
    using w vb b by (intro that [of b digest promotes out]) (simp_all add: walk_take_Suc [OF n])
qed

lemma all_ok_genesis:
  assumes ok: "all_ok X a links" and n: "0 < length links"
  obtains b where "cl_kind (rl_link (links ! 0)) = Boot"
    "decode_boot X (cl_payload (rl_link (links ! 0))) = Inr b"
    "ws_in_force (walk X a (take 1 links)) = Some (bp_pcrs b, bp_image_digest b)"
proof -
  have boot: "cl_kind (rl_link (links ! 0)) = Boot"
    using all_ok_signed [OF ok n] by blast
  obtain b digest promotes out where g: "decode_boot X (cl_payload (rl_link (links ! 0))) = Inr b"
    "walk_context X a (walk X a (take 0 links)) (rl_link (links ! 0)) = Inr (bp_pcrs b, digest, promotes)"
    "validate_boot X (rl_link (links ! 0)) (walk_ctx a (walk X a (take 0 links)) (bp_pcrs b) digest) = Inr out"
    "ws_in_force (walk X a (take (Suc 0) links)) =
       (if promotes \<and> is_append (Inr out) then Some (bp_pcrs b, digest)
        else ws_in_force (walk X a (take 0 links)))"
    by (rule all_ok_boot [OF ok n boot])
  have "promotes" "digest = bp_image_digest b"
    using g(1,2) boot by (simp_all add: walk_context_def Let_def)
  moreover have "is_append (Inr out)"
    using g(3) by (auto simp: validate_boot_def walk_ctx_def result_simps split: if_splits)
  ultimately show thesis using g(4) by (intro that [OF boot g(1)]) simp
qed

lemma nonupgradable_boot_pcrs:
  assumes ok: "all_ok X a links" and n: "n < length links" and fixed: "\<not> wa_upgradable a"
    and b: "decode_boot X (cl_payload (rl_link (links ! n))) = Inr b"
  shows "\<exists>d. ws_in_force (walk X a (take 1 links)) = Some (bp_pcrs b, d)"
proof (cases "n = 0")
  case True
  obtain b' where "decode_boot X (cl_payload (rl_link (links ! 0))) = Inr b'"
      "ws_in_force (walk X a (take 1 links)) = Some (bp_pcrs b', bp_image_digest b')"
    by (rule all_ok_genesis [OF ok]) (use n in linarith)
  with b True show ?thesis by simp
next
  case False
  let ?ws = "walk X a (take n links)" and ?l = "rl_link (links ! n)"
  have boot: "cl_kind (rl_link (links ! i)) = Boot" if "i < length links" for i
    using all_ok_signed [OF ok that] fixed by blast
  obtain b' digest promotes where "decode_boot X (cl_payload ?l) = Inr b'"
      "walk_context X a ?ws ?l = Inr (bp_pcrs b', digest, promotes)"
    by (rule all_ok_boot [OF ok n boot [OF n]])
  with b have c: "walk_context X a ?ws ?l = Inr (bp_pcrs b, digest, promotes)" by simp
  obtain p d where g: "ws_in_force (walk X a (take 1 links)) = Some (p, d)"
  proof -
    obtain b0 :: BootPayload where "ws_in_force (walk X a (take 1 links)) = Some (bp_pcrs b0, bp_image_digest b0)"
      by (rule all_ok_genesis [OF ok]) (use n in linarith)
    then show thesis by (rule that)
  qed
  then have inf: "ws_in_force ?ws = Some (p, d)"
    using nonupgradable_in_force_const [OF ok fixed, of n] False n by simp
  have "promotion_target X (ws_prior ?ws) (bp_pcrs b) (bp_image_digest b) = None"
  proof (rule ccontr)
    assume "\<not> ?thesis"
    then obtain u where "promotion_target X (map rl_link (take n links)) (bp_pcrs b)
        (bp_image_digest b) = Some u" by auto
    then obtain i where "i < length (map rl_link (take n links))"
        "cl_kind (map rl_link (take n links) ! i) = Upgrade"
      by (rule promotion_target_SomeD)
    then show False using boot [of i] n by auto
  qed
  moreover have "ws_prior ?ws \<noteq> []" using False n by auto
  ultimately have "walk_context X a ?ws ?l = Inr (p, d, False)"
    using b inf boot [OF n] by (simp add: walk_context_def Let_def)
  with c g show ?thesis by simp
qed

text \<open>A non-upgradable enclave never changes version. If the descent check accepts the chain of
  an enclave that is not upgradable, the tip it returns is the pinned version itself, and all links
  of the chain are boots.\<close>

theorem nonupgradable_tip_is_pinned:
  assumes "verify_pcr_descent X pinned links a = Inr tip" and "\<not> wa_upgradable a"
  shows "tip = pinned \<and> (\<forall>r \<in> set links. cl_kind (rl_link r) = Boot)"
proof -
  obtain p d where ok: "all_ok X a links" and inf: "ws_in_force (walk X a links) = Some (p, d)"
      and tip: "pcrs_hex_to_pcrs X p = Inr tip"
      and pin: "pinned_in_lineage X pinned 0 links False = Inr True"
    by (rule verify_pcr_descent_Inr [OF assms(1)])
  obtain n b where n: "n < length links" "decode_boot X (cl_payload (rl_link (links ! n))) = Inr b"
      "pcrs_hex_to_pcrs X (bp_pcrs b) = Inr pinned"
    using pinned_in_lineage_True [OF pin] by blast
  have "ws_in_force (walk X a links) = ws_in_force (walk X a (take 1 links))"
    using nonupgradable_in_force_const [OF ok assms(2), of "length links"] n(1) by force
  with inf nonupgradable_boot_pcrs [OF ok n(1) assms(2) n(2)] have "p = bp_pcrs b" by auto
  moreover have "\<forall>r \<in> set links. cl_kind (rl_link r) = Boot"
    using all_ok_signed [OF ok] assms(2) by (metis in_set_conv_nth)
  ultimately show ?thesis using tip n(3) by simp
qed

subsection \<open>What ingest appends\<close>

text \<open>Replays never land. A signed link whose payload is already on the chain under the same
  kind is never appended: if it validates at all, the outcome is to drop it as a duplicate.\<close>

theorem replayed_link_is_never_appended:
  assumes "signed_payload_seen link (cx_prior_chain ctx)" and "cl_kind link \<noteq> Boot"
    and "chain_validate_chain_link X link ctx now debug_mode = Inr out"
  shows "out = Dedup"
proof -
  obtain ident where signed: "validate_signed X link ctx ident now = Inr out"
    by (rule chain_link_ok_signed [OF assms(3,2)])
  have "check_upgrade X link ctx ident \<noteq> Inr None" "check_revocation X link ctx now \<noteq> Inr None"
    using assms(1) by (auto simp: check_upgrade_def check_revocation_def result_simps split: if_splits)
  moreover have "check_upgrade X link ctx ident = Inr (Some o') \<Longrightarrow> o' = Dedup"
      "check_revocation X link ctx now = Inr (Some o') \<Longrightarrow> o' = Dedup" for o'
    by (auto simp: check_upgrade_def check_revocation_def result_simps split: if_splits)
  ultimately show ?thesis
    using signed assms(2)
    by (cases "cl_kind link")
      (auto simp: validate_signed_def result_simps split: if_splits option.splits)
qed

lemma check_not_revoked_Inr_iff:
  "check_not_revoked X uid links = Inr u \<longleftrightarrow>
     (\<forall>l \<in> set links. cl_kind l = Revocation \<longrightarrow>
       (\<exists>p. decode_revocation X (cl_payload l) = Inr p \<and> rp_revokes p \<noteq> uid))"
proof (induction links)
  case (Cons l links)
  then show ?case
    by (cases "decode_revocation X (cl_payload l)") auto
qed simp

text \<open>C33. What an appended revocation revokes. A revocation link is appended only if the control
  key signed it in the revocation domain, for this enclave, and it names by row id and by payload
  hash an upgrade link of the chain whose activation time is still in the future and which no
  earlier revocation names.\<close>

theorem appended_revocation_is_sound:
  assumes kind: "cl_kind link = Revocation"
    and ok: "chain_validate_chain_link X link ctx now debug_mode = Inr (Append k)"
  shows "\<exists>r target u sig key. decode_revocation X (cl_payload link) = Inr r \<and>
    rp_enclave_id r = cx_enclave_id ctx \<and>
    cl_signature link = Some sig \<and> cx_control_public_key ctx = Some key \<and>
    p256_verify X key (signed_message RevocationPayloadDomain (cl_payload link)) sig \<and>
    target \<in> set (cx_prior_chain ctx) \<and> cl_id target = Some (rp_revokes r) \<and>
    cl_kind target = Upgrade \<and> rp_revokes_link r = sha256 X (cl_payload target) \<and>
    decode_upgrade X (cl_payload target) = Inr u \<and> now < up_valid_from u \<and>
    (\<forall>l \<in> set (cx_prior_chain ctx). cl_kind l = Revocation \<longrightarrow>
      (\<exists>p. decode_revocation X (cl_payload l) = Inr p \<and> rp_revokes p \<noteq> rp_revokes r))"
proof -
  obtain ident where signed: "validate_signed X link ctx ident now = Inr (Append k)"
    by (rule chain_link_ok_signed [OF ok]) (use kind in simp)
  obtain sig key domain where sig: "cl_signature link = Some sig" "cx_control_public_key ctx = Some key"
      "domain_for_link (cl_kind link) = Some domain"
      "p256_verify X key (signed_message domain (cl_payload link)) sig"
    by (rule validate_signed_ok [OF signed])
  have "check_revocation X link ctx now = Inr None"
    using signed kind by (auto simp: validate_signed_def check_revocation_def result_simps
        split: if_splits option.splits)
  then obtain r target u where r: "decode_revocation X (cl_payload link) = Inr r"
      "rp_enclave_id r = cx_enclave_id ctx"
      "find (\<lambda>l. cl_id l = Some (rp_revokes r)) (cx_prior_chain ctx) = Some target"
      "cl_kind target = Upgrade" "rp_revokes_link r = upgrade_link_hash X (cl_payload target)"
      "decode_upgrade X (cl_payload target) = Inr u" "\<not> up_valid_from u \<le> now"
      "check_not_revoked X (rp_revokes r) (cx_prior_chain ctx) = Inr ()"
    unfolding check_revocation_def and_then_Inr_iff map_err_Inr_iff ok_or_Inr_iff
    by (auto simp: and_then_Inr_iff map_err_Inr_iff ok_or_Inr_iff split: if_splits)
  then have "target \<in> set (cx_prior_chain ctx)" "cl_id target = Some (rp_revokes r)"
    by (auto simp: find_Some_iff)
  with r sig kind show ?thesis
    unfolding check_not_revoked_Inr_iff upgrade_link_hash_def by (auto simp: not_le)
qed

text \<open>C34. An upgrade never loosens anti-rollback. A boot of a new image is appended after an earlier
  boot only on an upgradable enclave and only if the new image's attested setting keeps the
  protection switched as it was, and when it is on, keeps the attestation mode, is built as an
  upgrade target and trusts at least one synchronizer.\<close>

theorem appended_boot_keeps_anti_rollback:
  assumes kind: "cl_kind link = Boot"
    and ok: "chain_validate_chain_link X link ctx now debug_mode = Inr (Append k)"
    and prev: "find (\<lambda>l. cl_kind l = Boot) (rev (cx_prior_chain ctx)) = Some prev"
  shows "\<exists>b p. decode_boot X (cl_payload link) = Inr b \<and> decode_boot X (cl_payload prev) = Inr p \<and>
    cx_upgradable ctx \<and> bp_image_digest b \<noteq> bp_image_digest p \<and>
    ar_enabled (bp_anti_rollback b) = ar_enabled (bp_anti_rollback p) \<and>
    (ar_enabled (bp_anti_rollback b) \<longrightarrow>
      ar_debug_attestation (bp_anti_rollback b) = ar_debug_attestation (bp_anti_rollback p) \<and>
      ar_upgrade_target (bp_anti_rollback b) \<and> ar_synchronizer_pcrs (bp_anti_rollback b) \<noteq> [])"
proof -
  obtain b p where bp: "decode_boot X (cl_payload link) = Inr b" "decode_boot X (cl_payload prev) = Inr p"
      "cx_upgradable ctx" "bp_image_digest b \<noteq> bp_image_digest p"
      "check_successor (bp_anti_rollback p) (bp_anti_rollback b) = Inr ()"
    using chain_link_ok_boot [OF ok kind] prev
    by (auto simp: validate_boot_def and_then_Inr_iff map_err_Inr_iff split: if_splits)
  from bp(5) have "ar_enabled (bp_anti_rollback b) = ar_enabled (bp_anti_rollback p) \<and>
    (ar_enabled (bp_anti_rollback b) \<longrightarrow>
      ar_debug_attestation (bp_anti_rollback b) = ar_debug_attestation (bp_anti_rollback p) \<and>
      ar_upgrade_target (bp_anti_rollback b) \<and> ar_synchronizer_pcrs (bp_anti_rollback b) \<noteq> [])"
    by (auto simp: check_successor_def split: bool.splits if_splits)
  with bp show ?thesis by blast
qed

subsection \<open>Witnesses\<close>

text \<open>A concrete chain: the genesis boot of one identity, an upgrade to another, and the promotion
  boot. A link's document is the bytes of its payload; a signature is the key followed by the
  message; the codecs know the four payloads.\<close>

definition ex_to :: PinIdentity where
  "ex_to = \<lparr> pi_image = [ex_pcr 11, ex_pcr 12, ex_pcr 13], pi_user = replicate 16 zero_pcr \<rparr>"

text \<open>A codec that is enough for PCRs of one repeated byte.\<close>

definition ex_hex1 :: "bytes \<Rightarrow> string" where
  "ex_hex1 bs = (if hd bs = 1 then ''1'' else if hd bs = 2 then ''2'' else if hd bs = 3 then ''3''
     else if hd bs = 11 then ''a'' else if hd bs = 12 then ''b'' else ''c'')"

definition ex_unhex1 :: "string \<Rightarrow> bytes option" where
  "ex_unhex1 s = map_of [(''1'', ex_pcr 1), (''2'', ex_pcr 2), (''3'', ex_pcr 3),
     (''a'', ex_pcr 11), (''b'', ex_pcr 12), (''c'', ex_pcr 13)] s"

definition ex_hexpcrs :: "PinIdentity \<Rightarrow> PcrsHex" where
  "ex_hexpcrs i = \<lparr> ph_pcr0 = ex_hex1 (pi_image i ! 0), ph_pcr1 = ex_hex1 (pi_image i ! 1),
     ph_pcr2 = ex_hex1 (pi_image i ! 2) \<rparr>"

definition ex_boot :: "PinIdentity \<Rightarrow> string \<Rightarrow> DateTime \<Rightarrow> BootPayload" where
  "ex_boot i digest t = \<lparr> bp_enclave_id = [9], bp_image_digest = digest, bp_pcrs = ex_hexpcrs i,
     bp_booted_at = t, bp_nonce = [], bp_anti_rollback = anti_rollback_disabled \<rparr>"

definition ex_upgrade :: UpgradePayload where
  "ex_upgrade = \<lparr> up_enclave_id = [9], up_from = ex_identity, up_to = ex_to,
     up_image_digest = ''v2'', up_valid_from = 100, up_valid_until = 100 + HOUR, up_issued_at = 0,
     up_nonce = [] \<rparr>"

definition ex_revocation :: RevocationPayload where
  "ex_revocation = \<lparr> rp_enclave_id = [9], rp_revokes = [2], rp_issued_at = 0, rp_nonce = [],
     rp_revokes_link = 2 # replicate 31 0 \<rparr>"

text \<open>A stand-in for the hash that tells the two identities apart.\<close>

definition ex_pad :: "bytes \<Rightarrow> bytes" where
  "ex_pad bs = take 32 ((if length bs < 50 then bs else drop 37 bs) @ replicate 32 0)"

text \<open>A link's document is the bytes of its payload.\<close>

definition ex_chain :: ChainExt where
  "ex_chain =
     \<lparr> sha256 = ex_pad, hex_encode = ex_hex1, hex_decode = ex_unhex1,
       p256_from_sec1 = (\<lambda>k. True), p256_sig_from_slice = (\<lambda>s. True),
       p256_verify = (\<lambda>k m s. s = k @ m),
       decode_attestation_document = (\<lambda>bs. Some ([],
         \<lparr> doc_timestamp = 1000,
           doc_pcrs = (if bs = [3] then [(0, ex_pcr 11), (1, ex_pcr 12), (2, ex_pcr 13)] else ex_doc_pcrs),
           doc_certificate = [2], doc_cabundle = [], doc_user_data = Some (ex_pad bs),
           doc_nonce = None \<rparr>)),
       webpki_leaf_parses = (\<lambda>_. True), webpki_anchor_parses = (\<lambda>_. True),
       webpki_verify_chain = (\<lambda>_ _ _ _. None),
       x509_public_key = (\<lambda>_. Some \<lparr> spki_is_ec = True, spki_curve = Some Secp384r1,
                                     spki_point = Some [4] \<rparr>),
       p384_from_sec1 = (\<lambda>_. True), validate_cose_signature = (\<lambda>_ _. True),
       base64_encode = ex_hex, validate_expected_nonce = (\<lambda>doc s. False),
       skip_chain_compiled = False,
       boot_dec = (\<lambda>bs. if bs = [1] then Some (ex_boot ex_identity ''v1'' 0)
                        else if bs = [3] then Some (ex_boot ex_to ''v2'' 107) else None),
       boot_enc = (\<lambda>b. if bp_image_digest b = ''v1'' then [1] else [3]),
       upgrade_dec = (\<lambda>bs. if bs = [2] then Some ex_upgrade else None),
       upgrade_enc = (\<lambda>_. [2]),
       revocation_dec = (\<lambda>bs. if bs = [4] then Some ex_revocation else None),
       revocation_enc = (\<lambda>_. [4]),
       base64_decode = (\<lambda>_. None) \<rparr>"

definition ex_link :: "ChainLinkKind \<Rightarrow> bytes \<Rightarrow> bytes option \<Rightarrow> RecordedLink" where
  "ex_link kind payload sig = \<lparr> rl_link = \<lparr> cl_id = Some payload, cl_sequence = None,
     cl_kind = kind, cl_payload = payload, cl_attestation = payload, cl_signature = sig \<rparr>,
     rl_recorded_at = None \<rparr>"

definition ex_signed :: "ChainLinkKind \<Rightarrow> SignedDomain \<Rightarrow> bytes \<Rightarrow> RecordedLink" where
  "ex_signed kind domain payload =
     ex_link kind payload (Some ([5] @ signed_message domain payload))"

definition ex_links :: "RecordedLink list" where
  "ex_links = [ex_link Boot [1] None,
     ex_signed Upgrade UpgradePayloadDomain [2],
     ex_link Boot [3] None]"

definition ex_args :: WalkArgs where
  "ex_args = \<lparr> wa_enclave_id = [9], wa_row_pcrs = ex_hexpcrs ex_to, wa_row_image_digest = ''v2'',
     wa_control_public_key = Some [5], wa_upgradable = True, wa_now = 0, wa_debug_mode = False \<rparr>"

definition ex_ctx :: "ChainLink list \<Rightarrow> PinIdentity \<Rightarrow> string \<Rightarrow> ChainContext" where
  "ex_ctx prior i digest = \<lparr> cx_enclave_id = [9], cx_enclave_pcrs = ex_hexpcrs i,
     cx_enclave_image_digest = digest, cx_control_public_key = Some [5], cx_upgradable = True,
     cx_prior_chain = prior \<rparr>"

lemma ex_descent:
  "verify_pcr_descent ex_chain (image_pcrs ex_identity) ex_links ex_args = Inr (image_pcrs ex_to)"
  by code_simp

theorem descent_is_owner_authorized_witness:
  "verify_pcr_descent ex_chain (image_pcrs ex_identity) ex_links ex_args = Inr (image_pcrs ex_to) \<and>
   (\<exists>p d. ws_in_force (walk ex_chain ex_args ex_links) = Some (p, d) \<and>
     pcrs_hex_to_pcrs ex_chain p = Inr (image_pcrs ex_to))"
  using descent_is_owner_authorized [OF ex_descent] ex_descent by blast

definition ex_fixed_args :: WalkArgs where
  "ex_fixed_args = ex_args\<lparr> wa_upgradable := False \<rparr>"

lemma ex_fixed_descent:
  "verify_pcr_descent ex_chain (image_pcrs ex_identity) (take 1 ex_links) ex_fixed_args =
     Inr (image_pcrs ex_identity)"
  by code_simp

theorem nonupgradable_tip_is_pinned_witness:
  "\<exists>tip. verify_pcr_descent ex_chain (image_pcrs ex_identity) (take 1 ex_links) ex_fixed_args =
     Inr tip \<and> \<not> wa_upgradable ex_fixed_args \<and> tip = image_pcrs ex_identity"
proof -
  have "\<not> wa_upgradable ex_fixed_args" by (simp add: ex_fixed_args_def)
  with nonupgradable_tip_is_pinned [OF ex_fixed_descent] ex_fixed_descent show ?thesis by blast
qed

theorem replayed_link_is_never_appended_witness:
  "let link = rl_link (ex_links ! 1); ctx = ex_ctx (map rl_link (take 2 ex_links)) ex_identity ''v1''
   in signed_payload_seen link (cx_prior_chain ctx) \<and>
      chain_validate_chain_link ex_chain link ctx 0 False = Inr Dedup"
proof -
  let ?link = "rl_link (ex_links ! 1)"
  let ?ctx = "ex_ctx (map rl_link (take 2 ex_links)) ex_identity ''v1''"
  have seen: "signed_payload_seen ?link (cx_prior_chain ?ctx)" by code_simp
  have ok: "is_ok (chain_validate_chain_link ex_chain ?link ?ctx 0 False)" by code_simp
  have "cl_kind ?link \<noteq> Boot" by code_simp
  with replayed_link_is_never_appended [OF seen] ok seen show ?thesis
    unfolding is_ok_iff Let_def by blast
qed

theorem appended_revocation_is_sound_witness:
  "\<exists>r. chain_validate_chain_link ex_chain (rl_link (ex_signed Revocation RevocationPayloadDomain [4]))
      (ex_ctx (map rl_link (take 2 ex_links)) ex_identity ''v1'') 0 False = Inr (Append 2) \<and>
    decode_revocation ex_chain [4] = Inr r \<and> rp_enclave_id r = [9]"
proof -
  let ?link = "rl_link (ex_signed Revocation RevocationPayloadDomain [4])"
  let ?ctx = "ex_ctx (map rl_link (take 2 ex_links)) ex_identity ''v1''"
  have ok: "chain_validate_chain_link ex_chain ?link ?ctx 0 False = Inr (Append 2)" by code_simp
  have "cl_kind ?link = Revocation" "cl_payload ?link = [4]" "cx_enclave_id ?ctx = [9]"
    by (simp_all add: ex_signed_def ex_link_def ex_ctx_def)
  with appended_revocation_is_sound [OF _ ok] ok show ?thesis by auto
qed

theorem appended_boot_keeps_anti_rollback_witness:
  "chain_validate_chain_link ex_chain (rl_link (ex_links ! 2))
      (ex_ctx (map rl_link (take 2 ex_links)) ex_to ''v2'') 0 False = Inr (Append 2) \<and>
   (\<exists>b. decode_boot ex_chain (cl_payload (rl_link (ex_links ! 2))) = Inr b)"
proof -
  let ?link = "rl_link (ex_links ! 2)"
  let ?ctx = "ex_ctx (map rl_link (take 2 ex_links)) ex_to ''v2''"
  have ok: "chain_validate_chain_link ex_chain ?link ?ctx 0 False = Inr (Append 2)" by code_simp
  have kind: "cl_kind ?link = Boot" by code_simp
  have prev: "find (\<lambda>l. cl_kind l = Boot) (rev (cx_prior_chain ?ctx)) = Some (rl_link (ex_links ! 0))"
    by (simp add: ex_ctx_def ex_links_def ex_signed_def ex_link_def)
  from appended_boot_keeps_anti_rollback [OF kind ok prev] ok show ?thesis by blast
qed

end
