(* ===== verification/State_Machine.thy ===== *)
theory State_Machine
  imports Prelude
begin

text \<open>
  The anti-rollback oracle's pure state machine, \<open>synchronizer/src/lib.rs\<close>.
\<close>

type_synonym PcrKey = bytes
type_synonym Commitment = bytes
type_synonym LinkHash = bytes
type_synonym ControlPubkey = bytes

text \<open>\<open>Version(u64)\<close>: the per-key generation counter.\<close>

type_synonym Version = u64

record KeyState =
  ks_commitment :: Commitment
  ks_version :: Version
  ks_control_pubkey :: ControlPubkey

datatype Op =
    Op_Register PcrKey Commitment
  | Op_Pin PcrKey Version Commitment
  | Op_Transition PcrKey PcrKey LinkHash Commitment
  | Op_Revoke PcrKey LinkHash

datatype ValidationError =
    NotAttested
  | AlreadyRegistered
  | KeyRetired
  | KeyNotCurrent
  | StalePin (stale_expected: Version) (stale_current: Version)
  | NewKeyAlreadyExists
  | NewKeyNotAttested
  | NoTransitionAuthorization
  | OldKeyEqualsNew
  | TransitionRevoked
  | CommitmentMismatch

record StateMachine =
  sm_state :: "PcrKey \<rightharpoonup> KeyState"
  sm_attested :: "PcrKey \<rightharpoonup> ControlPubkey"
  sm_transition_authorizations :: "(PcrKey \<times> PcrKey) set"
  sm_retired :: "PcrKey set"
  sm_revoked_links :: "PcrKey \<rightharpoonup> LinkHash set"

definition sm_new :: StateMachine where
  "sm_new = \<lparr> sm_state = Map.empty, sm_attested = Map.empty,
     sm_transition_authorizations = {}, sm_retired = {}, sm_revoked_links = Map.empty \<rparr>"

definition observe_attestation :: "PcrKey \<Rightarrow> ControlPubkey \<Rightarrow> StateMachine \<Rightarrow> StateMachine" where
  "observe_attestation key control_pubkey sm =
     sm\<lparr> sm_attested := (sm_attested sm)(key \<mapsto> control_pubkey) \<rparr>"

definition observe_transition :: "PcrKey \<Rightarrow> PcrKey \<Rightarrow> StateMachine \<Rightarrow> StateMachine" where
  "observe_transition old_key new_key sm =
     sm\<lparr> sm_transition_authorizations :=
           insert (old_key, new_key) (sm_transition_authorizations sm) \<rparr>"

definition is_revoked :: "StateMachine \<Rightarrow> PcrKey \<Rightarrow> LinkHash \<Rightarrow> bool" where
  "is_revoked sm key link_hash =
     (case sm_revoked_links sm key of
        None \<Rightarrow> False
      | Some hashes \<Rightarrow> link_hash \<in> hashes)"

definition sm_get :: "StateMachine \<Rightarrow> PcrKey \<Rightarrow> KeyState option" where
  "sm_get sm key = sm_state sm key"

definition apply_register ::
    "PcrKey \<Rightarrow> Commitment \<Rightarrow> StateMachine \<Rightarrow> (ValidationError + KeyState) \<times> StateMachine" where
  "apply_register key commitment sm =
     (case sm_attested sm key of
        None \<Rightarrow> (Inl NotAttested, sm)
      | Some control_pubkey \<Rightarrow>
          if sm_state sm key \<noteq> None then (Inl AlreadyRegistered, sm)
          else if key \<in> sm_retired sm then (Inl KeyRetired, sm)
          else
            let entry = \<lparr> ks_commitment = commitment, ks_version = 0,
                          ks_control_pubkey = control_pubkey \<rparr>
            in (Inr entry, sm\<lparr> sm_state := (sm_state sm)(key \<mapsto> entry) \<rparr>))"

definition apply_pin ::
    "PcrKey \<Rightarrow> Version \<Rightarrow> Commitment \<Rightarrow> StateMachine \<Rightarrow>
      (ValidationError + KeyState) \<times> StateMachine" where
  "apply_pin key expected_version commitment sm =
     (case sm_state sm key of
        None \<Rightarrow> (Inl KeyNotCurrent, sm)
      | Some entry \<Rightarrow>
          if ks_version entry \<noteq> expected_version
          then (Inl (StalePin expected_version (ks_version entry)), sm)
          else
            let entry' = entry\<lparr> ks_commitment := commitment,
                                ks_version := ks_version entry + 1 \<rparr>
            in (Inr entry', sm\<lparr> sm_state := (sm_state sm)(key \<mapsto> entry') \<rparr>))"

definition apply_transition ::
    "PcrKey \<Rightarrow> PcrKey \<Rightarrow> LinkHash \<Rightarrow> Commitment \<Rightarrow> StateMachine \<Rightarrow>
      (ValidationError + KeyState) \<times> StateMachine" where
  "apply_transition old_key new_key link_hash commitment sm =
     (if old_key = new_key then (Inl OldKeyEqualsNew, sm)
      else (case sm_state sm old_key of
        None \<Rightarrow> (Inl KeyNotCurrent, sm)
      | Some cur \<Rightarrow>
          if is_revoked sm old_key link_hash then (Inl TransitionRevoked, sm)
          else if sm_state sm new_key \<noteq> None then (Inl NewKeyAlreadyExists, sm)
          else if new_key \<in> sm_retired sm then (Inl KeyRetired, sm)
          else (case sm_attested sm new_key of
            None \<Rightarrow> (Inl NewKeyNotAttested, sm)
          | Some new_pubkey \<Rightarrow>
              if (old_key, new_key) \<notin> sm_transition_authorizations sm
              then (Inl NoTransitionAuthorization, sm)
              else if ks_commitment cur \<noteq> commitment then (Inl CommitmentMismatch, sm)
              else
                (let carried = cur\<lparr> ks_control_pubkey := new_pubkey \<rparr>;
                     removed = (sm_state sm)(old_key := None);
                     inserted = removed(new_key \<mapsto> carried);
                     retired = insert old_key (sm_retired sm)
                 in (Inr carried, sm\<lparr> sm_state := inserted, sm_retired := retired \<rparr>)))))"

definition apply_revoke ::
    "PcrKey \<Rightarrow> LinkHash \<Rightarrow> StateMachine \<Rightarrow> (ValidationError + KeyState) \<times> StateMachine" where
  "apply_revoke key link_hash sm =
     (if key \<in> sm_retired sm then (Inl KeyRetired, sm)
      else case sm_state sm key of
        None \<Rightarrow> (Inl KeyNotCurrent, sm)
      | Some state \<Rightarrow>
          let hashes = (case sm_revoked_links sm key of None \<Rightarrow> {} | Some hs \<Rightarrow> hs)
          in (Inr state,
              sm\<lparr> sm_revoked_links := (sm_revoked_links sm)(key \<mapsto> insert link_hash hashes) \<rparr>))"

fun apply_op :: "Op \<Rightarrow> StateMachine \<Rightarrow> (ValidationError + KeyState) \<times> StateMachine" where
  "apply_op (Op_Register key commitment) sm = apply_register key commitment sm"
| "apply_op (Op_Pin key expected_version commitment) sm =
     apply_pin key expected_version commitment sm"
| "apply_op (Op_Transition old_key new_key link_hash commitment) sm =
     apply_transition old_key new_key link_hash commitment sm"
| "apply_op (Op_Revoke key link_hash) sm = apply_revoke key link_hash sm"

text \<open>\<open>StateMachineSnapshot\<close>: the serializable copy; attested keys are wrapped in the
  newtype that carries their byte-array codec.\<close>

datatype ControlPubkeyBytes = ControlPubkeyBytes (pubkey_bytes: ControlPubkey)

record StateMachineSnapshot =
  sn_state :: "PcrKey \<rightharpoonup> KeyState"
  sn_attested :: "PcrKey \<rightharpoonup> ControlPubkeyBytes"
  sn_transition_authorizations :: "(PcrKey \<times> PcrKey) set"
  sn_retired :: "PcrKey set"
  sn_revoked_links :: "PcrKey \<rightharpoonup> LinkHash set"

definition snapshot :: "StateMachine \<Rightarrow> StateMachineSnapshot" where
  "snapshot sm =
     \<lparr> sn_state = sm_state sm,
       sn_attested = map_option ControlPubkeyBytes \<circ> sm_attested sm,
       sn_transition_authorizations = sm_transition_authorizations sm,
       sn_retired = sm_retired sm,
       sn_revoked_links = sm_revoked_links sm \<rparr>"

definition restore_from_snapshot :: "StateMachineSnapshot \<Rightarrow> StateMachine \<Rightarrow> StateMachine" where
  "restore_from_snapshot sn sm =
     sm\<lparr> sm_state := sn_state sn,
         sm_attested := map_option pubkey_bytes \<circ> sn_attested sn,
         sm_transition_authorizations := sn_transition_authorizations sn,
         sm_retired := sn_retired sn,
         sm_revoked_links := sn_revoked_links sn \<rparr>"

text \<open>Everything that changes a state machine: the two observations its driver
  records and the operations. A run is a list of these inputs.\<close>

datatype SmInput =
    In_Attest PcrKey ControlPubkey
  | In_Authorize PcrKey PcrKey
  | In_Op Op

fun sm_step :: "SmInput \<Rightarrow> StateMachine \<Rightarrow> StateMachine" where
  "sm_step (In_Attest key pk) sm = observe_attestation key pk sm"
| "sm_step (In_Authorize old_key new_key) sm = observe_transition old_key new_key sm"
| "sm_step (In_Op op) sm = snd (apply_op op sm)"

abbreviation sm_run :: "SmInput list \<Rightarrow> StateMachine \<Rightarrow> StateMachine" where
  "sm_run \<equiv> fold sm_step"

text \<open>The well-formedness of a state machine: no key is both current and retired,
  every key that ever held a pin was attested, and revocations are recorded only
  for keys that held one.\<close>

definition sm_inv :: "StateMachine \<Rightarrow> bool" where
  "sm_inv sm \<longleftrightarrow>
     (\<forall>k \<in> sm_retired sm. sm_state sm k = None) \<and>
     (\<forall>k. sm_attested sm k = None \<longrightarrow> sm_state sm k = None \<and> k \<notin> sm_retired sm) \<and>
     (\<forall>k. sm_state sm k = None \<and> k \<notin> sm_retired sm \<longrightarrow> sm_revoked_links sm k = None) \<and>
     finite (dom (sm_state sm)) \<and> finite (sm_retired sm)"

text \<open>What no input can undo: retirement, attestation and revocation.\<close>

definition sm_leq :: "StateMachine \<Rightarrow> StateMachine \<Rightarrow> bool" where
  "sm_leq s t \<longleftrightarrow>
     sm_retired s \<subseteq> sm_retired t \<and>
     dom (sm_state s) \<subseteq> dom (sm_state t) \<union> sm_retired t \<and>
     dom (sm_attested s) \<subseteq> dom (sm_attested t) \<and>
     sm_transition_authorizations s \<subseteq> sm_transition_authorizations t \<and>
     (\<forall>k h. is_revoked s k h \<longrightarrow> is_revoked t k h)"

named_theorems op_defs "definitions of the state machine's operations"

lemmas apply_defs [op_defs] =
  apply_register_def apply_pin_def apply_transition_def apply_revoke_def

lemmas observe_defs [op_defs] = observe_attestation_def observe_transition_def

subsection \<open>What each operation does, on every branch\<close>

lemma apply_op_error_unchanged:
  "apply_op op sm = (Inl e, sm') \<Longrightarrow> sm' = sm"
  by (cases op)
    (auto simp: apply_defs Let_def split: option.splits if_splits)

lemma apply_register_ok:
  "apply_register key c sm = (Inr e, sm') \<longleftrightarrow>
     (\<exists>pk. sm_attested sm key = Some pk \<and> sm_state sm key = None \<and> key \<notin> sm_retired sm \<and>
       e = \<lparr> ks_commitment = c, ks_version = 0, ks_control_pubkey = pk \<rparr> \<and>
       sm' = sm\<lparr> sm_state := (sm_state sm)(key \<mapsto> e) \<rparr>)"
  by (auto simp: apply_register_def Let_def split: option.splits if_splits)

lemma apply_pin_ok:
  "apply_pin key v c sm = (Inr e, sm') \<longleftrightarrow>
     (\<exists>cur. sm_state sm key = Some cur \<and> ks_version cur = v \<and>
       e = cur\<lparr> ks_commitment := c, ks_version := v + 1 \<rparr> \<and>
       sm' = sm\<lparr> sm_state := (sm_state sm)(key \<mapsto> e) \<rparr>)"
  by (auto simp: apply_pin_def Let_def split: option.splits if_splits)

lemma apply_transition_ok:
  "apply_transition old new h c sm = (Inr e, sm') \<longleftrightarrow>
     (\<exists>cur pk. old \<noteq> new \<and> sm_state sm old = Some cur \<and> \<not> is_revoked sm old h \<and>
       sm_state sm new = None \<and> new \<notin> sm_retired sm \<and> sm_attested sm new = Some pk \<and>
       (old, new) \<in> sm_transition_authorizations sm \<and> ks_commitment cur = c \<and>
       e = cur\<lparr> ks_control_pubkey := pk \<rparr> \<and>
       sm' = sm\<lparr> sm_state := (sm_state sm)(old := None, new \<mapsto> e),
                 sm_retired := insert old (sm_retired sm) \<rparr>)"
  by (auto simp: apply_transition_def Let_def split: option.splits if_splits)

lemma apply_revoke_ok:
  "apply_revoke key h sm = (Inr e, sm') \<longleftrightarrow>
     key \<notin> sm_retired sm \<and> sm_state sm key = Some e \<and>
     sm' = sm\<lparr> sm_revoked_links := (sm_revoked_links sm)
                 (key \<mapsto> insert h (case sm_revoked_links sm key of None \<Rightarrow> {} | Some hs \<Rightarrow> hs)) \<rparr>"
  by (auto simp: apply_revoke_def Let_def split: option.splits if_splits)

lemmas apply_ok = apply_register_ok apply_pin_ok apply_transition_ok apply_revoke_ok

text \<open>Case analysis on one operation: it is refused and nothing changes, or it is one of
  the four accepted forms.\<close>

lemma apply_op_cases [consumes 1, case_names refused ok]:
  assumes "apply_op op sm = (r, sm')"
  obtains e where "r = Inl e" "sm' = sm" | e where "r = Inr e" "apply_op op sm = (Inr e, sm')"
  using assms apply_op_error_unchanged by (cases r) auto

subsection \<open>The invariant, and what no input can undo\<close>

lemma sm_new_inv: "sm_inv sm_new"
  by (simp add: sm_inv_def sm_new_def)

lemma apply_op_inv:
  assumes "sm_inv sm" and "apply_op op sm = (r, sm')"
  shows "sm_inv sm'"
  using assms(2)
proof (cases rule: apply_op_cases)
  case refused
  with assms(1) show ?thesis by simp
next
  case ok
  with assms(1) show ?thesis
    by (cases op) (auto simp: apply_ok sm_inv_def split: if_splits)
qed

lemma sm_step_inv: "sm_inv sm \<Longrightarrow> sm_inv (sm_step i sm)"
proof (cases i)
  case (In_Op op)
  then show "sm_inv sm \<Longrightarrow> ?thesis"
    using apply_op_inv [of sm op] by (cases "apply_op op sm") auto
qed (auto simp: sm_inv_def observe_defs)

lemma is_revoked_simps [simp]:
  "is_revoked (sm\<lparr>sm_state := a\<rparr>) k h = is_revoked sm k h"
  "is_revoked (sm\<lparr>sm_attested := b\<rparr>) k h = is_revoked sm k h"
  "is_revoked (sm\<lparr>sm_retired := d\<rparr>) k h = is_revoked sm k h"
  "is_revoked (sm\<lparr>sm_transition_authorizations := t\<rparr>) k h = is_revoked sm k h"
  by (simp_all add: is_revoked_def)

lemma is_revoked_insert:
  "is_revoked sm k h' \<Longrightarrow>
    is_revoked (sm\<lparr>sm_revoked_links := (sm_revoked_links sm)
      (key \<mapsto> insert h (case sm_revoked_links sm key of None \<Rightarrow> {} | Some hs \<Rightarrow> hs))\<rparr>) k h'"
  by (auto simp: is_revoked_def split: option.splits)

lemma apply_op_leq:
  assumes "apply_op op sm = (r, sm')"
  shows "sm_leq sm sm'"
  using assms
proof (cases rule: apply_op_cases)
  case refused
  then show ?thesis by (simp add: sm_leq_def)
next
  case ok
  then show ?thesis
    by (cases op) (auto simp: apply_ok sm_leq_def is_revoked_insert)
qed

lemma sm_step_leq: "sm_leq sm (sm_step i sm)"
proof (cases i)
  case (In_Op op)
  then show ?thesis
    using apply_op_leq [of op sm] by (cases "apply_op op sm") auto
qed (auto simp: sm_leq_def observe_defs)

interpretation sm: forward_steps sm_step sm_inv sm_leq
proof unfold_locales
  show "sm_inv s \<Longrightarrow> sm_inv (sm_step i s)" for s i
    by (rule sm_step_inv)
  show "sm_leq s s" for s
    by (simp add: sm_leq_def)
  show "sm_leq s t \<Longrightarrow> sm_leq t u \<Longrightarrow> sm_leq s u" for s t u
    unfolding sm_leq_def by (elim conjE, intro conjI) blast+
  show "sm_inv s \<Longrightarrow> sm_leq s (sm_step i s)" for s i
    by (rule sm_step_leq)
qed

interpretation sm_ckpt: checkpointed sm_step snapshot restore_from_snapshot
  by unfold_locales
    (simp add: snapshot_def restore_from_snapshot_def comp_def option.map_comp option.map_ident)

subsection \<open>Versions along a run\<close>

text \<open>While a key stays current, its version is its starting version plus the number of
  accepted pins (modulo the width of the counter), and with no accepted pin its commitment
  and frozen control key are unchanged.\<close>

lemma apply_op_entry:
  assumes "apply_op op sm = (r, sm')" and "sm_state sm k = Some e"
  shows "case sm_state sm' k of
      None \<Rightarrow> k \<in> sm_retired sm'
    | Some e' \<Rightarrow> ks_control_pubkey e' = ks_control_pubkey e \<and>
        (e' = e \<or> ks_version e' = ks_version e + 1)"
  using assms(1)
proof (cases rule: apply_op_cases)
  case refused
  with assms(2) show ?thesis by simp
next
  case ok
  with assms(2) show ?thesis by (cases op) (auto simp: apply_ok)
qed

lemma sm_step_entry:
  assumes "sm_state sm k = Some e"
  shows "case sm_state (sm_step i sm) k of
      None \<Rightarrow> k \<in> sm_retired (sm_step i sm)
    | Some e' \<Rightarrow> ks_control_pubkey e' = ks_control_pubkey e \<and>
        (e' = e \<or> ks_version e' = ks_version e + 1)"
proof (cases i)
  case (In_Op op)
  then show ?thesis
    using apply_op_entry [OF prod.collapse [symmetric] assms, of op]
    by (simp split: option.splits)
qed (use assms in \<open>simp_all add: observe_defs\<close>)

lemma sm_run_entry:
  assumes "sm_inv sm" and "sm_state sm k = Some e"
  shows "k \<in> sm_retired (sm_run is sm) \<or>
    (\<exists>e' n. sm_state (sm_run is sm) k = Some e' \<and> n \<le> length is \<and>
      ks_control_pubkey e' = ks_control_pubkey e \<and>
      ks_version e' = ks_version e + of_nat n \<and> (n = 0 \<longrightarrow> e' = e))"
  using assms
proof (induction "is" arbitrary: sm e)
  case (Cons i "is")
  have inv: "sm_inv (sm_step i sm)" by (rule sm_step_inv [OF Cons.prems(1)])
  consider (ret) "k \<in> sm_retired (sm_step i sm)"
    | (cur) e1 where "sm_state (sm_step i sm) k = Some e1"
        "ks_control_pubkey e1 = ks_control_pubkey e" "e1 = e \<or> ks_version e1 = ks_version e + 1"
    using sm_step_entry [OF Cons.prems(2), of i] by (auto split: option.splits)
  then show ?case
  proof cases
    case ret
    then show ?thesis
      using sm.run_forward [OF inv, of "is"] by (auto simp: sm_leq_def)
  next
    case cur
    show ?thesis
    proof (cases "k \<in> sm_retired (sm_run is (sm_step i sm))")
      case False
      then obtain e' n where e': "sm_state (sm_run is (sm_step i sm)) k = Some e'"
          "n \<le> length is" "ks_control_pubkey e' = ks_control_pubkey e1"
          "ks_version e' = ks_version e1 + of_nat n" "n = 0 \<longrightarrow> e' = e1"
        using Cons.IH [OF inv cur(1)] by blast
      show ?thesis
      proof (cases "e1 = e")
        case True
        with e' cur show ?thesis
          by (intro disjI2 exI [of _ e'] exI [of _ n]) auto
      next
        case False
        with e' cur show ?thesis
          by (intro disjI2 exI [of _ e'] exI [of _ "Suc n"]) (auto simp: algebra_simps)
      qed
    qed simp
  qed
qed auto

subsection \<open>The life cycle of a key\<close>

text \<open>The contract the oracle offers its clients, without the bookkeeping: a key is unseen,
  then active with an entry, then retired for good.\<close>

datatype KeyPhase = Unseen | Active KeyState | Retired

inductive phase_step :: "(PcrKey \<Rightarrow> KeyPhase) \<Rightarrow> (PcrKey \<Rightarrow> KeyPhase) \<Rightarrow> bool" where
  phase_idle: "phase_step f f"
| phase_register: "f k = Unseen \<Longrightarrow>
    phase_step f (f(k := Active \<lparr>ks_commitment = c, ks_version = 0, ks_control_pubkey = pk\<rparr>))"
| phase_pin: "f k = Active e \<Longrightarrow> e' = e\<lparr>ks_commitment := c, ks_version := ks_version e + 1\<rparr> \<Longrightarrow>
    phase_step f (f(k := Active e'))"
| phase_handover: "f old = Active e \<Longrightarrow> f new = Unseen \<Longrightarrow>
    phase_step f (f(old := Retired, new := Active (e\<lparr>ks_control_pubkey := pk\<rparr>)))"

inductive_cases phase_stepE: "phase_step f g"

definition phase_of :: "StateMachine \<Rightarrow> PcrKey \<Rightarrow> KeyPhase" where
  "phase_of sm k =
     (case sm_state sm k of
        Some e \<Rightarrow> Active e
      | None \<Rightarrow> if k \<in> sm_retired sm then Retired else Unseen)"

lemma phase_of_unseen: "sm_state sm k = None \<Longrightarrow> k \<notin> sm_retired sm \<Longrightarrow> phase_of sm k = Unseen"
  by (simp add: phase_of_def)

lemma phase_of_active: "sm_state sm k = Some e \<Longrightarrow> phase_of sm k = Active e"
  by (simp add: phase_of_def)

lemma phase_of_set_state:
  "phase_of (sm\<lparr>sm_state := (sm_state sm)(k \<mapsto> e)\<rparr>) = (phase_of sm)(k := Active e)"
  by (auto simp: phase_of_def fun_eq_iff)

lemma phase_of_handover:
  "old \<noteq> new \<Longrightarrow>
    phase_of (sm\<lparr>sm_state := (sm_state sm)(old := None, new \<mapsto> e),
                 sm_retired := insert old (sm_retired sm)\<rparr>) =
    (phase_of sm)(old := Retired, new := Active e)"
  by (auto simp: phase_of_def fun_eq_iff)

lemma phase_of_frame:
  "phase_of (sm\<lparr>sm_attested := a\<rparr>) = phase_of sm"
  "phase_of (sm\<lparr>sm_transition_authorizations := t\<rparr>) = phase_of sm"
  "phase_of (sm\<lparr>sm_revoked_links := r\<rparr>) = phase_of sm"
  by (auto simp: phase_of_def fun_eq_iff)

lemma apply_op_phase_step:
  assumes "apply_op op sm = (r, sm')"
  shows "phase_step (phase_of sm) (phase_of sm')"
  using assms
proof (cases rule: apply_op_cases)
  case refused
  then show ?thesis by (simp add: phase_idle)
next
  case (ok e)
  show ?thesis
  proof (cases op)
    case (Op_Register k c)
    with ok obtain pk where "phase_of sm k = Unseen"
        "phase_of sm' = (phase_of sm)
          (k := Active \<lparr>ks_commitment = c, ks_version = 0, ks_control_pubkey = pk\<rparr>)"
      by (auto simp: apply_ok phase_of_set_state phase_of_unseen)
    then show ?thesis using phase_register by simp
  next
    case (Op_Pin k v c)
    with ok obtain cur where "phase_of sm k = Active cur"
        "phase_of sm' = (phase_of sm)
          (k := Active (cur\<lparr>ks_commitment := c, ks_version := ks_version cur + 1\<rparr>))"
      by (auto simp: apply_ok phase_of_set_state phase_of_active)
    then show ?thesis using phase_pin by simp
  next
    case (Op_Transition old new h c)
    with ok obtain cur pk where "phase_of sm old = Active cur" "phase_of sm new = Unseen"
        "phase_of sm' = (phase_of sm)
          (old := Retired, new := Active (cur\<lparr>ks_control_pubkey := pk\<rparr>))"
      by (auto simp: apply_ok phase_of_handover phase_of_active phase_of_unseen)
    then show ?thesis using phase_handover by simp
  next
    case (Op_Revoke k h)
    with ok show ?thesis
      by (auto simp: apply_ok phase_of_frame intro: phase_idle)
  qed
qed

lemma sm_step_phase_step: "phase_step (phase_of sm) (phase_of (sm_step i sm))"
proof (cases i)
  case (In_Op op)
  then show ?thesis
    using apply_op_phase_step [OF prod.collapse [symmetric], of sm op] by simp
qed (simp_all add: observe_defs phase_of_frame phase_idle)

subsection \<open>Where a frozen control key comes from\<close>

definition attest_events :: "SmInput list \<Rightarrow> (PcrKey \<times> ControlPubkey) set" where
  "attest_events is = {(k, pk). In_Attest k pk \<in> set is}"

text \<open>\<open>keys_from A sm\<close>: every control key the machine holds, pending or frozen, was announced
  in an attestation of \<open>A\<close>, for the key it is held under.\<close>

definition keys_from :: "(PcrKey \<times> ControlPubkey) set \<Rightarrow> StateMachine \<Rightarrow> bool" where
  "keys_from A sm \<longleftrightarrow>
     (\<forall>k pk. sm_attested sm k = Some pk \<longrightarrow> (k, pk) \<in> A) \<and>
     (\<forall>k e. sm_state sm k = Some e \<longrightarrow> (k, ks_control_pubkey e) \<in> A)"

lemma apply_op_keys_from:
  assumes "keys_from A sm" and "apply_op op sm = (r, sm')"
  shows "keys_from A sm'"
  using assms(2)
proof (cases rule: apply_op_cases)
  case refused
  with assms(1) show ?thesis by simp
next
  case ok
  with assms(1) show ?thesis
    by (cases op) (auto simp: apply_ok keys_from_def split: if_splits)
qed

lemma sm_step_keys_from:
  "keys_from (attest_events is) sm \<Longrightarrow> keys_from (attest_events (is @ [i])) (sm_step i sm)"
proof (cases i)
  case (In_Op op)
  assume "keys_from (attest_events is) sm"
  then have "keys_from (attest_events is) (sm_step i sm)"
    using In_Op apply_op_keys_from [OF _ prod.collapse [symmetric], of _ sm op] by simp
  with In_Op show ?thesis by (simp add: attest_events_def)
qed (auto simp: keys_from_def attest_events_def observe_defs)

lemma sm_run_keys_from: "keys_from (attest_events is) (sm_run is sm_new)"
proof (induction "is" rule: rev_induct)
  case Nil
  then show ?case by (simp add: keys_from_def sm_new_def)
next
  case (snoc i "is")
  then show ?case using sm_step_keys_from by simp
qed

subsection \<open>Properties\<close>

lemma revoked_then_transition:
  assumes "sm_inv sm" and "apply_op (Op_Revoke k h) sm = (Inr e, sm')"
  shows "\<not> is_ok (fst (apply_op (Op_Transition k new h c) (sm_run is sm')))"
proof -
  have "is_revoked sm' k h"
    using assms(2) by (auto simp: apply_ok is_revoked_def)
  then have "is_revoked (sm_run is sm') k h"
    using sm.run_forward [OF apply_op_inv [OF assms], of "is"] by (simp add: sm_leq_def)
  then show ?thesis
    by (auto simp: apply_transition_def split: option.splits)
qed

text \<open>The operations that name a key, as the key they read or write.\<close>

fun op_touches :: "PcrKey \<Rightarrow> Op \<Rightarrow> bool" where
  "op_touches k (Op_Register key _) \<longleftrightarrow> key = k"
| "op_touches k (Op_Pin key _ _) \<longleftrightarrow> key = k"
| "op_touches k (Op_Transition old_key new_key _ _) \<longleftrightarrow> old_key = k \<or> new_key = k"
| "op_touches k (Op_Revoke key _) \<longleftrightarrow> key = k"

lemma retired_refuses:
  assumes "sm_inv sm" and "k \<in> sm_retired sm" and "op_touches k op"
  shows "\<not> is_ok (fst (apply_op op sm))"
proof (cases "apply_op op sm")
  case (Pair r sm')
  with assms show ?thesis
    by (cases r; cases op) (auto simp: apply_ok sm_inv_def)
qed

lemma sm_run_new_inv: "sm_inv (sm_run is sm_new)"
  by (rule sm.run_inv [OF sm_new_inv])

text \<open>C22. Retirement is final. From a well-formed machine, once a key is retired no later
  sequence of operations and observations makes it current again, and every operation that
  names it (a Register, a Pin, a Transition from it or to it, a Revoke) is refused.\<close>

theorem retired_key_is_final:
  assumes "sm_inv sm" and "k \<in> sm_retired sm"
  shows "sm_get (sm_run is sm) k = None \<and>
    (\<forall>op. op_touches k op \<longrightarrow> \<not> is_ok (fst (apply_op op (sm_run is sm))))"
proof -
  have inv: "sm_inv (sm_run is sm)" by (rule sm.run_inv [OF assms(1)])
  moreover have "k \<in> sm_retired (sm_run is sm)"
    using sm.run_forward [OF assms(1), of "is"] assms(2) by (auto simp: sm_leq_def)
  ultimately show ?thesis
    using retired_refuses by (auto simp: sm_get_def sm_inv_def)
qed

lemma pin_version_advances:
  assumes "apply_op (Op_Pin k v c) sm = (Inr e, sm')"
  shows "ks_version e = v + 1 \<and> ks_commitment e = c \<and> sm_state sm' k = Some e"
  using assms by (auto simp: apply_ok)

lemma word_not_back:
  fixes v :: "64 word"
  assumes "n < 2 ^ 64 - 1"
  shows "v + 1 + of_nat n \<noteq> v"
proof
  assume "v + 1 + of_nat n = v"
  then have "of_nat (Suc n) = (0 :: 64 word)"
    by (simp add: algebra_simps)
  then have "2 ^ 64 dvd Suc n"
    unfolding word_of_nat_eq_0_iff by simp
  with assms show False by (auto dest: dvd_imp_le)
qed

lemma pinned_version_is_spent:
  assumes inv: "sm_inv sm" and pin: "apply_op (Op_Pin k v c) sm = (Inr e, sm')"
    and short: "length is < 2 ^ 64 - 1"
  shows "\<not> is_ok (fst (apply_op (Op_Pin k v c') (sm_run is sm')))"
proof -
  have inv': "sm_inv sm'" by (rule apply_op_inv [OF inv pin])
  note e = pin_version_advances [OF pin]
  have inv'': "sm_inv (sm_run is sm')" by (rule sm.run_inv [OF inv'])
  consider "k \<in> sm_retired (sm_run is sm')"
    | e' n where "sm_state (sm_run is sm') k = Some e'" "n \<le> length is"
        "ks_version e' = v + 1 + of_nat n"
    using sm_run_entry [OF inv', of k e "is"] e by auto
  then show ?thesis
  proof cases
    case 1
    then show ?thesis by (rule retired_refuses [OF inv'']) simp
  next
    case 2
    then have "ks_version e' \<noteq> v" using word_not_back short by simp
    with 2 show ?thesis by (simp add: apply_pin_def)
  qed
qed

text \<open>C2. Pins do not fork. Once a Pin against version \<open>v\<close> of a key is accepted, no later
  Pin of that key against the same version is accepted, whatever happens in between, for as
  long as fewer than \<open>2 ^ 64 - 1\<close> inputs separate them (the version is a 64-bit counter that
  the code increments without a check). So of two writers racing from one state, one wins.\<close>

theorem accepted_pins_do_not_fork:
  assumes inv: "sm_inv sm" and pin: "apply_op (Op_Pin k v c) sm = (Inr e, sm')"
    and short: "length is < 2 ^ 64 - 1"
  shows "\<not> is_ok (fst (apply_op (Op_Pin k v c') (sm_run is sm')))"
  by (rule pinned_version_is_spent [OF assms])

text \<open>Revocation is durable. After a Revoke of a link hash for a key is accepted, no later
  Transition away from that key that carries the same link hash is accepted, to whichever
  successor and with whatever attestations and authorizations observed in between.\<close>

theorem revoked_link_never_transitions:
  assumes "sm_inv sm" and "apply_op (Op_Revoke k h) sm = (Inr e, sm')"
  shows "\<not> is_ok (fst (apply_op (Op_Transition k new h c) (sm_run is sm')))"
  by (rule revoked_then_transition [OF assms])

text \<open>C23. A Transition hands the pin over intact. An accepted Transition names a precondition
  commitment equal to the predecessor's current one; the successor gets the predecessor's
  commitment and version with its own attested control key, the predecessor becomes retired,
  every other key keeps its entry, and the number of current keys does not change.\<close>

theorem transition_hands_over_pin:
  assumes "sm_inv sm" and "apply_op (Op_Transition old new h c) sm = (Inr e, sm')"
  shows "\<exists>cur. sm_get sm old = Some cur \<and> ks_commitment cur = c \<and>
    ks_commitment e = c \<and> ks_version e = ks_version cur \<and>
    sm_attested sm new = Some (ks_control_pubkey e) \<and>
    sm_get sm' new = Some e \<and> sm_get sm' old = None \<and> old \<in> sm_retired sm' \<and>
    (\<forall>k. k \<noteq> old \<and> k \<noteq> new \<longrightarrow> sm_get sm' k = sm_get sm k) \<and>
    card (dom (sm_state sm')) = card (dom (sm_state sm))"
proof -
  obtain cur pk where cur: "old \<noteq> new" "sm_state sm old = Some cur" "sm_state sm new = None"
      "sm_attested sm new = Some pk" "ks_commitment cur = c" "e = cur\<lparr>ks_control_pubkey := pk\<rparr>"
      "sm' = sm\<lparr>sm_state := (sm_state sm)(old := None, new \<mapsto> e),
                sm_retired := insert old (sm_retired sm)\<rparr>"
    using assms(2) by (auto simp: apply_ok)
  have "finite (dom (sm_state sm))" using assms(1) by (simp add: sm_inv_def)
  moreover have "old \<in> dom (sm_state sm)" "new \<notin> dom (sm_state sm)" using cur by auto
  ultimately have "card (insert new (dom (sm_state sm) - {old})) = card (dom (sm_state sm))"
    by (simp add: card_Diff_singleton card_gt_0_iff) (metis Suc_pred card_gt_0_iff empty_iff)
  with cur show ?thesis by (auto simp: sm_get_def)
qed

text \<open>C25. The machine refines the life cycle of a key. A fresh machine has every key unseen, and
  each input moves the keys by at most one step of the abstract contract: an unseen key becomes
  active at version 0, an active key is re-pinned with its version plus one, an active key is
  retired while an unseen key takes its entry over, or nothing changes.\<close>

theorem machine_refines_lifecycle:
  "phase_of sm_new = (\<lambda>_. Unseen) \<and> phase_step (phase_of sm) (phase_of (sm_step i sm))"
proof
  show "phase_of sm_new = (\<lambda>_. Unseen)" by (auto simp: phase_of_def sm_new_def)
qed (rule sm_step_phase_step)

text \<open>Snapshots lose nothing. Replaying the tail of a log over a restored snapshot of its
  head gives the machine that replaying the whole log gives, whatever machine the snapshot was
  installed over.\<close>

theorem snapshot_then_replay:
  "sm_run (drop n log) (restore_from_snapshot (snapshot (sm_run (take n log) sm)) other) =
    sm_run log sm"
  by (rule sm_ckpt.replay_from_snapshot) (rule refl)

text \<open>C24. Control keys are never substituted. In a machine reached from a fresh one, the control
  key frozen in the entry of a key was announced by an attestation of that same key, and for as
  long as the key stays current later attestations of it do not change the frozen control key.\<close>

theorem frozen_control_key:
  assumes "sm_get (sm_run is sm_new) k = Some e"
  shows "In_Attest k (ks_control_pubkey e) \<in> set is \<and>
    (\<forall>later e'. sm_get (sm_run (is @ later) sm_new) k = Some e' \<longrightarrow>
      ks_control_pubkey e' = ks_control_pubkey e)"
proof
  show "In_Attest k (ks_control_pubkey e) \<in> set is"
    using assms sm_run_keys_from [of "is"]
    by (auto simp: sm_get_def keys_from_def attest_events_def)
  have inv: "sm_inv (sm_run is' sm_new)" for is' by (rule sm_run_new_inv)
  have "sm_state (sm_run is sm_new) k = Some e" using assms by (simp add: sm_get_def)
  note run = sm_run_entry [OF inv this]
  show "\<forall>later e'. sm_get (sm_run (is @ later) sm_new) k = Some e' \<longrightarrow>
      ks_control_pubkey e' = ks_control_pubkey e"
  proof (intro allI impI)
    fix later e'
    assume "sm_get (sm_run (is @ later) sm_new) k = Some e'"
    then show "ks_control_pubkey e' = ks_control_pubkey e"
      using run [of later] inv [of "is @ later"] by (auto simp: sm_get_def sm_inv_def)
  qed
qed

subsection \<open>Witnesses\<close>

text \<open>A concrete machine: two attested keys, the first registered and pinned once, with an
  authorized hand-over to the second.\<close>

definition ex_key :: "byte \<Rightarrow> PcrKey" where
  "ex_key b = replicate 32 b"

definition ex_pubkey :: "byte \<Rightarrow> ControlPubkey" where
  "ex_pubkey b = 4 # replicate 64 b"

lemma ex_key_eq [simp]: "ex_key a = ex_key b \<longleftrightarrow> a = b"
  by (simp add: ex_key_def)

lemma ex_pubkey_eq [simp]: "ex_pubkey a = ex_pubkey b \<longleftrightarrow> a = b"
  by (simp add: ex_pubkey_def)

definition ex_inputs :: "SmInput list" where
  "ex_inputs =
     [In_Attest (ex_key 1) (ex_pubkey 1), In_Attest (ex_key 2) (ex_pubkey 2),
      In_Op (Op_Register (ex_key 1) (ex_key 10)), In_Op (Op_Pin (ex_key 1) 0 (ex_key 11)),
      In_Authorize (ex_key 1) (ex_key 2)]"

definition ex_machine :: StateMachine where
  "ex_machine = sm_run ex_inputs sm_new"

lemma ex_machine_inv: "sm_inv ex_machine"
  unfolding ex_machine_def by (rule sm_run_new_inv)

lemma ex_machine_eval:
  "ex_machine =
     \<lparr> sm_state = [ex_key 1 \<mapsto> \<lparr> ks_commitment = ex_key 11, ks_version = 1,
                                  ks_control_pubkey = ex_pubkey 1 \<rparr>],
       sm_attested = [ex_key 1 \<mapsto> ex_pubkey 1, ex_key 2 \<mapsto> ex_pubkey 2],
       sm_transition_authorizations = {(ex_key 1, ex_key 2)},
       sm_retired = {}, sm_revoked_links = Map.empty \<rparr>"
  by (simp add: ex_machine_def ex_inputs_def sm_new_def op_defs Let_def)

lemmas ex_machine_simps = ex_machine_eval op_defs is_revoked_def sm_get_def Let_def

theorem retired_key_is_final_witness:
  "let sm = sm_step (In_Op (Op_Transition (ex_key 1) (ex_key 2) (ex_key 7) (ex_key 11))) ex_machine
   in sm_inv sm \<and> ex_key 1 \<in> sm_retired sm \<and>
      \<not> is_ok (fst (apply_op (Op_Register (ex_key 1) (ex_key 10)) (sm_run ex_inputs sm)))"
proof -
  let ?sm = "sm_step (In_Op (Op_Transition (ex_key 1) (ex_key 2) (ex_key 7) (ex_key 11))) ex_machine"
  have "sm_inv ?sm" by (rule sm_step_inv [OF ex_machine_inv])
  moreover have "ex_key 1 \<in> sm_retired ?sm" by (simp add: ex_machine_simps)
  ultimately show ?thesis
    unfolding Let_def
    using retired_key_is_final [of ?sm "ex_key 1" ex_inputs] op_touches.simps(1) by blast
qed

theorem accepted_pins_do_not_fork_witness:
  "is_ok (fst (apply_op (Op_Pin (ex_key 1) 1 (ex_key 12)) ex_machine)) \<and>
   \<not> is_ok (fst (apply_op (Op_Pin (ex_key 1) 1 (ex_key 13))
       (sm_run ex_inputs (snd (apply_op (Op_Pin (ex_key 1) 1 (ex_key 12)) ex_machine)))))"
proof -
  obtain e sm' where pin: "apply_op (Op_Pin (ex_key 1) 1 (ex_key 12)) ex_machine = (Inr e, sm')"
    by (simp add: ex_machine_simps)
  have "length ex_inputs < 2 ^ 64 - 1" by (simp add: ex_inputs_def)
  with accepted_pins_do_not_fork [OF ex_machine_inv pin] pin show ?thesis by simp
qed

theorem revoked_link_never_transitions_witness:
  "is_ok (fst (apply_op (Op_Revoke (ex_key 1) (ex_key 7)) ex_machine)) \<and>
   \<not> is_ok (fst (apply_op (Op_Transition (ex_key 1) (ex_key 2) (ex_key 7) (ex_key 11))
       (sm_run ex_inputs (snd (apply_op (Op_Revoke (ex_key 1) (ex_key 7)) ex_machine)))))"
proof -
  obtain e sm' where "apply_op (Op_Revoke (ex_key 1) (ex_key 7)) ex_machine = (Inr e, sm')"
    by (simp add: ex_machine_simps)
  with revoked_link_never_transitions [OF ex_machine_inv this] show ?thesis by simp
qed

theorem transition_hands_over_pin_witness:
  "\<exists>e sm'. apply_op (Op_Transition (ex_key 1) (ex_key 2) (ex_key 7) (ex_key 11)) ex_machine =
     (Inr e, sm') \<and> ks_commitment e = ex_key 11 \<and> ex_key 1 \<in> sm_retired sm'"
proof -
  obtain e sm' where
    "apply_op (Op_Transition (ex_key 1) (ex_key 2) (ex_key 7) (ex_key 11)) ex_machine = (Inr e, sm')"
    by (simp add: ex_machine_simps)
  with transition_hands_over_pin [OF ex_machine_inv this] show ?thesis by blast
qed

theorem frozen_control_key_witness:
  "\<exists>e. sm_get (sm_run ex_inputs sm_new) (ex_key 1) = Some e \<and>
     In_Attest (ex_key 1) (ks_control_pubkey e) \<in> set ex_inputs"
proof -
  obtain e where "sm_get (sm_run ex_inputs sm_new) (ex_key 1) = Some e"
    unfolding ex_machine_def [symmetric] by (simp add: ex_machine_simps)
  with frozen_control_key [OF this] show ?thesis by blast
qed

end
