(* ===== verification/Wire.thy ===== *)
theory Wire
  imports State_Machine Chain_Descent
begin

text \<open>
  The synchronizer's wire protocol, \<open>synchronizer/src/wire.rs\<close>: capability negotiation, requests,
  responses and their error codes, the client's check of the server's attestation, and the two pure
  verifiers a node runs before it touches its state machine (transition links and revocation
  links). Timestamps are trusted milliseconds in a \<open>u64\<close>; the comparisons the code makes in
  \<open>i128\<close> are made in \<open>int\<close>.
\<close>

subsection \<open>Negotiation\<close>

definition PROTOCOL_VERSION :: u32 where "PROTOCOL_VERSION = 1"

definition CAPABILITY_REVOCATION :: string where "CAPABILITY_REVOCATION = ''revocation''"

definition SUPPORTED_CAPABILITIES :: "string list" where
  "SUPPORTED_CAPABILITIES = [CAPABILITY_REVOCATION]"

definition supported_capabilities :: "string set" where
  "supported_capabilities = set SUPPORTED_CAPABILITIES"

definition negotiate_capabilities :: "string set \<Rightarrow> string set" where
  "negotiate_capabilities peer = set (filter (\<lambda>c. c \<in> peer) SUPPORTED_CAPABILITIES)"

record PeerProtocol =
  peer_version :: u32
  peer_capabilities :: "string set"

definition peer_from_advertised :: "u32 \<Rightarrow> string set \<Rightarrow> PeerProtocol" where
  "peer_from_advertised version capabilities =
     \<lparr> peer_version = version, peer_capabilities = negotiate_capabilities capabilities \<rparr>"

definition peer_supports :: "PeerProtocol \<Rightarrow> string \<Rightarrow> bool" where
  "peer_supports p capability \<longleftrightarrow> capability \<in> peer_capabilities p"

subsection \<open>Requests and responses\<close>

datatype Request =
    Req_Get PcrKey
  | Req_Register PcrKey Commitment
  | Req_Pin PcrKey Version Commitment
  | Req_Transition ChainLink Commitment
  | Req_Revoke ChainLink

datatype RpcError =
    Rpc_Unauthorized
  | Rpc_NotFound
  | Rpc_AlreadyRegistered
  | Rpc_TransitionRejected
  | Rpc_OperationRejected
  | Rpc_VersionConflict
  | Rpc_Unavailable
  | Rpc_TransitionRevoked
  | Rpc_RevocationRejected
  | Rpc_TransitionCommitmentMismatch

datatype Response =
    GetOk Commitment Version
  | RegisterOk
  | PinOk Version
  | TransitionOk Version
  | RevokeOk
  | Resp_Err RpcError

fun rpc_error_from :: "ValidationError \<Rightarrow> RpcError" where
  "rpc_error_from NotAttested = Rpc_TransitionRejected"
| "rpc_error_from NewKeyNotAttested = Rpc_TransitionRejected"
| "rpc_error_from NoTransitionAuthorization = Rpc_TransitionRejected"
| "rpc_error_from NewKeyAlreadyExists = Rpc_TransitionRejected"
| "rpc_error_from OldKeyEqualsNew = Rpc_TransitionRejected"
| "rpc_error_from TransitionRevoked = Rpc_TransitionRevoked"
| "rpc_error_from CommitmentMismatch = Rpc_TransitionCommitmentMismatch"
| "rpc_error_from KeyNotCurrent = Rpc_NotFound"
| "rpc_error_from (StalePin _ _) = Rpc_VersionConflict"
| "rpc_error_from AlreadyRegistered = Rpc_AlreadyRegistered"
| "rpc_error_from KeyRetired = Rpc_OperationRejected"

subsection \<open>The server's attestation\<close>

datatype ServerPcrPolicy = Expected "Pcrs list"

fun policy_admits :: "ServerPcrPolicy \<Rightarrow> Pcrs \<Rightarrow> bool" where
  "policy_admits (Expected expected) pcrs \<longleftrightarrow> (\<exists>e \<in> set expected. e = pcrs)"

datatype ServerAuthError = ServerAttestation AttestationError | PcrRejected

fun server_auth_reason :: "ServerAuthError \<Rightarrow> RejectionReason" where
  "server_auth_reason (ServerAttestation e) = attestation_error_reason e"
| "server_auth_reason PcrRejected = PcrMismatch"

fun verify_server_attestation ::
    "'x NitroExt_scheme \<Rightarrow> bytes \<Rightarrow> bytes \<Rightarrow> ServerPcrPolicy \<Rightarrow> bool \<Rightarrow> int \<Rightarrow> ServerAuthError + Pcrs" where
  "verify_server_attestation X nsm_doc handshake_hash (Expected expected) debug_mode clock =
     and_then (map_err ServerAttestation
                (validate_session X nsm_doc handshake_hash debug_mode clock)) (\<lambda>doc.
       case require_pcrs_in doc expected of
         Inr pcrs \<Rightarrow> Inr pcrs
       | Inl PcrsNotExpected \<Rightarrow> Inl PcrRejected
       | Inl e \<Rightarrow> Inl (ServerAttestation e))"

subsection \<open>Transition links\<close>

datatype TransitionLinkError =
    TL_NotAnUpgradeLink ChainLinkKind
  | TL_MissingSignature
  | TL_SignatureShape
  | TL_BadControlPubkey
  | TL_SignatureInvalid
  | TL_PayloadDecode
  | TL_Attestation AttestationError
  | TL_SessionKeyMismatch
  | TL_SelfTransition
  | TL_NotYetValid int u64
  | TL_Expired int u64
  | TL_WindowInvalid

definition TRANSITION_CLOCK_TOLERANCE_MS :: u64 where
  "TRANSITION_CLOCK_TOLERANCE_MS = 60000"

definition past_valid_until :: "u64 \<Rightarrow> int \<Rightarrow> bool" where
  "past_valid_until now_ms valid_until_ms \<longleftrightarrow>
     uint now_ms > valid_until_ms + uint TRANSITION_CLOCK_TOLERANCE_MS"

fun transition_attestation_reason :: "TransitionLinkError \<Rightarrow> RejectionReason option" where
  "transition_attestation_reason (TL_Attestation e) = Some (attestation_error_reason e)"
| "transition_attestation_reason _ = None"

record DecodedTransition =
  dt_old_key :: PcrKey
  dt_new_key :: PcrKey

record VerifiedTransition =
  vt_old_key :: PcrKey
  vt_new_key :: PcrKey
  vt_link_hash :: bytes
  vt_valid_until_ms :: int

definition decode_transition_link ::
    "'x ChainExt_scheme \<Rightarrow> ChainLink \<Rightarrow> TransitionLinkError + DecodedTransition" where
  "decode_transition_link X link =
     (if cl_kind link \<noteq> Upgrade then Inl (TL_NotAnUpgradeLink (cl_kind link))
      else if cl_signature link = None then Inl TL_MissingSignature
      else and_then (map_err (\<lambda>_. TL_PayloadDecode) (decode_upgrade X (cl_payload link))) (\<lambda>payload.
        Inr \<lparr> dt_old_key = pin_key (sha256 X) (up_from payload),
              dt_new_key = pin_key (sha256 X) (up_to payload) \<rparr>))"

text \<open>\<open>DateTime::timestamp_millis\<close>, rounding down.\<close>

definition timestamp_millis :: "DateTime \<Rightarrow> int" where
  "timestamp_millis t = t div 1000000"

fun transition_signature_error :: "ControlSignatureError \<Rightarrow> TransitionLinkError" where
  "transition_signature_error SigShape = TL_SignatureShape"
| "transition_signature_error SigInvalid = TL_SignatureInvalid"

definition verify_transition_link ::
    "'x ChainExt_scheme \<Rightarrow> ChainLink \<Rightarrow> DecodedTransition \<Rightarrow> PcrKey \<Rightarrow> bytes \<Rightarrow> bool \<Rightarrow> u64 \<Rightarrow>
      TransitionLinkError + VerifiedTransition" where
  "verify_transition_link X link decoded session_key old_control_pubkey debug_mode now_ms =
     (if dt_new_key decoded \<noteq> session_key then Inl TL_SessionKeyMismatch
      else if dt_new_key decoded = dt_old_key decoded then Inl TL_SelfTransition
      else and_then (ok_or TL_MissingSignature (cl_signature link)) (\<lambda>sig_bytes.
      and_then (ensure (p256_from_sec1 X old_control_pubkey) TL_BadControlPubkey) (\<lambda>_.
      and_then (map_err transition_signature_error
                 (verify_control_signature X old_control_pubkey UpgradePayloadDomain
                    (cl_payload link) sig_bytes)) (\<lambda>_.
      and_then (map_err (\<lambda>_. TL_PayloadDecode) (decode_upgrade X (cl_payload link))) (\<lambda>payload.
      if \<not> upgrade_window_is_valid (up_valid_from payload) (up_valid_until payload)
      then Inl TL_WindowInvalid
      else
        let valid_from_ms = timestamp_millis (up_valid_from payload);
            earliest_ms = valid_from_ms - uint TRANSITION_CLOCK_TOLERANCE_MS
        in if uint now_ms < earliest_ms then Inl (TL_NotYetValid valid_from_ms now_ms)
        else
          let valid_until_ms = timestamp_millis (up_valid_until payload)
          in if past_valid_until now_ms valid_until_ms then Inl (TL_Expired valid_until_ms now_ms)
          else and_then (map_err TL_Attestation
                 (and_then (validate_chain_link X (cl_attestation link) (cl_payload link) debug_mode)
                    (\<lambda>doc. require_identity doc (up_from payload)))) (\<lambda>_.
            Inr \<lparr> vt_old_key = dt_old_key decoded, vt_new_key = dt_new_key decoded,
                  vt_link_hash = upgrade_link_hash X (cl_payload link),
                  vt_valid_until_ms = valid_until_ms \<rparr>))))))"

subsection \<open>Revocation links\<close>

datatype RevocationLinkError =
    RL_NotARevocationLink ChainLinkKind
  | RL_MissingSignature
  | RL_SignatureShape
  | RL_BadControlPubkey
  | RL_SignatureInvalid
  | RL_PayloadDecode

record VerifiedRevocation =
  vr_link_hash :: bytes

fun revocation_signature_error :: "ControlSignatureError \<Rightarrow> RevocationLinkError" where
  "revocation_signature_error SigShape = RL_SignatureShape"
| "revocation_signature_error SigInvalid = RL_SignatureInvalid"

definition verify_revocation_link ::
    "'x ChainExt_scheme \<Rightarrow> ChainLink \<Rightarrow> bytes \<Rightarrow> RevocationLinkError + VerifiedRevocation" where
  "verify_revocation_link X link pubkey =
     (if cl_kind link \<noteq> Revocation then Inl (RL_NotARevocationLink (cl_kind link))
      else and_then (ok_or RL_MissingSignature (cl_signature link)) (\<lambda>sig_bytes.
      and_then (ensure (p256_from_sec1 X pubkey) RL_BadControlPubkey) (\<lambda>_.
      and_then (map_err revocation_signature_error
                 (verify_control_signature X pubkey RevocationPayloadDomain
                    (cl_payload link) sig_bytes)) (\<lambda>_.
      and_then (map_err (\<lambda>_. RL_PayloadDecode) (decode_revocation X (cl_payload link))) (\<lambda>payload.
        Inr \<lparr> vr_link_hash = rp_revokes_link payload \<rparr>)))))"

subsection \<open>What a verified link proves\<close>

lemma decode_transition_link_Inr:
  "decode_transition_link X link = Inr d \<longleftrightarrow>
     cl_kind link = Upgrade \<and> cl_signature link \<noteq> None \<and>
     (\<exists>u. decode_upgrade X (cl_payload link) = Inr u \<and>
       d = \<lparr> dt_old_key = pin_key (sha256 X) (up_from u), dt_new_key = pin_key (sha256 X) (up_to u) \<rparr>)"
  by (auto simp: decode_transition_link_def and_then_Inr_iff map_err_Inr_iff)

lemma tolerance_ms: "uint TRANSITION_CLOCK_TOLERANCE_MS = 60000"
  by (simp add: TRANSITION_CLOCK_TOLERANCE_MS_def)

lemma verify_transition_link_Inr:
  "verify_transition_link X link d session key debug_mode now = Inr v \<longleftrightarrow>
     dt_new_key d = session \<and> dt_old_key d \<noteq> session \<and>
     (\<exists>sig u doc. cl_signature link = Some sig \<and> p256_from_sec1 X key \<and> p256_sig_from_slice X sig \<and>
       p256_verify X key (signed_message UpgradePayloadDomain (cl_payload link)) sig \<and>
       decode_upgrade X (cl_payload link) = Inr u \<and>
       up_valid_until u - up_valid_from u \<ge> UPGRADE_WINDOW_MIN \<and>
       timestamp_millis (up_valid_from u) - 60000 \<le> uint now \<and>
       uint now \<le> timestamp_millis (up_valid_until u) + 60000 \<and>
       validate_chain_link X (cl_attestation link) (cl_payload link) debug_mode = Inr doc \<and>
       va_identity doc = up_from u \<and>
       v = \<lparr> vt_old_key = dt_old_key d, vt_new_key = dt_new_key d,
             vt_link_hash = sha256 X (cl_payload link),
             vt_valid_until_ms = timestamp_millis (up_valid_until u) \<rparr>)"
  unfolding verify_transition_link_def Let_def
  by (auto simp: and_then_Inr_iff map_err_Inr_iff ok_or_Inr_iff ensure_Inr_iff
      verify_control_signature_Inr_iff require_identity_Inr_iff upgrade_window_is_valid_def
      past_valid_until_def tolerance_ms upgrade_link_hash_def not_less)

lemma verify_revocation_link_Inr:
  "verify_revocation_link X link key = Inr v \<longleftrightarrow>
     cl_kind link = Revocation \<and> p256_from_sec1 X key \<and>
     (\<exists>sig p. cl_signature link = Some sig \<and> p256_sig_from_slice X sig \<and>
       p256_verify X key (signed_message RevocationPayloadDomain (cl_payload link)) sig \<and>
       decode_revocation X (cl_payload link) = Inr p \<and> v = \<lparr> vr_link_hash = rp_revokes_link p \<rparr>)"
  unfolding verify_revocation_link_def
  by (auto simp: and_then_Inr_iff map_err_Inr_iff ok_or_Inr_iff ensure_Inr_iff
      verify_control_signature_Inr_iff)

text \<open>C28. What a verified transition proves. A node verifies a transition link only if the submitting
  session is the successor the payload names and differs from the predecessor; the predecessor's
  frozen control key signed exactly this payload in the upgrade domain; the payload's window is at
  least an hour and the node's trusted time lies inside it up to a minute at either end; and, in a
  production build, an AWS-rooted document of the predecessor's full identity binds the hash of the
  payload. The keys and the link hash handed to the state machine are those of the signed payload.\<close>

theorem verified_transition_is_authorized:
  assumes "decode_transition_link X link = Inr d"
    and "verify_transition_link X link d session key debug_mode now = Inr v"
    and "\<not> (debug_mode \<and> skip_chain_compiled X)"
  shows "\<exists>u sig doc. decode_upgrade X (cl_payload link) = Inr u \<and> cl_kind link = Upgrade \<and>
    vt_old_key v = pin_key (sha256 X) (up_from u) \<and> vt_new_key v = pin_key (sha256 X) (up_to u) \<and>
    vt_new_key v = session \<and> vt_old_key v \<noteq> session \<and> vt_link_hash v = sha256 X (cl_payload link) \<and>
    cl_signature link = Some sig \<and>
    p256_verify X key (signed_message UpgradePayloadDomain (cl_payload link)) sig \<and>
    up_valid_until u - up_valid_from u \<ge> HOUR \<and>
    timestamp_millis (up_valid_from u) - 60000 \<le> uint now \<and>
    uint now \<le> timestamp_millis (up_valid_until u) + 60000 \<and>
    chain_checked X AWS_NITRO_ROOT_CA_DER (cl_attestation link) doc \<and>
    from_doc_pcrs (doc_pcrs doc) = Inr (up_from u) \<and>
    doc_user_data doc = Some (sha256 X (cl_payload link))"
proof -
  obtain sig u a where v: "dt_new_key d = session" "dt_old_key d \<noteq> session" "cl_signature link = Some sig"
      "p256_verify X key (signed_message UpgradePayloadDomain (cl_payload link)) sig"
      "decode_upgrade X (cl_payload link) = Inr u"
      "up_valid_until u - up_valid_from u \<ge> UPGRADE_WINDOW_MIN"
      "timestamp_millis (up_valid_from u) - 60000 \<le> uint now"
      "uint now \<le> timestamp_millis (up_valid_until u) + 60000"
      "validate_chain_link X (cl_attestation link) (cl_payload link) debug_mode = Inr a"
      "va_identity a = up_from u"
      "v = \<lparr> vt_old_key = dt_old_key d, vt_new_key = dt_new_key d,
             vt_link_hash = sha256 X (cl_payload link),
             vt_valid_until_ms = timestamp_millis (up_valid_until u) \<rparr>"
    using assms(2) unfolding verify_transition_link_Inr by blast
  have d: "cl_kind link = Upgrade" "dt_old_key d = pin_key (sha256 X) (up_from u)"
      "dt_new_key d = pin_key (sha256 X) (up_to u)"
    using assms(1) v(5) by (auto simp: decode_transition_link_Inr)
  obtain doc where "chain_checked X AWS_NITRO_ROOT_CA_DER (cl_attestation link) doc"
      "from_doc_pcrs (doc_pcrs doc) = Inr (up_from u)"
      "doc_user_data doc = Some (sha256 X (cl_payload link))"
    using validate_chain_link_production [OF assms(3) v(9)] v(10) by auto
  with v d show ?thesis
    by (intro exI [of _ u] exI [of _ sig] exI [of _ doc]) (simp add: UPGRADE_WINDOW_MIN_def)
qed


subsection \<open>Witnesses\<close>

definition ex_upgrade_link :: ChainLink where
  "ex_upgrade_link = rl_link (ex_signed Upgrade UpgradePayloadDomain [2])"

definition ex_link_keys :: DecodedTransition where
  "ex_link_keys = \<lparr> dt_old_key = pin_key ex_pad ex_identity, dt_new_key = pin_key ex_pad ex_to \<rparr>"

lemma ex_decodes: "decode_transition_link ex_chain ex_upgrade_link = Inr ex_link_keys"
  by code_simp

lemma ex_verifies:
  "is_ok (verify_transition_link ex_chain ex_upgrade_link ex_link_keys
     (pin_key ex_pad ex_to) [5] False 1000)"
  by code_simp

theorem verified_transition_is_authorized_witness:
  "\<exists>v. verify_transition_link ex_chain ex_upgrade_link ex_link_keys
      (pin_key ex_pad ex_to) [5] False 1000 = Inr v \<and>
    vt_new_key v = pin_key ex_pad ex_to \<and> vt_old_key v \<noteq> pin_key ex_pad ex_to"
proof -
  obtain v where v: "verify_transition_link ex_chain ex_upgrade_link ex_link_keys
      (pin_key ex_pad ex_to) [5] False 1000 = Inr v"
    using ex_verifies unfolding is_ok_iff by blast
  from verified_transition_is_authorized [OF ex_decodes v] v show ?thesis by blast
qed

end
