(* ===== verification/Node.thy ===== *)
theory Node
  imports Wire
begin

text \<open>
  The single-node synchronizer, \<open>synchronizer/src/node.rs\<close>: one handler per request, run against
  the state machine the node owns. A handler takes the request's effects on the lock-protected
  state as explicit state passing. Trusted time is an input of each request (\<open>None\<close> when the NSM
  gave none).
\<close>

record Node =
  node_inner :: StateMachine
  node_debug_mode :: bool

definition node_with_debug_mode :: "bool \<Rightarrow> Node" where
  "node_with_debug_mode debug_mode = \<lparr> node_inner = sm_new, node_debug_mode = debug_mode \<rparr>"

definition node_new :: Node where
  "node_new = node_with_debug_mode False"

definition node_observe_attestation :: "PcrKey \<Rightarrow> ControlPubkey \<Rightarrow> Node \<Rightarrow> Node" where
  "node_observe_attestation key pubkey node =
     node\<lparr> node_inner := observe_attestation key pubkey (node_inner node) \<rparr>"

definition node_observe_transition :: "PcrKey \<Rightarrow> PcrKey \<Rightarrow> Node \<Rightarrow> Node" where
  "node_observe_transition old_key new_key node =
     node\<lparr> node_inner := observe_transition old_key new_key (node_inner node) \<rparr>"

definition node_handle_get :: "PcrKey \<Rightarrow> PcrKey \<Rightarrow> Node \<Rightarrow> Response \<times> Node" where
  "node_handle_get session_key key node =
     (if key \<noteq> session_key then (Resp_Err Rpc_Unauthorized, node)
      else (case sm_get (node_inner node) key of
        Some state \<Rightarrow> (GetOk (ks_commitment state) (ks_version state), node)
      | None \<Rightarrow> (Resp_Err Rpc_NotFound, node)))"

definition node_handle_register :: "PcrKey \<Rightarrow> PcrKey \<Rightarrow> Commitment \<Rightarrow> Node \<Rightarrow> Response \<times> Node" where
  "node_handle_register session_key key commitment node =
     (if key \<noteq> session_key then (Resp_Err Rpc_Unauthorized, node)
      else (case apply_op (Op_Register key commitment) (node_inner node) of
        (Inr _, sm) \<Rightarrow> (RegisterOk, node\<lparr> node_inner := sm \<rparr>)
      | (Inl e, sm) \<Rightarrow> (Resp_Err (rpc_error_from e), node\<lparr> node_inner := sm \<rparr>)))"

definition node_handle_pin ::
    "PcrKey \<Rightarrow> PcrKey \<Rightarrow> Version \<Rightarrow> Commitment \<Rightarrow> Node \<Rightarrow> Response \<times> Node" where
  "node_handle_pin session_key key expected_version commitment node =
     (if key \<noteq> session_key then (Resp_Err Rpc_Unauthorized, node)
      else (case apply_op (Op_Pin key expected_version commitment) (node_inner node) of
        (Inr state, sm) \<Rightarrow> (PinOk (ks_version state), node\<lparr> node_inner := sm \<rparr>)
      | (Inl e, sm) \<Rightarrow> (Resp_Err (rpc_error_from e), node\<lparr> node_inner := sm \<rparr>)))"

definition node_handle_transition ::
    "'x ChainExt_scheme \<Rightarrow> u64 option \<Rightarrow> PcrKey \<Rightarrow> ChainLink \<Rightarrow> Commitment \<Rightarrow> Node \<Rightarrow>
      Response \<times> Node" where
  "node_handle_transition X trusted_now session_key link commitment node =
     (case trusted_now of
        None \<Rightarrow> (Resp_Err Rpc_Unavailable, node)
      | Some now_ms \<Rightarrow>
      (case decode_transition_link X link of
        Inl _ \<Rightarrow> (Resp_Err Rpc_TransitionRejected, node)
      | Inr decoded \<Rightarrow>
      (case sm_get (node_inner node) (dt_old_key decoded) of
        None \<Rightarrow> (Resp_Err Rpc_TransitionRejected, node)
      | Some old \<Rightarrow>
      (case verify_transition_link X link decoded session_key (ks_control_pubkey old)
              (node_debug_mode node) now_ms of
        Inl _ \<Rightarrow> (Resp_Err Rpc_TransitionRejected, node)
      | Inr verified \<Rightarrow>
          let observed = observe_transition (vt_old_key verified) (vt_new_key verified)
                           (node_inner node)
          in (case apply_op (Op_Transition (vt_old_key verified) (vt_new_key verified)
                       (vt_link_hash verified) commitment) observed of
                (Inr state, sm) \<Rightarrow> (TransitionOk (ks_version state), node\<lparr> node_inner := sm \<rparr>)
              | (Inl KeyNotCurrent, sm) \<Rightarrow>
                  (Resp_Err Rpc_TransitionRejected, node\<lparr> node_inner := sm \<rparr>)
              | (Inl e, sm) \<Rightarrow> (Resp_Err (rpc_error_from e), node\<lparr> node_inner := sm \<rparr>))))))"

definition node_handle_revoke ::
    "'x ChainExt_scheme \<Rightarrow> PcrKey \<Rightarrow> ChainLink \<Rightarrow> Node \<Rightarrow> Response \<times> Node" where
  "node_handle_revoke X session_key link node =
     (case sm_get (node_inner node) session_key of
        None \<Rightarrow> (Resp_Err Rpc_RevocationRejected, node)
      | Some state \<Rightarrow>
      (case verify_revocation_link X link (ks_control_pubkey state) of
        Inl _ \<Rightarrow> (Resp_Err Rpc_RevocationRejected, node)
      | Inr verified \<Rightarrow>
      (case apply_op (Op_Revoke session_key (vr_link_hash verified)) (node_inner node) of
        (Inr _, sm) \<Rightarrow> (RevokeOk, node\<lparr> node_inner := sm \<rparr>)
      | (Inl _, sm) \<Rightarrow> (Resp_Err Rpc_RevocationRejected, node\<lparr> node_inner := sm \<rparr>))))"

fun node_handle_request ::
    "'x ChainExt_scheme \<Rightarrow> u64 option \<Rightarrow> PcrKey \<Rightarrow> Request \<Rightarrow> Node \<Rightarrow> Response \<times> Node" where
  "node_handle_request X now session_key (Req_Get key) node = node_handle_get session_key key node"
| "node_handle_request X now session_key (Req_Register key commitment) node =
     node_handle_register session_key key commitment node"
| "node_handle_request X now session_key (Req_Pin key expected_version commitment) node =
     node_handle_pin session_key key expected_version commitment node"
| "node_handle_request X now session_key (Req_Transition link commitment) node =
     node_handle_transition X now session_key link commitment node"
| "node_handle_request X now session_key (Req_Revoke link) node =
     node_handle_revoke X session_key link node"

subsection \<open>Requests as state-machine inputs\<close>

text \<open>What a node is driven by: the listener's attestation of a session, or one request.\<close>

datatype NodeInput =
    NI_Attest PcrKey ControlPubkey
  | NI_Request "u64 option" PcrKey Request

fun node_step :: "'x ChainExt_scheme \<Rightarrow> NodeInput \<Rightarrow> Node \<Rightarrow> Node" where
  "node_step X (NI_Attest key pk) node = node_observe_attestation key pk node"
| "node_step X (NI_Request now session_key req) node =
     snd (node_handle_request X now session_key req node)"

abbreviation node_run :: "'x ChainExt_scheme \<Rightarrow> NodeInput list \<Rightarrow> Node \<Rightarrow> Node" where
  "node_run X \<equiv> fold (node_step X)"

lemma op_result_cases:
  obtains e where "apply_op op sm = (Inl e, sm)" | st sm' where "apply_op op sm = (Inr st, sm')"
proof (cases "apply_op op sm")
  case (Pair r sm')
  then show thesis
    using that apply_op_error_unchanged by (cases r) auto
qed

text \<open>A transition request either answers an error and at most records an authorization, or it is
  one verified and accepted \<open>Transition\<close>.\<close>

lemma node_transition_cases:
  assumes "node_handle_transition X now session link c node = (resp, node')"
  obtains (refused) err "is" where "resp = Resp_Err err"
      "node' = node\<lparr> node_inner := sm_run is (node_inner node) \<rparr>"
      "is = [] \<or> (\<exists>old new. is = [In_Authorize old new])"
  | (accepted) now_ms d old v st sm' where "now = Some now_ms" "decode_transition_link X link = Inr d"
      "sm_get (node_inner node) (dt_old_key d) = Some old"
      "verify_transition_link X link d session (ks_control_pubkey old) (node_debug_mode node) now_ms = Inr v"
      "apply_op (Op_Transition (vt_old_key v) (vt_new_key v) (vt_link_hash v) c)
         (observe_transition (vt_old_key v) (vt_new_key v) (node_inner node)) = (Inr st, sm')"
      "resp = TransitionOk (ks_version st)" "node' = node\<lparr> node_inner := sm' \<rparr>"
proof (cases "\<exists>now_ms d old v. now = Some now_ms \<and> decode_transition_link X link = Inr d \<and>
      sm_get (node_inner node) (dt_old_key d) = Some old \<and>
      verify_transition_link X link d session (ks_control_pubkey old) (node_debug_mode node) now_ms = Inr v")
  case False
  have "\<exists>err. node_handle_transition X now session link c node = (Resp_Err err, node)"
  proof (cases now)
    case (Some now_ms)
    note now = Some
    show ?thesis
    proof (cases "decode_transition_link X link")
      case (Inr d)
      note d = Inr
      show ?thesis
      proof (cases "sm_get (node_inner node) (dt_old_key d)")
        case (Some old)
        with now d False have "\<nexists>v. verify_transition_link X link d session (ks_control_pubkey old)
            (node_debug_mode node) now_ms = Inr v" by blast
        then obtain e where "verify_transition_link X link d session (ks_control_pubkey old)
            (node_debug_mode node) now_ms = Inl e" by (metis sum.exhaust)
        with now d Some show ?thesis by (simp add: node_handle_transition_def)
      qed (simp add: node_handle_transition_def now d)
    qed (simp add: node_handle_transition_def now)
  qed (simp add: node_handle_transition_def)
  with assms have "\<exists>err. resp = Resp_Err err" "node' = node" by auto
  then show thesis
    by (elim exE, intro refused [of _ "[]"]) simp_all
next
  case True
  then obtain now_ms d old v where pre: "now = Some now_ms" "decode_transition_link X link = Inr d"
    "sm_get (node_inner node) (dt_old_key d) = Some old"
    "verify_transition_link X link d session (ks_control_pubkey old) (node_debug_mode node) now_ms = Inr v"
    by blast
  let ?op = "Op_Transition (vt_old_key v) (vt_new_key v) (vt_link_hash v) c"
  let ?sm = "observe_transition (vt_old_key v) (vt_new_key v) (node_inner node)"
  show thesis
  proof (rule op_result_cases [of ?op ?sm])
    fix e assume e: "apply_op ?op ?sm = (Inl e, ?sm)"
    have "\<exists>err. node_handle_transition X now session link c node =
        (Resp_Err err, node\<lparr> node_inner := ?sm \<rparr>)"
      using pre e by (cases e) (simp_all add: node_handle_transition_def Let_def)
    with assms have "\<exists>err. resp = Resp_Err err" "node' = node\<lparr> node_inner := ?sm \<rparr>" by auto
    then show thesis
      by (elim exE, intro refused [of _ "[In_Authorize (vt_old_key v) (vt_new_key v)]"]) simp_all
  next
    fix st sm' assume "apply_op ?op ?sm = (Inr st, sm')"
    with assms pre show thesis
      by (intro accepted [OF pre]) (auto simp: node_handle_transition_def Let_def)
  qed
qed

lemma node_request_inputs:
  assumes "node_handle_request X now session req node = (resp, node')"
  shows "\<exists>is. length is \<le> 2 \<and> node' = node\<lparr> node_inner := sm_run is (node_inner node) \<rparr>"
proof (cases req)
  case (Req_Get k)
  with assms show ?thesis
    by (intro exI [of _ "[]"]) (auto simp: node_handle_get_def split: if_splits option.splits)
next
  case (Req_Register k c)
  with assms show ?thesis
    by (intro exI [of _ "if k = session then [In_Op (Op_Register k c)] else []"])
      (auto simp: node_handle_register_def split: if_splits prod.splits sum.splits)
next
  case (Req_Pin k v c)
  with assms show ?thesis
    by (intro exI [of _ "if k = session then [In_Op (Op_Pin k v c)] else []"])
      (auto simp: node_handle_pin_def split: if_splits prod.splits sum.splits)
next
  case (Req_Transition link c)
  with assms have "node_handle_transition X now session link c node = (resp, node')" by simp
  then show ?thesis
  proof (cases rule: node_transition_cases)
    case (refused err "is")
    then show ?thesis by (intro exI [of _ "is"]) auto
  next
    case (accepted now_ms d old v st sm')
    then show ?thesis
      by (intro exI [of _ "[In_Authorize (vt_old_key v) (vt_new_key v),
        In_Op (Op_Transition (vt_old_key v) (vt_new_key v) (vt_link_hash v) c)]"]) simp
  qed
next
  case (Req_Revoke link)
  show ?thesis
  proof (cases "\<exists>st v. sm_get (node_inner node) session = Some st \<and>
      verify_revocation_link X link (ks_control_pubkey st) = Inr v")
    case True
    then obtain st v where "sm_get (node_inner node) session = Some st"
      "verify_revocation_link X link (ks_control_pubkey st) = Inr v" by blast
    with assms Req_Revoke show ?thesis
      by (intro exI [of _ "[In_Op (Op_Revoke session (vr_link_hash v))]"])
        (auto simp: node_handle_revoke_def split: prod.splits sum.splits)
  next
    case False
    with assms Req_Revoke show ?thesis
      by (intro exI [of _ "[]"])
        (auto simp: node_handle_revoke_def split: option.splits sum.splits)
  qed
qed

definition node_inv :: "Node \<Rightarrow> bool" where
  "node_inv node \<longleftrightarrow> sm_inv (node_inner node)"

definition node_leq :: "Node \<Rightarrow> Node \<Rightarrow> bool" where
  "node_leq m n \<longleftrightarrow> sm_leq (node_inner m) (node_inner n) \<and> node_debug_mode m = node_debug_mode n"

lemma node_step_inputs:
  "\<exists>is. length is \<le> 2 \<and> node_step X i node = node\<lparr> node_inner := sm_run is (node_inner node) \<rparr>"
proof (cases i)
  case (NI_Attest key pk)
  then show ?thesis
    by (intro exI [of _ "[In_Attest key pk]"]) (simp add: node_observe_attestation_def)
next
  case (NI_Request now session req)
  then show ?thesis
    using node_request_inputs [of X now session req node]
    by (cases "node_handle_request X now session req node") simp
qed

interpretation nd: forward_steps "node_step X" node_inv node_leq for X
proof unfold_locales
  fix i node
  obtain "is" where st: "node_step X i node = node\<lparr> node_inner := sm_run is (node_inner node) \<rparr>"
    using node_step_inputs by blast
  show "node_inv node \<Longrightarrow> node_inv (node_step X i node)"
    by (simp add: st node_inv_def sm.run_inv)
  show "node_inv node \<Longrightarrow> node_leq node (node_step X i node)"
    by (simp add: st node_inv_def node_leq_def sm.run_forward)
next
  show "node_leq n n" for n by (simp add: node_leq_def sm.leq_refl)
  show "node_leq l m \<Longrightarrow> node_leq m n \<Longrightarrow> node_leq l n" for l m n
    using sm.leq_trans by (auto simp: node_leq_def)
qed

text \<open>Every run of a node is a run of its state machine.\<close>

lemma node_run_inputs:
  "\<exists>is. length is \<le> 2 * length nis \<and>
    node_run X nis node = node\<lparr> node_inner := sm_run is (node_inner node) \<rparr>"
proof (induction nis arbitrary: node)
  case Nil
  then show ?case by (intro exI [of _ "[]"]) simp
next
  case (Cons i nis)
  obtain is1 where 1: "length is1 \<le> 2" "node_step X i node = node\<lparr> node_inner := sm_run is1 (node_inner node) \<rparr>"
    using node_step_inputs by blast
  obtain is2 where "length is2 \<le> 2 * length nis" "node_run X nis (node_step X i node) =
      (node_step X i node)\<lparr> node_inner := sm_run is2 (node_inner (node_step X i node)) \<rparr>"
    using Cons.IH by blast
  with 1 show ?case by (intro exI [of _ "is1 @ is2"]) simp
qed

subsection \<open>Properties\<close>

lemma sm_get_authorize [simp]: "sm_get (observe_transition a b sm) k = sm_get sm k"
  by (simp add: sm_get_def observe_transition_def)

lemma authorize_only_get:
  "is = [] \<or> (\<exists>old new. is = [In_Authorize old new]) \<Longrightarrow> sm_get (sm_run is sm) k = sm_get sm k"
  by auto

lemma node_transition_accepted_get:
  assumes v: "verify_transition_link X link d session key dbg now = Inr v"
    and d: "decode_transition_link X link = Inr d"
    and ap: "apply_op (Op_Transition (vt_old_key v) (vt_new_key v) (vt_link_hash v) c)
      (observe_transition (vt_old_key v) (vt_new_key v) sm) = (Inr st, sm')"
  obtains u sig where "decode_upgrade X (cl_payload link) = Inr u"
    "vt_old_key v = pin_key (sha256 X) (up_from u)" "session = pin_key (sha256 X) (up_to u)"
    "vt_new_key v = session" "cl_signature link = Some sig"
    "p256_verify X key (signed_message UpgradePayloadDomain (cl_payload link)) sig"
    "vt_link_hash v = sha256 X (cl_payload link)" "vt_old_key v = dt_old_key d"
proof -
  obtain sig u where "dt_new_key d = session" "cl_signature link = Some sig"
      "p256_verify X key (signed_message UpgradePayloadDomain (cl_payload link)) sig"
      "decode_upgrade X (cl_payload link) = Inr u"
      "v = \<lparr> vt_old_key = dt_old_key d, vt_new_key = dt_new_key d,
             vt_link_hash = sha256 X (cl_payload link),
             vt_valid_until_ms = timestamp_millis (up_valid_until u) \<rparr>"
    using v unfolding verify_transition_link_Inr by blast
  moreover from this(4) d have "dt_old_key d = pin_key (sha256 X) (up_from u)"
      "dt_new_key d = pin_key (sha256 X) (up_to u)"
    by (auto simp: decode_transition_link_Inr)
  ultimately show thesis by (intro that [of u sig]) simp_all
qed

text \<open>Only a transition out of it reaches another session's key.\<close>

definition retires :: "'x ChainExt_scheme \<Rightarrow> Request \<Rightarrow> PcrKey \<Rightarrow> bool" where
  "retires X req k \<longleftrightarrow> (case req of
       Req_Transition link c \<Rightarrow>
         (case decode_transition_link X link of Inr d \<Rightarrow> dt_old_key d = k | Inl _ \<Rightarrow> False)
     | _ \<Rightarrow> False)"

lemma other_session_get:
  assumes "node_handle_request X now session req node = (resp, node')" and "k \<noteq> session"
    and "\<not> retires X req k"
  shows "sm_get (node_inner node') k = sm_get (node_inner node) k"
proof (cases req)
  case (Req_Get k')
  with assms show ?thesis
    by (auto simp: node_handle_get_def split: if_splits option.splits)
next
  case (Req_Register k' c)
  with assms show ?thesis
    by (auto simp: node_handle_register_def apply_register_def sm_get_def Let_def
        split: if_splits option.splits)
next
  case (Req_Pin k' v c)
  with assms show ?thesis
    by (auto simp: node_handle_pin_def apply_pin_def sm_get_def Let_def
        split: if_splits option.splits)
next
  case (Req_Revoke link)
  have "sm_get (snd (apply_op (Op_Revoke session h) sm)) k = sm_get sm k" for h sm
    by (auto simp: apply_revoke_def sm_get_def Let_def split: option.splits)
  then have "sm_get sm' k = sm_get sm k" if "apply_op (Op_Revoke session h) sm = (r, sm')" for h sm r sm'
    using that by (metis snd_conv)
  with assms Req_Revoke show ?thesis
    by (auto simp: node_handle_revoke_def simp del: apply_op.simps
        split: option.splits sum.splits prod.splits)
next
  case (Req_Transition link c)
  with assms(1) have "node_handle_transition X now session link c node = (resp, node')" by simp
  then show ?thesis
  proof (cases rule: node_transition_cases)
    case (refused err "is")
    then show ?thesis using authorize_only_get by simp
  next
    case (accepted now_ms d old v st sm')
    have "vt_new_key v = session" "vt_old_key v = dt_old_key d"
      by (rule node_transition_accepted_get [OF accepted(4,2,5)], assumption)+
    moreover have "dt_old_key d \<noteq> k"
      using assms(3) accepted(2) by (simp add: Req_Transition retires_def)
    ultimately show ?thesis
      using accepted(5,7) assms(2) by (auto simp: apply_ok sm_get_def observe_transition_def)
  qed
qed

text \<open>C26. Sessions are isolated. A request of one session never changes the pin of another key,
  with one exception: a Transition whose link the other key's own frozen control key signed, which
  names this session as the successor and the other key's current commitment; it takes the pin
  over.\<close>

theorem sessions_are_isolated:
  assumes "node_handle_request X now session req node = (resp, node')" and "k \<noteq> session"
  shows "sm_get (node_inner node') k = sm_get (node_inner node) k \<or>
    (\<exists>link c u sig old. req = Req_Transition link c \<and> decode_upgrade X (cl_payload link) = Inr u \<and>
      k = pin_key (sha256 X) (up_from u) \<and> session = pin_key (sha256 X) (up_to u) \<and>
      sm_get (node_inner node) k = Some old \<and> ks_commitment old = c \<and>
      cl_signature link = Some sig \<and>
      p256_verify X (ks_control_pubkey old)
        (signed_message UpgradePayloadDomain (cl_payload link)) sig \<and>
      sm_get (node_inner node') k = None \<and>
      map_option ks_commitment (sm_get (node_inner node') session) = Some c \<and>
      map_option ks_version (sm_get (node_inner node') session) = Some (ks_version old))"
proof (cases "\<exists>link c. req = Req_Transition link c")
  case False
  then have "\<not> retires X req k" by (auto simp: retires_def split: Request.splits)
  then show ?thesis using other_session_get [OF assms] by blast
next
  case True
  then obtain link c where Req_Transition: "req = Req_Transition link c" by blast
  with assms have tr: "node_handle_transition X now session link c node = (resp, node')" by simp
  then show ?thesis
  proof (cases rule: node_transition_cases)
    case (refused err "is")
    then show ?thesis using authorize_only_get by simp
  next
    case (accepted now_ms d old v st sm')
    obtain u sig where u: "decode_upgrade X (cl_payload link) = Inr u"
      "vt_old_key v = pin_key (sha256 X) (up_from u)" "session = pin_key (sha256 X) (up_to u)"
      "vt_new_key v = session" "cl_signature link = Some sig"
      "p256_verify X (ks_control_pubkey old) (signed_message UpgradePayloadDomain (cl_payload link)) sig"
      "vt_old_key v = dt_old_key d"
      by (rule node_transition_accepted_get [OF accepted(4,2,5)])
    from accepted(5) u(4) have eff: "\<exists>cur pk. sm_get (node_inner node) (vt_old_key v) = Some cur \<and>
        ks_commitment cur = c \<and>
        sm_state sm' = (sm_state (node_inner node))
          (vt_old_key v := None, session \<mapsto> cur\<lparr>ks_control_pubkey := pk\<rparr>)"
      by (auto simp: apply_ok sm_get_def observe_transition_def)
    show ?thesis
    proof (cases "k = vt_old_key v")
      case True
      with eff u accepted assms(2) Req_Transition show ?thesis
        by (intro disjI2 exI [of _ link] exI [of _ c] exI [of _ u] exI [of _ sig] exI [of _ old])
          (auto simp: sm_get_def)
    next
      case False
      with eff accepted(7) assms(2) show ?thesis by (auto simp: sm_get_def)
    qed
  qed
qed

text \<open>A revocation holds at the node. After a node answers \<open>RevokeOk\<close> to a session for a
  revocation that names an upgrade payload by its hash, no later Transition over an upgrade link
  with that payload and out of that session's key succeeds, whichever session submits it and
  whatever was requested in between.\<close>

theorem revoked_upgrade_is_refused_by_node:
  assumes inv: "node_inv node"
    and rev: "node_handle_request X now k (Req_Revoke revocation) node = (RevokeOk, node1)"
    and rp: "decode_revocation X (cl_payload revocation) = Inr rp"
    and u: "decode_upgrade X (cl_payload link) = Inr u" "pin_key (sha256 X) (up_from u) = k"
    and h: "rp_revokes_link rp = sha256 X (cl_payload link)"
  shows "fst (node_handle_request X now' session (Req_Transition link c) (node_run X nis node1)) \<noteq>
    TransitionOk v"
proof
  let ?node = "node_run X nis node1"
  assume ok: "fst (node_handle_request X now' session (Req_Transition link c) ?node) = TransitionOk v"
  obtain st sm where revoked: "apply_op (Op_Revoke k (rp_revokes_link rp)) (node_inner node) = (Inr st, sm)"
      and node1: "node1 = node\<lparr> node_inner := sm \<rparr>"
    using rev rp
    by (auto simp: node_handle_revoke_def verify_revocation_link_Inr simp del: apply_op.simps
        split: option.splits sum.splits prod.splits)
  obtain "is" where run: "node_inner ?node = sm_run is sm"
    using node_run_inputs [of nis X node1] node1 by auto
  obtain resp node' where "node_handle_transition X now' session link c ?node = (resp, node')"
    by (metis surj_pair)
  then show False
  proof (cases rule: node_transition_cases)
    case (refused err is')
    with ok \<open>node_handle_transition X now' session link c ?node = (resp, node')\<close> show False by simp
  next
    case (accepted now_ms d old w st' sm')
    obtain u' sig where "decode_upgrade X (cl_payload link) = Inr u'"
        "vt_old_key w = pin_key (sha256 X) (up_from u')" "vt_link_hash w = sha256 X (cl_payload link)"
      by (rule node_transition_accepted_get [OF accepted(4,2,5)])
    with u h have "vt_old_key w = k" "vt_link_hash w = rp_revokes_link rp" by auto
    with accepted(5) revoked_then_transition [OF inv [unfolded node_inv_def] revoked,
        of "vt_new_key w" c "is @ [In_Authorize k (vt_new_key w)]"] run
    show False by simp
  qed
qed

text \<open>C27. An acknowledged pin is there, and spends its version. When a node answers \<open>PinOk\<close> to a
  session, the answered version is the expected one plus one, an immediate Get returns the pinned
  commitment and that version, and after any further requests (fewer than \<open>2 ^ 62\<close>) a Pin
  against the old version is answered with an error.\<close>

theorem acknowledged_pin_is_stored:
  assumes inv: "node_inv node"
    and pin: "node_handle_request X now k (Req_Pin k v c) node = (PinOk v', node')"
    and short: "length nis < 2 ^ 62"
  shows "v' = v + 1 \<and> fst (node_handle_request X now1 k (Req_Get k) node') = GetOk c v' \<and>
    (\<exists>e. fst (node_handle_request X now2 k (Req_Pin k v c') (node_run X nis node')) = Resp_Err e)"
proof -
  obtain st sm where ap: "apply_op (Op_Pin k v c) (node_inner node) = (Inr st, sm)"
      and n: "v' = ks_version st" "node' = node\<lparr> node_inner := sm \<rparr>"
    using pin by (auto simp: node_handle_pin_def simp del: apply_op.simps split: prod.splits sum.splits)
  have st: "ks_version st = v + 1 \<and> ks_commitment st = c \<and> sm_state sm k = Some st"
    by (rule pin_version_advances [OF ap])
  obtain "is" where "length is \<le> 2 * length nis" "node_inner (node_run X nis node') = sm_run is sm"
    using node_run_inputs [of nis X node'] n by auto
  with pinned_version_is_spent [OF inv [unfolded node_inv_def] ap, of "is" c'] short
  have "\<not> is_ok (fst (apply_op (Op_Pin k v c') (node_inner (node_run X nis node'))))" by simp
  then have "\<exists>e. fst (node_handle_request X now2 k (Req_Pin k v c') (node_run X nis node')) = Resp_Err e"
    by (auto simp: node_handle_pin_def simp del: apply_op.simps split: prod.splits sum.splits)
  with st n show ?thesis by (simp add: node_handle_get_def sm_get_def)
qed

subsection \<open>Witnesses\<close>

text \<open>A node with the two example identities attested and the first one registered.\<close>

definition ex_k1 :: PcrKey where "ex_k1 = pin_key ex_pad ex_identity"
definition ex_k2 :: PcrKey where "ex_k2 = pin_key ex_pad ex_to"

lemma ex_k1_k2: "ex_k1 \<noteq> ex_k2"
  by code_simp

definition ex_node :: Node where
  "ex_node = node_run ex_chain
     [NI_Attest ex_k1 [5], NI_Attest ex_k2 [6], NI_Request None ex_k1 (Req_Register ex_k1 [10])]
     node_new"

lemma node_new_inv: "node_inv node_new"
  by (simp add: node_inv_def node_new_def node_with_debug_mode_def sm_new_inv)

lemma ex_node_inv: "node_inv ex_node"
  unfolding ex_node_def by (rule nd.run_inv [OF node_new_inv])

lemma ex_node_eval:
  "ex_node = \<lparr> node_inner =
     \<lparr> sm_state = [ex_k1 \<mapsto> \<lparr> ks_commitment = [10], ks_version = 0, ks_control_pubkey = [5] \<rparr>],
       sm_attested = [ex_k1 \<mapsto> [5], ex_k2 \<mapsto> [6]], sm_transition_authorizations = {},
       sm_retired = {}, sm_revoked_links = Map.empty \<rparr>, node_debug_mode = False \<rparr>"
  using ex_k1_k2
  by (simp add: ex_node_def node_new_def node_with_debug_mode_def node_observe_attestation_def
      node_handle_register_def apply_register_def sm_new_def observe_attestation_def Let_def)

lemma ex_node_transition:
  "fst (node_handle_request ex_chain (Some 1000) ex_k2 (Req_Transition ex_upgrade_link [10])
     ex_node) = TransitionOk 0"
proof -
  obtain v where v: "verify_transition_link ex_chain ex_upgrade_link ex_link_keys
      (pin_key ex_pad ex_to) [5] False 1000 = Inr v"
    using ex_verifies unfolding is_ok_iff by blast
  then have "vt_old_key v = ex_k1" "vt_new_key v = ex_k2"
    by (auto simp: verify_transition_link_Inr ex_link_keys_def ex_k1_def ex_k2_def)
  moreover have "dt_old_key ex_link_keys = ex_k1" by (simp add: ex_link_keys_def ex_k1_def)
  ultimately show ?thesis
    using v ex_k1_k2
    by (simp add: node_handle_transition_def ex_decodes ex_node_eval sm_get_def ex_k2_def [symmetric]
        observe_transition_def apply_transition_def is_revoked_def Let_def)
qed

theorem sessions_are_isolated_witness:
  "\<exists>node'. node_handle_request ex_chain (Some 1000) ex_k2 (Req_Transition ex_upgrade_link [10])
      ex_node = (TransitionOk 0, node') \<and> ex_k1 \<noteq> ex_k2 \<and>
    (sm_get (node_inner node') ex_k1 = sm_get (node_inner ex_node) ex_k1 \<or>
     sm_get (node_inner node') ex_k1 = None)"
proof -
  obtain node' where n: "node_handle_request ex_chain (Some 1000) ex_k2
      (Req_Transition ex_upgrade_link [10]) ex_node = (TransitionOk 0, node')"
    using ex_node_transition by (metis prod.collapse)
  from sessions_are_isolated [OF n ex_k1_k2] n ex_k1_k2 show ?thesis by blast
qed

theorem revoked_upgrade_is_refused_by_node_witness:
  "let revocation = rl_link (ex_signed Revocation RevocationPayloadDomain [4]);
       node1 = snd (node_handle_request ex_chain None ex_k1 (Req_Revoke revocation) ex_node)
   in fst (node_handle_request ex_chain None ex_k1 (Req_Revoke revocation) ex_node) = RevokeOk \<and>
      fst (node_handle_request ex_chain (Some 1000) ex_k2
        (Req_Transition ex_upgrade_link [10]) node1) \<noteq> TransitionOk 0"
proof -
  let ?r = "rl_link (ex_signed Revocation RevocationPayloadDomain [4])"
  let ?link = ex_upgrade_link
  have "verify_revocation_link ex_chain ?r [5] = Inr \<lparr> vr_link_hash = 2 # replicate 31 0 \<rparr>"
    by code_simp
  then have ok: "fst (node_handle_request ex_chain None ex_k1 (Req_Revoke ?r) ex_node) = RevokeOk"
    by (simp add: node_handle_revoke_def ex_node_eval sm_get_def apply_revoke_def Let_def)
  then obtain node1 where n1: "node_handle_request ex_chain None ex_k1 (Req_Revoke ?r) ex_node =
      (RevokeOk, node1)" by (metis prod.collapse)
  have rp: "decode_revocation ex_chain (cl_payload ?r) = Inr ex_revocation" by code_simp
  have u: "decode_upgrade ex_chain (cl_payload ?link) = Inr ex_upgrade" by code_simp
  have k: "pin_key (sha256 ex_chain) (up_from ex_upgrade) = ex_k1"
    by (simp add: ex_chain_def ex_upgrade_def ex_k1_def)
  have h: "rp_revokes_link ex_revocation = sha256 ex_chain (cl_payload ?link)" by code_simp
  from revoked_upgrade_is_refused_by_node [OF ex_node_inv n1 rp u k h, of "Some 1000" ex_k2 "[10]" "[]"] n1
  show ?thesis unfolding Let_def by simp
qed

theorem acknowledged_pin_is_stored_witness:
  "\<exists>node'. node_handle_request ex_chain None ex_k1 (Req_Pin ex_k1 0 [11]) ex_node = (PinOk 1, node') \<and>
    fst (node_handle_request ex_chain None ex_k1 (Req_Get ex_k1) node') = GetOk [11] 1"
proof -
  have "fst (node_handle_request ex_chain None ex_k1 (Req_Pin ex_k1 0 [11]) ex_node) = PinOk 1"
    by (simp add: node_handle_pin_def ex_node_eval apply_pin_def Let_def)
  then obtain node' where n: "node_handle_request ex_chain None ex_k1 (Req_Pin ex_k1 0 [11]) ex_node =
      (PinOk 1, node')" by (metis prod.collapse)
  from acknowledged_pin_is_stored [OF ex_node_inv n, of "[]"] n show ?thesis by auto
qed

end
