(* ===== verification/Client.thy ===== *)
theory Client
  imports Node
begin

text \<open>
  The synchronizer client, \<open>synchronizer/src/client.rs\<close>: mutual authentication and one method per
  request, over a channel. The channel is the parameter \<open>rpc\<close>: what one exchange answers, or \<open>None\<close>
  when the caller's time limit ran out first, and how it changes the world on the other side. The
  network at the end of the theory is such a channel: a node behind a link that may lose requests
  and answers.
\<close>

datatype ClientError =
    Ce_Io
  | Ce_Handshake
  | Ce_Crypto
  | Ce_CborEncode
  | Ce_Cbor
  | Ce_FrameTooLarge u32
  | Ce_ConnectionClosed
  | Ce_Rpc RpcError
  | Ce_UnexpectedResponse
  | Ce_ServerAttestation AttestationError
  | Ce_ServerPcrRejected
  | Ce_ServerAuthMissing
  | Ce_MissingCapability string

datatype Frame =
    Frame_Authenticate bytes u32 "string set"
  | Frame_Rpc Request

definition frame_authenticate :: "bytes \<Rightarrow> Frame" where
  "frame_authenticate nsm_doc = Frame_Authenticate nsm_doc PROTOCOL_VERSION supported_capabilities"

text \<open>\<open>Handshake::authenticate\<close> after our own frame is sent: \<open>answer\<close> is the first frame that came
  back, and the result is the peer protocol the client keeps.\<close>

fun server_auth_client_error :: "ServerAuthError \<Rightarrow> ClientError" where
  "server_auth_client_error (ServerAttestation e) = Ce_ServerAttestation e"
| "server_auth_client_error PcrRejected = Ce_ServerPcrRejected"

definition client_authenticate ::
    "'x NitroExt_scheme \<Rightarrow> ClientError + Frame \<Rightarrow> bytes \<Rightarrow> ServerPcrPolicy \<Rightarrow> bool \<Rightarrow> int \<Rightarrow>
      ClientError + PeerProtocol" where
  "client_authenticate X answer handshake_hash server_policy debug_mode clock =
     and_then answer (\<lambda>frame.
       case frame of
         Frame_Authenticate server_doc protocol_version capabilities \<Rightarrow>
           and_then (map_err server_auth_client_error
               (verify_server_attestation X server_doc handshake_hash server_policy debug_mode clock))
             (\<lambda>_. Inr (peer_from_advertised protocol_version capabilities))
       | Frame_Rpc _ \<Rightarrow> Inl Ce_ServerAuthMissing)"

subsection \<open>One method per request\<close>

type_synonym 'w rpc = "Request \<Rightarrow> 'w \<Rightarrow> (ClientError + Response) option \<times> 'w"

fun register_answer :: "Response \<Rightarrow> ClientError + unit" where
  "register_answer RegisterOk = Inr ()"
| "register_answer (Resp_Err e) = Inl (Ce_Rpc e)"
| "register_answer _ = Inl Ce_UnexpectedResponse"

fun pin_answer :: "Response \<Rightarrow> ClientError + Version" where
  "pin_answer (PinOk version) = Inr version"
| "pin_answer (Resp_Err e) = Inl (Ce_Rpc e)"
| "pin_answer _ = Inl Ce_UnexpectedResponse"

fun get_answer :: "Response \<Rightarrow> ClientError + Commitment \<times> Version" where
  "get_answer (GetOk commitment version) = Inr (commitment, version)"
| "get_answer (Resp_Err e) = Inl (Ce_Rpc e)"
| "get_answer _ = Inl Ce_UnexpectedResponse"

fun transition_answer :: "Response \<Rightarrow> ClientError + Version" where
  "transition_answer (TransitionOk version) = Inr version"
| "transition_answer (Resp_Err e) = Inl (Ce_Rpc e)"
| "transition_answer _ = Inl Ce_UnexpectedResponse"

fun revoke_answer :: "Response \<Rightarrow> ClientError + unit" where
  "revoke_answer RevokeOk = Inr ()"
| "revoke_answer (Resp_Err e) = Inl (Ce_Rpc e)"
| "revoke_answer _ = Inl Ce_UnexpectedResponse"

definition client_call ::
    "'w rpc \<Rightarrow> Request \<Rightarrow> (Response \<Rightarrow> ClientError + 'a) \<Rightarrow> 'w \<Rightarrow> (ClientError + 'a) option \<times> 'w" where
  "client_call rpc request answer w =
     (case rpc request w of (r, w') \<Rightarrow> (map_option (\<lambda>resp. and_then resp answer) r, w'))"

definition client_register where
  "client_register rpc key commitment = client_call rpc (Req_Register key commitment) register_answer"

definition client_pin where
  "client_pin rpc key expected_version commitment =
     client_call rpc (Req_Pin key expected_version commitment) pin_answer"

definition client_get where
  "client_get rpc key = client_call rpc (Req_Get key) get_answer"

definition client_transition where
  "client_transition rpc link commitment =
     client_call rpc (Req_Transition link commitment) transition_answer"

definition client_revoke ::
    "'w rpc \<Rightarrow> PeerProtocol \<Rightarrow> ChainLink \<Rightarrow> 'w \<Rightarrow> (ClientError + unit) option \<times> 'w" where
  "client_revoke rpc server_protocol link w =
     (if \<not> peer_supports server_protocol CAPABILITY_REVOCATION
      then (Some (Inl (Ce_MissingCapability CAPABILITY_REVOCATION)), w)
      else client_call rpc (Req_Revoke link) revoke_answer w)"

text \<open>The four calls the storage client makes, as the trait \<open>BootOracle\<close> bundles them.\<close>

record 'w BootOracle =
  bo_get :: "PcrKey \<Rightarrow> 'w \<Rightarrow> (ClientError + Commitment \<times> Version) option \<times> 'w"
  bo_register :: "PcrKey \<Rightarrow> Commitment \<Rightarrow> 'w \<Rightarrow> (ClientError + unit) option \<times> 'w"
  bo_pin :: "PcrKey \<Rightarrow> Version \<Rightarrow> Commitment \<Rightarrow> 'w \<Rightarrow> (ClientError + Version) option \<times> 'w"
  bo_transition :: "ChainLink \<Rightarrow> Commitment \<Rightarrow> 'w \<Rightarrow> (ClientError + Version) option \<times> 'w"

definition client_oracle :: "'w rpc \<Rightarrow> 'w BootOracle" where
  "client_oracle rpc = \<lparr> bo_get = client_get rpc, bo_register = client_register rpc,
     bo_pin = client_pin rpc, bo_transition = client_transition rpc \<rparr>"

lemmas client_defs = client_oracle_def client_get_def client_register_def client_pin_def
  client_transition_def client_call_def

subsection \<open>A node behind a lossy link\<close>

text \<open>An exchange goes through, or the link loses it: the request never arrives, or it is executed
  and the answer is lost. A loss shows as an I/O error, a closed connection or silence until the
  time limit. A cluster that cannot confirm a quorum in time answers \<open>Unavailable\<close>; whether the
  request took effect is then open, and \<open>No_Quorum\<close> says which. The channel is attested and
  encrypted, so it loses but does not forge.\<close>

datatype Loss = Loss_Io | Loss_Closed | Loss_Timeout

datatype LinkFate = Exchanged | Request_Lost Loss | Answer_Lost Loss | No_Quorum bool

fun loss_answer :: "Loss \<Rightarrow> (ClientError + Response) option" where
  "loss_answer Loss_Io = Some (Inl Ce_Io)"
| "loss_answer Loss_Closed = Some (Inl Ce_ConnectionClosed)"
| "loss_answer Loss_Timeout = None"

record Net =
  net_node :: Node
  net_clock :: "u64 option"
  net_fates :: "LinkFate list"

definition net_rpc :: "'x ChainExt_scheme \<Rightarrow> PcrKey \<Rightarrow> Net rpc" where
  "net_rpc X session request net =
     (let executed = node_handle_request X (net_clock net) session request (net_node net);
          fate = (case net_fates net of [] \<Rightarrow> Exchanged | f # _ \<Rightarrow> f);
          net = net\<lparr> net_fates := tl (net_fates net) \<rparr>
      in (case fate of
            Exchanged \<Rightarrow> (Some (Inr (fst executed)), net\<lparr> net_node := snd executed \<rparr>)
          | Request_Lost l \<Rightarrow> (loss_answer l, net)
          | Answer_Lost l \<Rightarrow> (loss_answer l, net\<lparr> net_node := snd executed \<rparr>)
          | No_Quorum committed \<Rightarrow>
              (Some (Inr (Resp_Err Rpc_Unavailable)),
               if committed then net\<lparr> net_node := snd executed \<rparr> else net)))"

text \<open>How many losses the link has in store, and how many answers without a quorum.\<close>

definition net_losses :: "Net \<Rightarrow> nat" where
  "net_losses net = length (filter (\<lambda>f. f \<notin> {Exchanged, No_Quorum True, No_Quorum False}) (net_fates net))"

definition net_unavailable :: "Net \<Rightarrow> nat" where
  "net_unavailable net = length (filter (\<lambda>f. f \<in> {No_Quorum True, No_Quorum False}) (net_fates net))"

lemma net_rpc_cases:
  assumes "net_rpc X session request net = (r, net')"
  obtains (answered) resp node where "r = Some (Inr resp)"
      "node_handle_request X (net_clock net) session request (net_node net) = (resp, node)"
      "net_node net' = node" "net_losses net' = net_losses net" "net_unavailable net' = net_unavailable net"
  | (lost) resp node where "r \<in> {None, Some (Inl Ce_Io), Some (Inl Ce_ConnectionClosed)}"
      "node_handle_request X (net_clock net) session request (net_node net) = (resp, node)"
      "net_node net' = net_node net \<or> net_node net' = node" "net_losses net' < net_losses net"
      "net_unavailable net' = net_unavailable net"
  | (no_quorum) resp node where "r = Some (Inr (Resp_Err Rpc_Unavailable))"
      "node_handle_request X (net_clock net) session request (net_node net) = (resp, node)"
      "net_node net' = net_node net \<or> net_node net' = node" "net_losses net' = net_losses net"
      "net_unavailable net' < net_unavailable net"
proof -
  obtain resp node where
      e: "node_handle_request X (net_clock net) session request (net_node net) = (resp, node)"
    by force
  have loss: "loss_answer l \<in> {None, Some (Inl Ce_Io), Some (Inl Ce_ConnectionClosed)}" for l
    by (cases l) simp_all
  define fate where "fate = (case net_fates net of [] \<Rightarrow> Exchanged | f # _ \<Rightarrow> f)"
  have losses: "net_losses (net\<lparr> net_fates := tl (net_fates net) \<rparr>) +
      (if fate \<in> {Exchanged, No_Quorum True, No_Quorum False} then 0 else 1) = net_losses net"
      "net_unavailable (net\<lparr> net_fates := tl (net_fates net) \<rparr>) +
      (if fate \<in> {No_Quorum True, No_Quorum False} then 1 else 0) = net_unavailable net"
    by (cases "net_fates net"; simp add: net_losses_def net_unavailable_def fate_def)+
  note rpc_defs = net_rpc_def fate_def net_losses_def net_unavailable_def Let_def
  show thesis
  proof (cases fate)
    case Exchanged
    then show thesis
      using assms e losses by (intro answered [of resp node]) (auto simp: rpc_defs)
  next
    case (Request_Lost l)
    then show thesis
      using assms e losses loss [of l] by (intro lost [of resp node]) (auto simp: rpc_defs)
  next
    case (Answer_Lost l)
    then show thesis
      using assms e losses loss [of l] by (intro lost [of resp node]) (auto simp: rpc_defs)
  next
    case (No_Quorum b)
    then show thesis
      using assms e losses by (intro no_quorum [of resp node]) (cases b; auto simp: rpc_defs)+
  qed
qed

end
