(* ===== verification/Superblock.thy ===== *)
theory Superblock
  imports State_Machine "HOL-Library.AList"
begin

text \<open>
  The pure pieces of the storage client's anti-rollback wiring, \<open>nbd-client/src/rollback.rs\<close>: where
  the primary btrfs superblock lies on the device, how a request overlaps it, the table of boot
  decisions, the runtime watch on the region's acceptable contents, the streaming extraction of
  the region from a write, and the gate that holds the replies of superblock writes.
\<close>

subsection \<open>Geometry of the superblock region\<close>

definition SB_PRIMARY_FS_OFFSET :: u64 where "SB_PRIMARY_FS_OFFSET = 0x10000"

definition SB_REGION_LEN :: nat where "SB_REGION_LEN = 4096"

datatype SbOverlap =
    Overlap_None
  | Overlap_Full (payload_offset: nat)
  | Overlap_Partial

definition saturating_add :: "u64 \<Rightarrow> u64 \<Rightarrow> u64" where
  "saturating_add a b = (if a + b < a then - 1 else a + b)"

definition primary_sb_overlap :: "u64 \<Rightarrow> u32 \<Rightarrow> u64 \<Rightarrow> SbOverlap" where
  "primary_sb_overlap offset len data_offset =
     (let region_start = data_offset + SB_PRIMARY_FS_OFFSET;
          region_end = region_start + of_nat SB_REGION_LEN;
          write_end = saturating_add offset (ucast len)
      in if write_end \<le> region_start \<or> offset \<ge> region_end then Overlap_None
         else if offset \<le> region_start \<and> write_end \<ge> region_end
         then Overlap_Full (unat (region_start - offset))
         else Overlap_Partial)"

text \<open>The bytes of a request and of the region, as sets of device addresses.\<close>

definition request_range :: "u64 \<Rightarrow> u32 \<Rightarrow> nat set" where
  "request_range offset len = {unat offset..<unat offset + unat len}"

definition sb_region :: "u64 \<Rightarrow> nat set" where
  "sb_region data_offset = {unat data_offset + 65536..<unat data_offset + 65536 + 4096}"

lemma unat_saturating_add: "unat (saturating_add a b) = min (unat a + unat b) (2 ^ 64 - 1)"
proof (cases "unat a + unat b < 2 ^ 64")
  case True
  then have "unat (a + b) = unat a + unat b"
    by (simp add: unat_word_ariths)
  with True show ?thesis
    by (simp add: saturating_add_def word_less_nat_alt)
next
  case False
  then have "unat (a + b) = unat a + unat b - 2 ^ 64"
    using unsigned_less [of a, where ?'a = nat] unsigned_less [of b, where ?'a = nat] by (simp add: unat_word_ariths mod_nat_eqI)
  moreover have "unat a + unat b - 2 ^ 64 < unat a"
    using unsigned_less [of b, where ?'a = nat] unsigned_less [of a, where ?'a = nat] False by simp
  moreover have "unat (- 1 :: u64) = 2 ^ 64 - 1"
    by (simp add: unsigned_minus_1_eq_mask mask_eq_exp_minus_1)
  ultimately show ?thesis
    using False by (simp add: saturating_add_def word_less_nat_alt)
qed

lemma region_bounds:
  assumes "unat d + 69632 < 2 ^ 64"
  shows "unat (d + SB_PRIMARY_FS_OFFSET) = unat d + 65536"
    and "unat (d + SB_PRIMARY_FS_OFFSET + of_nat SB_REGION_LEN) = unat d + 69632"
proof -
  show 1: "unat (d + SB_PRIMARY_FS_OFFSET) = unat d + 65536"
    using assms by (simp add: SB_PRIMARY_FS_OFFSET_def unat_word_ariths)
  show "unat (d + SB_PRIMARY_FS_OFFSET + of_nat SB_REGION_LEN) = unat d + 69632"
    using assms by (simp add: SB_PRIMARY_FS_OFFSET_def SB_REGION_LEN_def unat_word_ariths)
qed

lemma primary_sb_overlap_nat:
  assumes "unat d + 69632 < 2 ^ 64"
  shows "primary_sb_overlap off len d =
    (if unat off + unat len \<le> unat d + 65536 \<or> unat d + 69632 \<le> unat off then Overlap_None
     else if unat off \<le> unat d + 65536 \<and> unat d + 69632 \<le> unat off + unat len
     then Overlap_Full (unat d + 65536 - unat off)
     else Overlap_Partial)"
proof -
  have "unat len < 2 ^ 32"
    using unsigned_less [of len, where ?'a = nat] by simp
  then have "unat (ucast len :: u64) = unat len"
    by (simp add: unsigned_ucast_eq take_bit_nat_eq_self)
  then have end_eq: "unat (saturating_add off (ucast len)) = min (unat off + unat len) (2 ^ 64 - 1)"
    by (simp add: unat_saturating_add)
  have sub: "unat (d + SB_PRIMARY_FS_OFFSET - off) = unat d + 65536 - unat off"
    if "unat off \<le> unat d + 65536"
    using that region_bounds(1) [OF assms] by (metis unat_sub word_le_nat_alt)
  show ?thesis
    using assms by (simp add: primary_sb_overlap_def Let_def word_le_nat_alt end_eq region_bounds sub)
      (auto simp: min_def)
qed


text \<open>C37. The overlap classification is exact. For a request of at least one byte, and a data offset
  whose region lies below \<open>2^64\<close>: \<open>None\<close> means the request touches no byte of the superblock region,
  \<open>Full\<close> means it covers every byte of it and the payload offset is where the region starts inside
  the payload, and \<open>Partial\<close> is everything in between, also when offset plus length exceeds
  \<open>2^64\<close>.\<close>

theorem sb_overlap_exact:
  assumes "unat data_offset + 69632 < 2 ^ 64" and "len \<noteq> 0"
  shows "(primary_sb_overlap offset len data_offset = Overlap_None \<longleftrightarrow>
            request_range offset len \<inter> sb_region data_offset = {}) \<and>
         (\<forall>po. primary_sb_overlap offset len data_offset = Overlap_Full po \<longleftrightarrow>
            sb_region data_offset \<subseteq> request_range offset len \<and>
            unat offset + po = unat data_offset + 65536) \<and>
         (primary_sb_overlap offset len data_offset = Overlap_Partial \<longleftrightarrow>
            request_range offset len \<inter> sb_region data_offset \<noteq> {} \<and>
            \<not> sb_region data_offset \<subseteq> request_range offset len)"
proof -
  let ?o = "unat offset" and ?l = "unat len" and ?d = "unat data_offset"
  have l: "0 < ?l"
    using assms(2) by (simp add: unat_gt_0)
  have empty: "request_range offset len \<inter> sb_region data_offset = {} \<longleftrightarrow>
      ?o + ?l \<le> ?d + 65536 \<or> ?d + 69632 \<le> ?o"
    using l by (auto simp: request_range_def sb_region_def)
  have sub: "sb_region data_offset \<subseteq> request_range offset len \<longleftrightarrow>
      ?o \<le> ?d + 65536 \<and> ?d + 69632 \<le> ?o + ?l"
    by (auto simp: request_range_def sb_region_def ivl_subset)
  show ?thesis
    unfolding empty sub primary_sb_overlap_nat [OF assms(1)] by auto
qed

subsection \<open>Commitments and the boot decision\<close>

definition commitment_of_region :: "'x Ext_scheme \<Rightarrow> bytes \<Rightarrow> Commitment" where
  "commitment_of_region X region = sha256 X region"

definition region_is_blank :: "bytes \<Rightarrow> bool" where
  "region_is_blank region = list_all (\<lambda>b. b = 0) region"

datatype GetOutcome =
    Outcome_Found (found_commitment: Commitment) (found_version: Version)
  | Outcome_NotFound

text \<open>The three reasons the decision table gives, in place of the source's messages.\<close>

datatype BootReason =
    SuperblockMismatch
  | UpgradeTargetUnpinned
  | WrittenUnpinned

datatype BootDecision =
    Serve
  | RegisterThenServe
  | TransitionOrFailStop BootReason
  | FailStop BootReason

datatype ImageRole = Genesis | UpgradeTarget

definition boot_decision :: "'x Ext_scheme \<Rightarrow> bytes \<Rightarrow> GetOutcome \<Rightarrow> ImageRole \<Rightarrow> BootDecision" where
  "boot_decision X region outcome role =
     (case outcome of
        Outcome_Found commitment _ \<Rightarrow>
          if commitment_of_region X region = commitment then Serve
          else FailStop SuperblockMismatch
      | Outcome_NotFound \<Rightarrow>
          if region_is_blank region then
            (case role of
               Genesis \<Rightarrow> RegisterThenServe
             | UpgradeTarget \<Rightarrow> TransitionOrFailStop UpgradeTargetUnpinned)
          else TransitionOrFailStop WrittenUnpinned)"

lemma boot_decision_Serve:
  "boot_decision X region outcome role = Serve \<longleftrightarrow>
    (\<exists>v. outcome = Outcome_Found (sha256 X region) v)"
  by (cases outcome) (auto simp: boot_decision_def commitment_of_region_def split: ImageRole.splits)

lemma boot_decision_Register:
  "boot_decision X region outcome role = RegisterThenServe \<longleftrightarrow>
    outcome = Outcome_NotFound \<and> region_is_blank region \<and> role = Genesis"
  by (cases outcome) (auto simp: boot_decision_def split: ImageRole.splits)

lemma boot_decision_Transition:
  "(\<exists>r. boot_decision X region outcome role = TransitionOrFailStop r) \<longleftrightarrow>
    outcome = Outcome_NotFound \<and> (\<not> region_is_blank region \<or> role = UpgradeTarget)"
  by (cases outcome) (auto simp: boot_decision_def split: ImageRole.splits)

subsection \<open>The region watch\<close>

text \<open>Sequence numbers are naturals: the source's \<open>u64\<close> counter moves once per superblock write.
  The two hash maps that the code also iterates over are association lists with distinct keys.\<close>

type_synonym handle = u64

record ReadWatch =
  rd_payload_offset :: nat
  rd_accept_from_seq :: nat

record RegionWatch =
  rw_history :: "(nat \<times> Commitment) list"
  rw_pending :: "(handle \<times> nat \<times> Commitment) list"
  rw_reads :: "(handle \<times> ReadWatch) list"
  rw_next_seq :: nat

definition region_watch_new :: "Commitment \<Rightarrow> RegionWatch" where
  "region_watch_new boot_commitment =
     \<lparr> rw_history = [(0, boot_commitment)], rw_pending = [], rw_reads = [], rw_next_seq = 1 \<rparr>"

definition watch_read :: "handle \<Rightarrow> nat \<Rightarrow> RegionWatch \<Rightarrow> RegionWatch" where
  "watch_read h po w =
     (let accept_from = (if rw_history w = [] then 0 else fst (last (rw_history w)))
      in w\<lparr> rw_reads := AList.update h
              \<lparr> rd_payload_offset = po, rd_accept_from_seq = accept_from \<rparr> (rw_reads w) \<rparr>)"

definition begin_pending :: "handle \<Rightarrow> Commitment \<Rightarrow> RegionWatch \<Rightarrow> RegionWatch" where
  "begin_pending h commitment w =
     w\<lparr> rw_next_seq := rw_next_seq w + 1,
        rw_pending := AList.update h (rw_next_seq w, commitment) (rw_pending w) \<rparr>"

text \<open>The loop of \<open>commit\<close> that pops the front of the history.\<close>

fun prune_history :: "nat \<Rightarrow> (nat \<times> Commitment) list \<Rightarrow> (nat \<times> Commitment) list" where
  "prune_history floor (e # e' # rest) =
     (if fst e \<ge> floor then e # e' # rest else prune_history floor (e' # rest))"
| "prune_history floor es = es"

definition watch_commit :: "handle \<Rightarrow> RegionWatch \<Rightarrow> RegionWatch" where
  "watch_commit h w =
     (case map_of (rw_pending w) h of
        None \<Rightarrow> w
      | Some (seq, c) \<Rightarrow>
          let floor = (case map (rd_accept_from_seq \<circ> snd) (rw_reads w) of
                         [] \<Rightarrow> seq
                       | a # as \<Rightarrow> fold min as a)
          in w\<lparr> rw_pending := AList.delete h (rw_pending w),
                rw_history := prune_history floor (rw_history w @ [(seq, c)]) \<rparr>)"

definition read_payload_offset :: "handle \<Rightarrow> RegionWatch \<Rightarrow> nat option" where
  "read_payload_offset h w = map_option rd_payload_offset (map_of (rw_reads w) h)"

definition verify_read :: "'x Ext_scheme \<Rightarrow> handle \<Rightarrow> bytes \<Rightarrow> RegionWatch \<Rightarrow> bool \<times> RegionWatch" where
  "verify_read X h region w =
     (case map_of (rw_reads w) h of
        None \<Rightarrow> (True, w)
      | Some r \<Rightarrow>
          let hash = commitment_of_region X region;
              ok = (\<lambda>(s, c). s \<ge> rd_accept_from_seq r \<and> c = hash)
          in (list_ex ok (rw_history w) \<or> list_ex (ok \<circ> snd) (rw_pending w),
              w\<lparr> rw_reads := AList.delete h (rw_reads w) \<rparr>))"

definition drop_read :: "handle \<Rightarrow> RegionWatch \<Rightarrow> RegionWatch" where
  "drop_read h w = w\<lparr> rw_reads := AList.delete h (rw_reads w) \<rparr>"

subsection \<open>Streaming extraction\<close>

text \<open>What the extraction does to the outside, in order: chunks written to the host and the one
  call of the window callback.\<close>

datatype StreamEvent =
    Wrote bytes
  | WindowComplete bytes

definition CHUNK_LEN :: nat where "CHUNK_LEN = 32 * 1024"

text \<open>\<open>out[dst_start..dst_start + len].copy_from_slice(..)\<close>\<close>

definition copy_into :: "nat \<Rightarrow> bytes \<Rightarrow> bytes \<Rightarrow> bytes" where
  "copy_into start piece out = take start out @ piece @ drop (start + length piece) out"

definition extract_chunk :: "nat \<Rightarrow> nat \<Rightarrow> nat \<Rightarrow> bytes \<Rightarrow> bytes \<Rightarrow> bytes" where
  "extract_chunk pos off len chunk out =
     (let lo = max pos off;
          hi = min (pos + length chunk) (off + len)
      in if lo < hi
         then copy_into (lo - off) (take (hi - lo) (drop (lo - pos) chunk)) out
         else out)"

text \<open>The loop: the events in order, and the captured window; \<open>None\<close> is \<open>read_exact\<close> failing on a
  source that ends early.\<close>

function extract_loop ::
    "nat \<Rightarrow> nat \<Rightarrow> bytes \<Rightarrow> nat \<Rightarrow> nat \<Rightarrow> bytes \<Rightarrow> bool \<Rightarrow> StreamEvent list \<times> bytes option" where
  "extract_loop off len src pos remaining out callback =
     (if remaining = 0 then ([], Some out)
      else let n = min remaining CHUNK_LEN
        in if length src < n then ([], None)
        else let chunk = take n src;
                 out' = extract_chunk pos off len chunk out;
                 fires = callback \<and> off + len \<le> pos + n;
                 rest = extract_loop off len (drop n src) (pos + n) (remaining - n) out'
                          (callback \<and> \<not> fires)
          in ((if fires then [WindowComplete out'] else []) @ Wrote chunk # fst rest, snd rest))"
  by pat_completeness auto

termination
  by (relation "measure (\<lambda>(off, len, src, pos, remaining, out, callback). remaining)")
    (auto simp: CHUNK_LEN_def)

declare extract_loop.simps [simp del]

datatype StreamError = WindowExceedsPayload | SourceEnded

definition forward_bytes_extract ::
    "bytes \<Rightarrow> nat \<Rightarrow> nat \<Rightarrow> nat \<Rightarrow> StreamEvent list \<times> (StreamError + bytes)" where
  "forward_bytes_extract src n off len =
     (if n < off + len then ([], Inl WindowExceedsPayload)
      else map_prod id (ok_or SourceEnded) (extract_loop off len src 0 n (replicate len 0) True))"

subsection \<open>The pin gate\<close>

datatype PinStatus =
    Pin_Pending
  | Pin_Ok
  | Pin_Failed string

datatype GateCheck =
    NotGated
  | Hold
  | Pass
  | Gate_Fail string

type_synonym PinGate = "handle \<rightharpoonup> PinStatus"

definition pin_gate_new :: PinGate where
  "pin_gate_new = Map.empty"

definition gate_begin :: "handle \<Rightarrow> PinGate \<Rightarrow> PinGate" where
  "gate_begin h g = g(h \<mapsto> Pin_Pending)"

definition gate_finish_ok :: "handle \<Rightarrow> PinGate \<Rightarrow> PinGate" where
  "gate_finish_ok h g = g(h \<mapsto> Pin_Ok)"

definition gate_finish_err :: "handle \<Rightarrow> string \<Rightarrow> PinGate \<Rightarrow> PinGate" where
  "gate_finish_err h reason g = g(h \<mapsto> Pin_Failed reason)"

definition gate_check :: "handle \<Rightarrow> PinGate \<Rightarrow> GateCheck \<times> PinGate" where
  "gate_check h g =
     (case g h of
        None \<Rightarrow> (NotGated, g)
      | Some Pin_Pending \<Rightarrow> (Hold, g)
      | Some Pin_Ok \<Rightarrow> (Pass, g(h := None))
      | Some (Pin_Failed reason) \<Rightarrow> (Gate_Fail reason, g))"


subsection \<open>What the extraction captures\<close>

definition written :: "StreamEvent list \<Rightarrow> bytes" where
  "written evs = concat (map (\<lambda>e. case e of Wrote c \<Rightarrow> c | WindowComplete _ \<Rightarrow> []) evs)"

definition windows :: "StreamEvent list \<Rightarrow> bytes list" where
  "windows evs = concat (map (\<lambda>e. case e of Wrote _ \<Rightarrow> [] | WindowComplete r \<Rightarrow> [r]) evs)"

lemma written_simps [simp]:
  "written [] = []" "written (Wrote c # evs) = c @ written evs"
  "written (WindowComplete r # evs) = written evs" "written (evs @ evs') = written evs @ written evs'"
  by (simp_all add: written_def)

lemma windows_simps [simp]:
  "windows [] = []" "windows (Wrote c # evs) = windows evs"
  "windows (WindowComplete r # evs) = r # windows evs" "windows (evs @ evs') = windows evs @ windows evs'"
  by (simp_all add: windows_def)

text \<open>The buffer after the first \<open>pos\<close> payload bytes: the part of the window seen so far, then
  zeroes.\<close>

definition window_at :: "bytes \<Rightarrow> nat \<Rightarrow> nat \<Rightarrow> nat \<Rightarrow> bytes" where
  "window_at P off len pos =
     take (pos - off) (take len (drop off P)) @ replicate (len - (pos - off)) 0"

lemma length_window_at: "off + len \<le> length P \<Longrightarrow> length (window_at P off len pos) = len"
  by (simp add: window_at_def)

lemma nth_window_at:
  "off + len \<le> length P \<Longrightarrow> j < len \<Longrightarrow>
    window_at P off len pos ! j = (if j < pos - off then P ! (off + j) else 0)"
  by (auto simp: window_at_def nth_append)

lemma length_copy_into:
  "start + length piece \<le> length out \<Longrightarrow> length (copy_into start piece out) = length out"
  by (simp add: copy_into_def)

lemma nth_copy_into:
  "start + length piece \<le> length out \<Longrightarrow> j < length out \<Longrightarrow> copy_into start piece out ! j =
    (if j < start then out ! j else if j < start + length piece then piece ! (j - start) else out ! j)"
  by (auto simp: copy_into_def nth_append)

lemma extract_chunk_window:
  assumes "off + len \<le> length P" and "pos + n \<le> length P"
  shows "extract_chunk pos off len (take n (drop pos P)) (window_at P off len pos) =
    window_at P off len (pos + n)"
proof (rule nth_equalityI)
  let ?lo = "max pos off" and ?hi = "min (pos + n) (off + len)"
  have len_chunk: "length (take n (drop pos P)) = n"
    using assms by simp
  show "length (extract_chunk pos off len (take n (drop pos P)) (window_at P off len pos)) =
      length (window_at P off len (pos + n))"
    using assms len_chunk by (auto simp: extract_chunk_def length_copy_into length_window_at Let_def)
  fix j
  assume "j < length (extract_chunk pos off len (take n (drop pos P)) (window_at P off len pos))"
  then have j: "j < len"
    using assms len_chunk
    by (auto simp: extract_chunk_def length_copy_into length_window_at Let_def split: if_splits)
  show "extract_chunk pos off len (take n (drop pos P)) (window_at P off len pos) ! j =
      window_at P off len (pos + n) ! j"
  proof (cases "?lo < ?hi")
    case True
    define start where "start = ?lo - off"
    define piece where "piece = take (?hi - ?lo) (drop (?lo - pos) (take n (drop pos P)))"
    have len_piece: "length piece = ?hi - ?lo"
      unfolding piece_def using True len_chunk by simp
    have bounds: "start + length piece = ?hi - off" "start \<le> pos - off"
      unfolding len_piece start_def using True by linarith+
    have piece: "piece ! k = P ! (?lo + k)" if "k < ?hi - ?lo" for k
    proof -
      have "?lo - pos + k < n"
        using that by linarith
      then show ?thesis
        unfolding piece_def using that assms len_chunk by (simp add: nth_append)
    qed
    have in_piece: "piece ! (j - start) = P ! (off + j)" if "start \<le> j" "j < ?hi - off"
    proof -
      have "j - start < ?hi - ?lo" "?lo + (j - start) = off + j"
        using that unfolding start_def by linarith+
      with piece [of "j - start"] show ?thesis by simp
    qed
    have "extract_chunk pos off len (take n (drop pos P)) (window_at P off len pos) ! j =
        copy_into start piece (window_at P off len pos) ! j"
      unfolding start_def piece_def using True len_chunk by (simp add: extract_chunk_def Let_def)
    also have "\<dots> = (if start \<le> j \<and> j < ?hi - off then P ! (off + j) else window_at P off len pos ! j)"
    proof -
      have "start + length piece \<le> length (window_at P off len pos)"
        using bounds(1) assms(1) by (simp add: length_window_at)
      from nth_copy_into [OF this, of j] show ?thesis
        unfolding bounds(1) using in_piece j assms(1) by (auto simp: length_window_at)
    qed
    also have "\<dots> = window_at P off len (pos + n) ! j"
      unfolding nth_window_at [OF assms(1) j] start_def using j by auto
    finally show ?thesis .
  next
    case False
    then show ?thesis
      using assms j len_chunk
      by (auto simp: extract_chunk_def Let_def nth_window_at)
  qed
qed


text \<open>Once the callback has fired the loop only forwards; before that it fires exactly once, with the
  whole window, while the window's last byte is still unwritten.\<close>

lemma extract_loop_forwards:
  assumes "off + len \<le> length P" and "pos + remaining \<le> length P"
  shows "\<exists>evs. extract_loop off len (drop pos P) pos remaining (window_at P off len pos) False =
      (evs, Some (window_at P off len (pos + remaining))) \<and>
    windows evs = [] \<and> written evs = take remaining (drop pos P)"
  using assms(2)
proof (induction remaining arbitrary: pos rule: less_induct)
  case (less remaining)
  show ?case
  proof (cases "remaining = 0")
    case True
    then show ?thesis by (simp add: extract_loop.simps)
  next
    case False
    let ?n = "min remaining CHUNK_LEN"
    have n: "0 < ?n" "?n \<le> remaining"
      using False by (simp_all add: CHUNK_LEN_def)
    then obtain evs where evs: "extract_loop off len (drop (pos + ?n) P) (pos + ?n) (remaining - ?n)
          (window_at P off len (pos + ?n)) False =
        (evs, Some (window_at P off len (pos + remaining)))"
        "windows evs = []" "written evs = take (remaining - ?n) (drop (pos + ?n) P)"
      using less.IH [of "remaining - ?n" "pos + ?n"] less.prems by auto
    have chunk: "extract_chunk pos off len (take ?n (drop pos P)) (window_at P off len pos) =
        window_at P off len (pos + ?n)"
      using extract_chunk_window [OF assms(1)] less.prems n by simp
    have "extract_loop off len (drop pos P) pos remaining (window_at P off len pos) False =
        (Wrote (take ?n (drop pos P)) # evs, Some (window_at P off len (pos + remaining)))"
      using False less.prems n evs(1)
      by (subst extract_loop.simps) (simp add: Let_def chunk add.commute)
    moreover have "take ?n (drop pos P) @ written evs = take remaining (drop pos P)"
      using n(2) evs(3) take_add [of ?n "remaining - ?n" "drop pos P"]
      by (simp add: add.commute)
    ultimately show ?thesis
      using evs(2) by simp
  qed
qed


lemma window_at_complete:
  "off + len \<le> pos \<Longrightarrow> off + len \<le> length P \<Longrightarrow> window_at P off len pos = take len (drop off P)"
  by (simp add: window_at_def)

lemma window_at_start: "window_at P off len 0 = replicate len 0"
  by (simp add: window_at_def)

lemma extract_loop_fires:
  assumes "off + len \<le> length P" and "pos + remaining \<le> length P"
    and "pos < off + len" and "off + len \<le> pos + remaining"
  defines "R \<equiv> take len (drop off P)"
  shows "\<exists>evs1 evs2. extract_loop off len (drop pos P) pos remaining (window_at P off len pos) True =
      (evs1 @ WindowComplete R # evs2, Some R) \<and> windows (evs1 @ evs2) = [] \<and>
    written (evs1 @ evs2) = take remaining (drop pos P) \<and> pos + length (written evs1) < off + len"
  using assms(2-4)
proof (induction remaining arbitrary: pos rule: less_induct)
  case (less remaining)
  let ?n = "min remaining CHUNK_LEN"
  have n: "0 < ?n" "?n \<le> remaining" "remaining \<noteq> 0" "\<not> length (drop pos P) < ?n"
    using less.prems by (simp_all add: CHUNK_LEN_def)
  have chunk: "extract_chunk pos off len (take ?n (drop pos P)) (window_at P off len pos) =
      window_at P off len (pos + ?n)"
    using extract_chunk_window [OF assms(1)] less.prems n by simp
  have split: "take ?n (drop pos P) @ take (remaining - ?n) (drop (pos + ?n) P) =
      take remaining (drop pos P)"
    using n(2) take_add [of ?n "remaining - ?n" "drop pos P"] by (simp add: add.commute)
  show ?case
  proof (cases "off + len \<le> pos + ?n")
    case True
    obtain evs where evs: "extract_loop off len (drop (pos + ?n) P) (pos + ?n) (remaining - ?n)
          (window_at P off len (pos + ?n)) False =
        (evs, Some (window_at P off len (pos + ?n + (remaining - ?n))))"
        "windows evs = []" "written evs = take (remaining - ?n) (drop (pos + ?n) P)"
      using extract_loop_forwards [OF assms(1), of "pos + ?n" "remaining - ?n"] less.prems n by auto
    have "window_at P off len (pos + ?n) = R" "window_at P off len (pos + ?n + (remaining - ?n)) = R"
      using True assms(1) by (simp_all add: R_def window_at_complete)
    then have "extract_loop off len (drop pos P) pos remaining (window_at P off len pos) True =
        ([] @ WindowComplete R # Wrote (take ?n (drop pos P)) # evs, Some R)"
      using n evs(1) True by (subst extract_loop.simps) (simp add: Let_def chunk add.commute)
    then show ?thesis
      using evs(2,3) split less.prems by (intro exI [of _ "[]"] exI conjI) (assumption | simp)+
  next
    case False
    obtain evs1 evs2 where evs: "extract_loop off len (drop (pos + ?n) P) (pos + ?n) (remaining - ?n)
          (window_at P off len (pos + ?n)) True = (evs1 @ WindowComplete R # evs2, Some R)"
        "windows (evs1 @ evs2) = []" "written (evs1 @ evs2) = take (remaining - ?n) (drop (pos + ?n) P)"
        "pos + ?n + length (written evs1) < off + len"
      using less.IH [of "remaining - ?n" "pos + ?n"] less.prems n False by auto
    have "extract_loop off len (drop pos P) pos remaining (window_at P off len pos) True =
        ((Wrote (take ?n (drop pos P)) # evs1) @ WindowComplete R # evs2, Some R)"
      using n evs(1) False by (subst extract_loop.simps) (simp add: Let_def chunk add.commute)
    moreover have "written ((Wrote (take ?n (drop pos P)) # evs1) @ evs2) = take remaining (drop pos P)"
      using evs(3) split by simp
    moreover have "pos + length (written (Wrote (take ?n (drop pos P)) # evs1)) < off + len"
      using evs(4) n by simp
    moreover have "windows ((Wrote (take ?n (drop pos P)) # evs1) @ evs2) = []"
      using evs(2) by simp
    ultimately show ?thesis by blast
  qed
qed

lemma forward_bytes_extract_events:
  assumes "off + len \<le> n" and "0 < len" and "n \<le> length src"
  obtains evs1 evs2 where
    "forward_bytes_extract src n off len =
       (evs1 @ WindowComplete (take len (drop off src)) # evs2, Inr (take len (drop off src)))"
    "windows (evs1 @ evs2) = []" "written (evs1 @ evs2) = take n src"
    "length (written evs1) < off + len"
proof -
  have "\<exists>evs1 evs2. extract_loop off len (drop 0 src) 0 n (window_at src off len 0) True =
      (evs1 @ WindowComplete (take len (drop off src)) # evs2, Some (take len (drop off src))) \<and>
    windows (evs1 @ evs2) = [] \<and>
    written (evs1 @ evs2) = take n (drop 0 src) \<and> 0 + length (written evs1) < off + len"
    using assms by (intro extract_loop_fires) simp_all
  then show thesis
    using that assms(1) by (auto simp: forward_bytes_extract_def window_at_start)
qed

text \<open>C36. Streaming extraction is exact and fires its callback in time. When the window lies inside a
  payload the source really delivers, the extraction succeeds, captures exactly the window's
  bytes, forwards the whole payload unchanged, and calls back exactly once, with the captured
  window and before the window's last byte has been written to the host.\<close>

theorem extraction_exact:
  assumes "off + len \<le> n" and "0 < len" and "n \<le> length src"
  shows "\<exists>evs1 evs2. forward_bytes_extract src n off len =
      (evs1 @ WindowComplete (take len (drop off src)) # evs2, Inr (take len (drop off src))) \<and>
    windows (evs1 @ evs2) = [] \<and> written (evs1 @ evs2) = take n src \<and>
    length (written evs1) < off + len"
  using forward_bytes_extract_events [OF assms] by metis


subsection \<open>Concrete instances\<close>

text \<open>A 16 MiB data offset, and a 128 KiB write that starts 32 KiB below the superblock.\<close>

theorem sb_overlap_exact_witness:
  "primary_sb_overlap (0x1000000 + 0x8000) 0x20000 0x1000000 = Overlap_Full 0x8000 \<and>
   sb_region 0x1000000 \<subseteq> request_range (0x1000000 + 0x8000) 0x20000"
proof -
  have "primary_sb_overlap (0x1000000 + 0x8000) 0x20000 0x1000000 = Overlap_Full 0x8000"
    by (simp add: primary_sb_overlap_def SB_PRIMARY_FS_OFFSET_def SB_REGION_LEN_def
        saturating_add_def Let_def)
  with sb_overlap_exact [of "0x1000000" "0x20000" "0x1000000 + 0x8000"] show ?thesis
    by simp
qed

theorem extraction_exact_witness:
  "\<exists>evs1 evs2. forward_bytes_extract [1, 2, 3, 4, 5] 5 1 2 = (evs1 @ WindowComplete [2, 3] # evs2, Inr [2, 3]) \<and>
    windows (evs1 @ evs2) = [] \<and> written (evs1 @ evs2) = [1, 2, 3, 4, 5] \<and>
    length (written evs1) < 3"
  using extraction_exact [of 1 2 5 "[1, 2, 3, 4, 5]"] by (simp add: numeral_3_eq_3)

end
