(* ===== verification/Pinner.thy ===== *)
theory Pinner
  imports Client Superblock
begin

text \<open>
  The storage client's side of the oracle (\<open>nbd-client/src/rollback.rs\<close>): classification of client
  errors, one pin attempt with its conflict resolution, and the retry policy around a logical pin
  with its two bounded tolerances. Time is in milliseconds.
\<close>

subsection \<open>Errors and one attempt\<close>

fun pin_error_is_retryable :: "ClientError \<Rightarrow> bool" where
  "pin_error_is_retryable Ce_Io = True"
| "pin_error_is_retryable Ce_ConnectionClosed = True"
| "pin_error_is_retryable _ = False"

fun pin_error_is_unavailable :: "ClientError \<Rightarrow> bool" where
  "pin_error_is_unavailable (Ce_Rpc Rpc_Unavailable) = True"
| "pin_error_is_unavailable _ = False"

datatype PinFailure = Fatal | Session | Unavailable

definition classify_pin_error :: "ClientError \<Rightarrow> PinFailure" where
  "classify_pin_error e =
     (if pin_error_is_unavailable e then Unavailable
      else if pin_error_is_retryable e then Session
      else Fatal)"

fun get_outcome :: "ClientError + Commitment \<times> Version \<Rightarrow> ClientError + GetOutcome" where
  "get_outcome (Inr (commitment, version)) = Inr (Outcome_Found commitment version)"
| "get_outcome (Inl e) = (if e = Ce_Rpc Rpc_NotFound then Inr Outcome_NotFound else Inl e)"

definition disambiguate_conflict ::
    "'w BootOracle \<Rightarrow> PcrKey \<Rightarrow> Commitment \<Rightarrow> 'w \<Rightarrow> (PinFailure + Version) \<times> 'w" where
  "disambiguate_conflict B key commitment w =
     (case bo_get B key w of
        (Some (Inr (current, version)), w') \<Rightarrow>
          (if current = commitment then Inr version else Inl Fatal, w')
      | (Some (Inl e), w') \<Rightarrow> (Inl (classify_pin_error e), w')
      | (None, w') \<Rightarrow> (Inl Session, w'))"

definition pin_once_on ::
    "'w BootOracle \<Rightarrow> PcrKey \<Rightarrow> Version \<Rightarrow> Commitment \<Rightarrow> 'w \<Rightarrow> (PinFailure + unit) \<times> Version \<times> 'w" where
  "pin_once_on B key expected commitment w =
     (case bo_pin B key expected commitment w of
        (Some (Inr version), w') \<Rightarrow>
          if version = expected + 1 then (Inr (), version, w') else (Inl Fatal, expected, w')
      | (Some (Inl e), w') \<Rightarrow>
          if e = Ce_Rpc Rpc_NotFound then (Inl Fatal, expected, w')
          else if e = Ce_Rpc Rpc_VersionConflict then
            (case disambiguate_conflict B key commitment w' of
               (Inr version, w'') \<Rightarrow> (Inr (), version, w'')
             | (Inl failure, w'') \<Rightarrow> (Inl failure, expected, w''))
          else (Inl (classify_pin_error e), expected, w')
      | (None, w') \<Rightarrow> (Inl Session, expected, w'))"

subsection \<open>The retry policy\<close>

definition SYNC_RECONNECT_ATTEMPTS :: nat where "SYNC_RECONNECT_ATTEMPTS = 3"
definition SYNC_RECONNECT_BACKOFF :: nat where "SYNC_RECONNECT_BACKOFF = 2000"
definition SYNC_UNAVAILABLE_BUDGET :: nat where "SYNC_UNAVAILABLE_BUDGET = 300000"
definition SYNC_UNAVAILABLE_BACKOFF :: nat where "SYNC_UNAVAILABLE_BACKOFF = 2000"

lemmas sync_consts = SYNC_RECONNECT_ATTEMPTS_def SYNC_RECONNECT_BACKOFF_def
  SYNC_UNAVAILABLE_BUDGET_def SYNC_UNAVAILABLE_BACKOFF_def

text \<open>The trait \<open>PinAttempt\<close>: an attempt and a reconnection also say how long they took.\<close>

record 's PinAttempt =
  pa_pin_once :: "Commitment \<Rightarrow> 's \<Rightarrow> (PinFailure + unit) \<times> nat \<times> 's"
  pa_can_reconnect :: "'s \<Rightarrow> bool"
  pa_reconnect_session :: "'s \<Rightarrow> (PinFailure + unit) \<times> nat \<times> 's"

datatype PinGiveUp = Gave_Fatal | Gave_Unavailable | Gave_No_Reconnector | Gave_Reconnects

text \<open>The inner loop of \<open>pin_with_retries\<close>: it returns the number of reconnections used and the
  time.\<close>

function reconnect_loop ::
    "'s PinAttempt \<Rightarrow> nat \<Rightarrow> nat \<Rightarrow> 's \<Rightarrow> (PinGiveUp + unit) \<times> nat \<times> nat \<times> 's" where
  "reconnect_loop T reconnects now s =
     (if reconnects \<ge> SYNC_RECONNECT_ATTEMPTS then (Inl Gave_Reconnects, reconnects, now, s)
      else case pa_reconnect_session T s of (r, dt, s') \<Rightarrow>
        let now' = now + SYNC_RECONNECT_BACKOFF + dt
        in case r of
             Inr _ \<Rightarrow> (Inr (), reconnects + 1, now', s')
           | Inl Fatal \<Rightarrow> (Inl Gave_Fatal, reconnects + 1, now', s')
           | Inl _ \<Rightarrow> reconnect_loop T (reconnects + 1) now' s')"
  by pat_completeness auto

termination
  by (relation "measure (\<lambda>(T, reconnects, now, s). SYNC_RECONNECT_ATTEMPTS - reconnects)") auto

declare reconnect_loop.simps [simp del]

lemma reconnect_loop_progress:
  "reconnect_loop T n now s = (Inr u, n', now', s') \<Longrightarrow>
    n < n' \<and> n' \<le> SYNC_RECONNECT_ATTEMPTS \<and> now \<le> now'"
proof (induction T n now s rule: reconnect_loop.induct)
  case (1 T n now s)
  obtain r dt t where r: "pa_reconnect_session T s = (r, dt, t)"
    by (metis prod_cases3)
  have n: "\<not> SYNC_RECONNECT_ATTEMPTS \<le> n"
    using 1(3) by (auto simp: reconnect_loop.simps [of T n] split: if_splits)
  show ?case
  proof (cases r)
    case (Inr v)
    then show ?thesis
      using 1(3) n r by (auto simp: reconnect_loop.simps [of T n])
  next
    case (Inl f)
    then have "f \<noteq> Fatal" "reconnect_loop T (n + 1) (now + SYNC_RECONNECT_BACKOFF + dt) t = (Inr u, n', now', s')"
      using 1(3) n r by (cases f; simp add: reconnect_loop.simps [of T n] Let_def)+
    then show ?thesis
      using 1(1,2) [OF n r [symmetric] refl refl Inl] by (cases f) fastforce+
  qed
qed

definition retries_left :: "nat \<Rightarrow> nat option \<Rightarrow> nat \<Rightarrow> nat" where
  "retries_left reconnects deadline now =
     (SYNC_RECONNECT_ATTEMPTS - reconnects) +
     (case deadline of
        None \<Rightarrow> SYNC_UNAVAILABLE_BUDGET div SYNC_UNAVAILABLE_BACKOFF
      | Some d \<Rightarrow> (d - now) div SYNC_UNAVAILABLE_BACKOFF)"

lemma retries_left_unavailable:
  assumes "now + SYNC_UNAVAILABLE_BACKOFF < (case deadline of None \<Rightarrow> now + SYNC_UNAVAILABLE_BUDGET | Some d \<Rightarrow> d)"
    and "start \<le> now"
  shows "retries_left n (Some (case deadline of None \<Rightarrow> now + SYNC_UNAVAILABLE_BUDGET | Some d \<Rightarrow> d))
      (now + SYNC_UNAVAILABLE_BACKOFF) < retries_left n deadline start"
proof -
  have "(d - (now + 2000)) div 2000 < (d - start) div 2000" if "now + 2000 < d" for d :: nat
  proof -
    have "(d - (now + 2000)) div 2000 + 1 = (d - now) div 2000"
      using that by simp
    moreover have "(d - now) div 2000 \<le> (d - start) div 2000"
      using assms(2) by (intro div_le_mono) simp
    ultimately show ?thesis by linarith
  qed
  with assms show ?thesis
    by (cases deadline) (auto simp: retries_left_def sync_consts)
qed

lemma retries_left_session:
  assumes "n < n'" "n' \<le> SYNC_RECONNECT_ATTEMPTS" "start \<le> now"
  shows "retries_left n' deadline now < retries_left n deadline start"
proof -
  have "(case deadline of None \<Rightarrow> SYNC_UNAVAILABLE_BUDGET div SYNC_UNAVAILABLE_BACKOFF
        | Some d \<Rightarrow> (d - now) div SYNC_UNAVAILABLE_BACKOFF) \<le>
      (case deadline of None \<Rightarrow> SYNC_UNAVAILABLE_BUDGET div SYNC_UNAVAILABLE_BACKOFF
        | Some d \<Rightarrow> (d - start) div SYNC_UNAVAILABLE_BACKOFF)"
    using assms(3) by (cases deadline) (auto intro: div_le_mono)
  with assms(1,2) show ?thesis by (simp add: retries_left_def)
qed

function pin_loop ::
    "'s PinAttempt \<Rightarrow> Commitment \<Rightarrow> nat \<Rightarrow> nat option \<Rightarrow> nat \<Rightarrow> 's \<Rightarrow> (PinGiveUp + unit) \<times> 's" where
  "pin_loop T commitment reconnects unavailable_deadline now s =
     (case pa_pin_once T commitment s of (r, dt, s') \<Rightarrow>
        let now = now + dt
        in case r of
             Inr _ \<Rightarrow> (Inr (), s')
           | Inl Fatal \<Rightarrow> (Inl Gave_Fatal, s')
           | Inl Unavailable \<Rightarrow>
               let deadline = (case unavailable_deadline of
                                 None \<Rightarrow> now + SYNC_UNAVAILABLE_BUDGET
                               | Some d \<Rightarrow> d)
               in if now + SYNC_UNAVAILABLE_BACKOFF \<ge> deadline then (Inl Gave_Unavailable, s')
                  else pin_loop T commitment reconnects (Some deadline)
                         (now + SYNC_UNAVAILABLE_BACKOFF) s'
           | Inl Session \<Rightarrow>
               if \<not> pa_can_reconnect T s' then (Inl Gave_No_Reconnector, s')
               else case reconnect_loop T reconnects now s' of
                      (Inl e, _, _, s'') \<Rightarrow> (Inl e, s'')
                    | (Inr _, reconnects, now, s'') \<Rightarrow>
                        pin_loop T commitment reconnects unavailable_deadline now s'')"
  by pat_completeness auto

termination
proof (relation "measure (\<lambda>(T, c, n, d, now, s). retries_left n d now)", goal_cases)
  case (2 T c n deadline now s r y1 dt s' nw f res y2 u n' y3 nw' s'')
  then have "reconnect_loop T n (now + dt) s' = (Inr (), n', nw', s'')" by simp
  from reconnect_loop_progress [OF this] show ?case
    using retries_left_session [of n n' now nw' deadline] by simp
next
  case (3 T c n deadline now s r y1 dt s' nw f dl)
  then show ?case
    using retries_left_unavailable [of nw deadline now n] by auto
qed simp

declare pin_loop.simps [simp del]

definition pin_with_retries :: "'s PinAttempt \<Rightarrow> Commitment \<Rightarrow> nat \<Rightarrow> 's \<Rightarrow> (PinGiveUp + unit) \<times> 's" where
  "pin_with_retries T commitment now s = pin_loop T commitment 0 None now s"


subsection \<open>Reasoning about the retries\<close>

text \<open>What every failed attempt and every reconnection keeps holds when the policy gives up, and what
  a successful attempt establishes holds when it succeeds.\<close>

lemma reconnect_loop_keeps:
  assumes "\<And>s r dt s'. P s \<Longrightarrow> pa_reconnect_session T s = (r, dt, s') \<Longrightarrow> P s'"
    and "P s"
  shows "P (snd (snd (snd (reconnect_loop T n now s))))"
  using assms
proof (induction T n now s rule: reconnect_loop.induct)
  case (1 T n now s)
  obtain r dt t where r: "pa_reconnect_session T s = (r, dt, t)"
    by (metis prod_cases3)
  have t: "P t" using 1(3,4) r by blast
  show ?case
  proof (cases "SYNC_RECONNECT_ATTEMPTS \<le> n")
    case True
    then show ?thesis using 1(4) by (simp add: reconnect_loop.simps)
  next
    case n: False
    note IH = 1(1,2) [OF n r [symmetric] refl refl]
    show ?thesis
    proof (cases r)
      case (Inr u)
      then show ?thesis using n r t by (simp add: reconnect_loop.simps [of _ n])
    next
      case (Inl f)
      then show ?thesis
        using n r t IH [OF Inl] 1(3) by (cases f) (simp_all add: reconnect_loop.simps [of _ n] Let_def)
    qed
  qed
qed

lemma pin_loop_rule:
  assumes attempt: "\<And>s r dt s'. P s \<Longrightarrow> pa_pin_once T c s = (r, dt, s') \<Longrightarrow> if is_ok r then Q s' else P s'"
    and reconnect: "\<And>s r dt s'. P s \<Longrightarrow> pa_reconnect_session T s = (r, dt, s') \<Longrightarrow> P s'"
    and "P s"
  shows "if is_ok (fst (pin_loop T c n deadline now s)) then Q (snd (pin_loop T c n deadline now s))
    else P (snd (pin_loop T c n deadline now s))"
  using assms(3)
proof (induction "retries_left n deadline now" arbitrary: n deadline now s rule: less_induct)
  case less
  obtain r dt s' where r: "pa_pin_once T c s = (r, dt, s')"
    by (metis prod_cases3)
  note step = pin_loop.simps [of T c n deadline now s] r Let_def
  have s': "if is_ok r then Q s' else P s'"
    using attempt [OF less.prems r] .
  consider (ok) u where "r = Inr u" | (fatal) "r = Inl Fatal" | (unavailable) "r = Inl Unavailable"
    | (session) "r = Inl Session"
    by (metis PinFailure.exhaust sum.exhaust)
  then show ?case
  proof cases
    case unavailable
    let ?d = "case deadline of None \<Rightarrow> now + dt + SYNC_UNAVAILABLE_BUDGET | Some d \<Rightarrow> d"
    show ?thesis
    proof (cases "?d \<le> now + dt + SYNC_UNAVAILABLE_BACKOFF")
      case True
      then show ?thesis using unavailable s' by (simp add: step)
    next
      case False
      then have lt: "retries_left n (Some ?d) (now + dt + SYNC_UNAVAILABLE_BACKOFF) < retries_left n deadline now"
        using retries_left_unavailable [of "now + dt" deadline now n] by simp
      show ?thesis
        using less.hyps [OF lt, of s'] s' unavailable False by (simp add: step)
    qed
  next
    case session
    show ?thesis
    proof (cases "pa_can_reconnect T s'")
      case False
      then show ?thesis using session s' by (simp add: step)
    next
      case can: True
      obtain res n' now' s'' where rl: "reconnect_loop T n (now + dt) s' = (res, n', now', s'')"
        by (metis prod_cases4)
      have s'': "P s''"
      proof -
        have "P (snd (snd (snd (reconnect_loop T n (now + dt) s'))))"
          using s' session by (intro reconnect_loop_keeps [of P T, OF reconnect]) simp_all
        then show ?thesis using rl by simp
      qed
      show ?thesis
      proof (cases res)
        case (Inl e)
        then show ?thesis using session can rl s'' by (simp add: step)
      next
        case (Inr u)
        then have "n < n'" "n' \<le> SYNC_RECONNECT_ATTEMPTS" "now \<le> now'"
          using reconnect_loop_progress [of T n "now + dt" s' u n' now' s''] rl by auto
        then have lt: "retries_left n' deadline now' < retries_left n deadline now"
          by (rule retries_left_session)
        show ?thesis
          using less.hyps [OF lt s''] session can rl Inr by (simp add: step)
      qed
    qed
  qed (use s' in \<open>simp_all add: step\<close>)
qed

subsection \<open>The retries are bounded\<close>

text \<open>An attempt that also counts how often a pin is sent.\<close>

definition counted :: "'s PinAttempt \<Rightarrow> ('s \<times> nat) PinAttempt" where
  "counted T =
     \<lparr> pa_pin_once = (\<lambda>c (s, k). case pa_pin_once T c s of (r, dt, s') \<Rightarrow> (r, dt, s', k + 1)),
       pa_can_reconnect = (\<lambda>(s, k). pa_can_reconnect T s),
       pa_reconnect_session =
         (\<lambda>(s, k). case pa_reconnect_session T s of (r, dt, s') \<Rightarrow> (r, dt, s', k)) \<rparr>"

lemma reconnect_loop_counted:
  "reconnect_loop (counted T) n now (s, k) =
    (case reconnect_loop T n now s of (r, n', now', s') \<Rightarrow> (r, n', now', s', k))"
proof (induction T n now s rule: reconnect_loop.induct)
  case (1 T n now s)
  obtain r dt t where r: "pa_reconnect_session T s = (r, dt, t)"
    by (metis prod_cases3)
  show ?case
  proof (cases "SYNC_RECONNECT_ATTEMPTS \<le> n")
    case True
    then show ?thesis by (simp add: reconnect_loop.simps)
  next
    case n: False
    note IH = 1 [OF n r [symmetric] refl refl]
    show ?thesis
    proof (cases r)
      case (Inr u)
      then show ?thesis
        using n r by (simp add: reconnect_loop.simps [of _ n] counted_def)
    next
      case (Inl f)
      then show ?thesis
        using n r IH(1,2) [OF Inl]
        by (cases f) (simp_all add: reconnect_loop.simps [of _ n] counted_def Let_def)
    qed
  qed
qed

lemma counted_pin_once:
  "pa_pin_once T c s = (r, dt, s') \<Longrightarrow> pa_pin_once (counted T) c (s, k) = (r, dt, s', k + 1)"
  by (simp add: counted_def)

lemma counted_can_reconnect [simp]: "pa_can_reconnect (counted T) (s, k) = pa_can_reconnect T s"
  by (simp add: counted_def)

lemma pin_loop_attempts:
  "snd (snd (pin_loop (counted T) c n deadline now (s, k))) \<le> k + 1 + retries_left n deadline now"
proof (induction "retries_left n deadline now" arbitrary: n deadline now s k rule: less_induct)
  case less
  obtain r dt s' where r: "pa_pin_once T c s = (r, dt, s')"
    by (metis prod_cases3)
  note step = pin_loop.simps [of "counted T" c n deadline now "(s, k)"] counted_pin_once [OF r, of k] Let_def
  consider (ok) u where "r = Inr u" | (fatal) "r = Inl Fatal" | (unavailable) "r = Inl Unavailable"
    | (session) "r = Inl Session"
    by (metis PinFailure.exhaust sum.exhaust)
  then show ?case
  proof cases
    case unavailable
    let ?d = "case deadline of None \<Rightarrow> now + dt + SYNC_UNAVAILABLE_BUDGET | Some d \<Rightarrow> d"
    show ?thesis
    proof (cases "?d \<le> now + dt + SYNC_UNAVAILABLE_BACKOFF")
      case True
      then show ?thesis using unavailable by (simp add: step)
    next
      case False
      then have lt: "retries_left n (Some ?d) (now + dt + SYNC_UNAVAILABLE_BACKOFF) < retries_left n deadline now"
        using retries_left_unavailable [of "now + dt" deadline now n] by simp
      show ?thesis
        using less [OF lt, of s' "k + 1"] lt unavailable False by (simp add: step)
    qed
  next
    case session
    show ?thesis
    proof (cases "pa_can_reconnect T s'")
      case False
      then show ?thesis using session by (simp add: step)
    next
      case can: True
      obtain res n' now' s'' where rl: "reconnect_loop T n (now + dt) s' = (res, n', now', s'')"
        by (metis prod_cases4)
      show ?thesis
      proof (cases res)
        case (Inl e)
        then show ?thesis
          using session can rl by (simp add: step reconnect_loop_counted)
      next
        case (Inr u)
        then have "n < n'" "n' \<le> SYNC_RECONNECT_ATTEMPTS" "now \<le> now'"
          using reconnect_loop_progress [of T n "now + dt" s' u n' now' s''] rl by auto
        then have lt: "retries_left n' deadline now' < retries_left n deadline now"
          by (rule retries_left_session)
        show ?thesis
          using can less [OF lt, of s'' "k + 1"] lt session rl Inr
          by (simp add: step reconnect_loop_counted)
      qed
    qed
  qed (simp_all add: step)
qed

text \<open>C32. A logical pin always ends, and soon. Whatever the oracle answers and however long each
  answer takes, the retry policy stops after at most 154 pin requests: one, plus one per
  reconnection (three), plus one per two seconds of the five-minute no-quorum budget.\<close>

theorem pin_retries_bounded:
  "snd (snd (pin_with_retries (counted T) commitment now (s, 0))) \<le> 154"
  using pin_loop_attempts [of T commitment 0 None now s 0]
  by (simp add: pin_with_retries_def retries_left_def sync_consts)

end
