(* ===== verification/Boot_Verify.thy ===== *)
theory Boot_Verify
  imports Pinner
begin

text \<open>
  Boot verification of the volume against the oracle and the pinner it hands over to
  (\<open>nbd-client/src/rollback.rs\<close>): the decision table run over a session, the staged-upgrade branch,
  and the runtime pinner. The contract of the oracle is a locale; a node behind a lossy link
  satisfies it.
\<close>

subsection \<open>Verify, register or transition\<close>

datatype BootError =
    Boot_GetTimedOut
  | Boot_GetFailed ClientError
  | Boot_RegisterTimedOut
  | Boot_RegisterConflict PinFailure
  | Boot_RegisterRaced
  | Boot_RegisterFailed ClientError
  | Boot_NoUpgradeLink BootReason
  | Boot_NotAnUpgradeLink BootReason
  | Boot_LinkForOtherIdentity BootReason
  | Boot_LinkNotCanonical BootReason
  | Boot_TransitionTimedOut
  | Boot_TransitionFailed BootReason ClientError
  | Boot_PostTransitionNoPin
  | Boot_FailStop BootReason

definition get_checked ::
    "'w BootOracle \<Rightarrow> PcrKey \<Rightarrow> 'w \<Rightarrow> (BootError + GetOutcome) \<times> 'w" where
  "get_checked B key w =
     (case bo_get B key w of
        (None, w') \<Rightarrow> (Inl Boot_GetTimedOut, w')
      | (Some r, w') \<Rightarrow> (map_err Boot_GetFailed (get_outcome r), w'))"

text \<open>The second \<open>Get\<close> after an accepted transition: the same table, but only \<open>Serve\<close> survives.\<close>

definition reverify_migrated ::
    "'x Ext_scheme \<Rightarrow> 'w BootOracle \<Rightarrow> PcrKey \<Rightarrow> bytes \<Rightarrow> 'w \<Rightarrow> (BootError + Version) \<times> 'w" where
  "reverify_migrated X B key region w =
     (case get_checked B key w of
        (Inl e, w') \<Rightarrow> (Inl e, w')
      | (Inr outcome, w') \<Rightarrow>
          (case boot_decision X region outcome UpgradeTarget of
             Serve \<Rightarrow> (Inr (found_version outcome), w')
           | FailStop reason \<Rightarrow> (Inl (Boot_FailStop reason), w')
           | _ \<Rightarrow> (Inl Boot_PostTransitionNoPin, w')))"

definition transition_and_reverify ::
    "'x ChainExt_scheme \<Rightarrow> 'w BootOracle \<Rightarrow> PcrKey \<Rightarrow> bytes \<Rightarrow> ChainLink option \<Rightarrow> BootReason \<Rightarrow> 'w \<Rightarrow>
      (BootError + Version) \<times> 'w" where
  "transition_and_reverify X B key region upgrade_link fail_reason w =
     (case upgrade_link of
        None \<Rightarrow> (Inl (Boot_NoUpgradeLink fail_reason), w)
      | Some link \<Rightarrow>
          if cl_kind link \<noteq> Upgrade then (Inl (Boot_NotAnUpgradeLink fail_reason), w)
          else (case decode_upgrade X (cl_payload link) of
            Inl _ \<Rightarrow> (Inl (Boot_LinkNotCanonical fail_reason), w)
          | Inr payload \<Rightarrow>
              if pin_key (sha256 X) (up_to payload) \<noteq> key
              then (Inl (Boot_LinkForOtherIdentity fail_reason), w)
              else (case bo_transition B link (commitment_of_region X region) w of
                (None, w1) \<Rightarrow> (Inl Boot_TransitionTimedOut, w1)
              | (Some (Inl e), w1) \<Rightarrow> (Inl (Boot_TransitionFailed fail_reason e), w1)
              | (Some (Inr _), w1) \<Rightarrow>
                  reverify_migrated X B key region w1)))"

definition verify_or_register ::
    "'x ChainExt_scheme \<Rightarrow> 'w BootOracle \<Rightarrow> PcrKey \<Rightarrow> ImageRole \<Rightarrow> bytes \<Rightarrow> ChainLink option \<Rightarrow> 'w \<Rightarrow>
      (BootError + Version) \<times> 'w" where
  "verify_or_register X B key role region upgrade_link w =
     (case get_checked B key w of
        (Inl e, w1) \<Rightarrow> (Inl e, w1)
      | (Inr outcome, w1) \<Rightarrow>
          (case boot_decision X region outcome role of
             Serve \<Rightarrow> (Inr (found_version outcome), w1)
           | RegisterThenServe \<Rightarrow>
               let commitment = commitment_of_region X region
               in (case bo_register B key commitment w1 of
                     (None, w2) \<Rightarrow> (Inl Boot_RegisterTimedOut, w2)
                   | (Some (Inr _), w2) \<Rightarrow> (Inr 0, w2)
                   | (Some (Inl e), w2) \<Rightarrow>
                       if e = Ce_Rpc Rpc_AlreadyRegistered then
                         (case disambiguate_conflict B key commitment w2 of
                            (Inl failure, w3) \<Rightarrow> (Inl (Boot_RegisterConflict failure), w3)
                          | (Inr version, w3) \<Rightarrow>
                              if version \<noteq> 0 then (Inl Boot_RegisterRaced, w3) else (Inr 0, w3))
                       else (Inl (Boot_RegisterFailed e), w2))
           | TransitionOrFailStop reason \<Rightarrow>
               transition_and_reverify X B key region upgrade_link reason w1
           | FailStop reason \<Rightarrow> (Inl (Boot_FailStop reason), w1)))"

subsection \<open>The runtime pinner\<close>

text \<open>\<open>sp_reconnect\<close> is the reconnector: it dials again and answers the key the new session attested,
  or nothing when that failed.\<close>

record 'w SyncPinner =
  sp_client :: 'w
  sp_key :: PcrKey
  sp_expected :: Version
  sp_reconnect :: "('w \<Rightarrow> PcrKey option \<times> 'w) option"

definition sync_pin_once ::
    "'w BootOracle \<Rightarrow> ('w \<Rightarrow> 'w \<Rightarrow> nat) \<Rightarrow> Commitment \<Rightarrow> 'w SyncPinner \<Rightarrow>
      (PinFailure + unit) \<times> nat \<times> 'w SyncPinner" where
  "sync_pin_once B elapsed commitment sp =
     (case pin_once_on B (sp_key sp) (sp_expected sp) commitment (sp_client sp) of
        (r, expected, w) \<Rightarrow>
          (r, elapsed (sp_client sp) w, sp\<lparr> sp_expected := expected, sp_client := w \<rparr>))"

definition sync_reconnect_session ::
    "('w \<Rightarrow> 'w \<Rightarrow> nat) \<Rightarrow> 'w SyncPinner \<Rightarrow> (PinFailure + unit) \<times> nat \<times> 'w SyncPinner" where
  "sync_reconnect_session elapsed sp =
     (case sp_reconnect sp of
        None \<Rightarrow> (Inl Fatal, 0, sp)
      | Some reconnect \<Rightarrow>
          (case reconnect (sp_client sp) of
             (None, w) \<Rightarrow> (Inl Session, elapsed (sp_client sp) w, sp\<lparr> sp_client := w \<rparr>)
           | (Some key, w) \<Rightarrow>
               (if key \<noteq> sp_key sp then Inl Fatal else Inr (),
                elapsed (sp_client sp) w, sp\<lparr> sp_client := w \<rparr>)))"

definition sync_pinner ::
    "'w BootOracle \<Rightarrow> ('w \<Rightarrow> 'w \<Rightarrow> nat) \<Rightarrow> 'w SyncPinner PinAttempt" where
  "sync_pinner B elapsed =
     \<lparr> pa_pin_once = sync_pin_once B elapsed,
       pa_can_reconnect = (\<lambda>sp. sp_reconnect sp \<noteq> None),
       pa_reconnect_session = sync_reconnect_session elapsed \<rparr>"

definition into_pinner ::
    "('w \<Rightarrow> PcrKey option \<times> 'w) \<Rightarrow> PcrKey \<Rightarrow> Version \<Rightarrow> 'w \<Rightarrow> 'w SyncPinner" where
  "into_pinner reconnect key version w =
     \<lparr> sp_client = w, sp_key = key, sp_expected = version, sp_reconnect = Some reconnect \<rparr>"

subsection \<open>The oracle's contract\<close>

text \<open>What the storage client relies on of the oracle, for its own key: reads are honest and change
  nothing, a pin is a compare-and-swap that lands exactly one version further, a registration and
  a transition create the pin where there was none and hold the commitment that was sent, a
  transition only what some predecessor held (\<open>handed\<close>), and a call whose answer is lost has either
  happened or not.\<close>

locale pin_oracle =
  fixes B :: "'w BootOracle"
    and key :: PcrKey
    and pin_of :: "'w \<Rightarrow> (Commitment \<times> Version) option"
    and handed :: "'w \<Rightarrow> Commitment \<Rightarrow> Version \<Rightarrow> bool"
  assumes get_frame: "bo_get B key w = (r, w') \<Longrightarrow> pin_of w' = pin_of w"
    and get_frame_handed: "bo_get B key w = (r, w') \<Longrightarrow> handed w' c v = handed w c v"
    and get_found: "bo_get B key w = (Some (Inr cv), w') \<Longrightarrow> pin_of w = Some cv"
    and get_missing: "bo_get B key w = (Some (Inl (Ce_Rpc Rpc_NotFound)), w') \<Longrightarrow> pin_of w = None"
    and pin_landed: "bo_pin B key v c w = (Some (Inr v'), w') \<Longrightarrow> v' = v + 1 \<and> pin_of w' = Some (c, v')"
    and pin_step: "bo_pin B key v c w = (rp, w') \<Longrightarrow>
      pin_of w' = pin_of w \<or> (\<exists>c0. pin_of w = Some (c0, v)) \<and> pin_of w' = Some (c, v + 1)"
    and register_landed: "bo_register B key c w = (Some (Inr ()), w') \<Longrightarrow> pin_of w' = Some (c, 0)"
    and register_step: "bo_register B key c w = (rr, w') \<Longrightarrow>
      pin_of w' = pin_of w \<or> pin_of w = None \<and> pin_of w' = Some (c, 0)"
    and transition_step: "bo_transition B link c w = (rt, w') \<Longrightarrow>
      pin_of w' = pin_of w \<or> pin_of w = None \<and> (\<exists>v. pin_of w' = Some (c, v) \<and> handed w c v)"
begin

lemma get_checked_sound:
  assumes "get_checked B key w = (r, w')"
  shows "pin_of w' = pin_of w"
    and "r = Inr (Outcome_Found c v) \<Longrightarrow> pin_of w = Some (c, v)"
    and "r = Inr Outcome_NotFound \<Longrightarrow> pin_of w = None"
    and "handed w' c' v' = handed w c' v'"
proof -
  obtain g w1 where g: "bo_get B key w = (g, w1)" by force
  show "handed w' c' v' = handed w c' v'"
    using assms get_frame_handed [OF g] by (auto simp: get_checked_def g split: option.splits)
  show "pin_of w' = pin_of w"
    using assms get_frame [OF g] by (auto simp: get_checked_def g split: option.splits)
  show "pin_of w = Some (c, v)" if "r = Inr (Outcome_Found c v)"
  proof -
    have "g = Some (Inr (c, v))"
      using assms that
      by (auto simp: get_checked_def g map_err_Inr_iff split: option.splits if_splits elim!: get_outcome.elims)
    then show ?thesis using get_found g by blast
  qed
  show "pin_of w = None" if "r = Inr Outcome_NotFound"
  proof -
    have "g = Some (Inl (Ce_Rpc Rpc_NotFound))"
      using assms that
      by (auto simp: get_checked_def g map_err_Inr_iff split: option.splits if_splits elim!: get_outcome.elims)
    then show ?thesis using get_missing g by blast
  qed
qed

lemma disambiguate_sound:
  assumes "disambiguate_conflict B key c w = (r, w')"
  shows "pin_of w' = pin_of w" and "r = Inr v \<Longrightarrow> pin_of w = Some (c, v)"
proof -
  obtain g w1 where g: "bo_get B key w = (g, w1)" by force
  show "pin_of w' = pin_of w"
    using assms get_frame [OF g]
    by (auto simp: disambiguate_conflict_def g split: option.splits sum.splits)
  show "pin_of w = Some (c, v)" if "r = Inr v"
    using assms that get_found [of w "(c, v)" w1] g
    by (auto simp: disambiguate_conflict_def split: option.splits sum.splits if_splits)
qed

lemma pin_once_sound:
  assumes "pin_once_on B key e c w = (r, e', w')"
  shows "pin_of w' = pin_of w \<or> (\<exists>c0. pin_of w = Some (c0, e)) \<and> pin_of w' = Some (c, e + 1)"
    and "r = Inr () \<Longrightarrow> pin_of w' = Some (c, e')"
    and "r \<noteq> Inr () \<Longrightarrow> e' = e"
proof -
  obtain g w1 where g: "bo_pin B key e c w = (g, w1)" by force
  obtain d w2 where d: "disambiguate_conflict B key c w1 = (d, w2)" by force
  note disamb = disambiguate_sound [OF d]
  have pin: "pin_of w' = pin_of w1"
    using assms disamb(1)
    by (auto simp: pin_once_on_def g d split: option.splits sum.splits if_splits)
  show "pin_of w' = pin_of w \<or> (\<exists>c0. pin_of w = Some (c0, e)) \<and> pin_of w' = Some (c, e + 1)"
    using pin_step [OF g] pin by simp
  show "pin_of w' = Some (c, e')" if "r = Inr ()"
  proof (cases "\<exists>v. g = Some (Inr v)")
    case True
    then obtain v where "g = Some (Inr v)" by blast
    then show ?thesis
      using assms that pin_landed g by (auto simp: pin_once_on_def split: if_splits)
  next
    case False
    then have "g = Some (Inl (Ce_Rpc Rpc_VersionConflict))" "d = Inr e'"
      using assms that by (auto simp: pin_once_on_def g d split: option.splits sum.splits if_splits)
    then show ?thesis using disamb(2) pin by simp
  qed
  show "e' = e" if "r \<noteq> Inr ()"
    using assms that by (auto simp: pin_once_on_def g d split: option.splits sum.splits if_splits)
qed

lemma reverify_sound:
  assumes "reverify_migrated X B key region w = (r, w')"
  shows "pin_of w' = pin_of w" and "r = Inr v \<Longrightarrow> pin_of w = Some (commitment_of_region X region, v)"
proof -
  obtain g w2 where g: "get_checked B key w = (g, w2)" by force
  have "w' = w2"
    using assms by (auto simp: reverify_migrated_def g split: sum.splits BootDecision.splits)
  then show "pin_of w' = pin_of w" using get_checked_sound(1) [OF g] by simp
  assume "r = Inr v"
  then obtain outcome where "g = Inr outcome" "boot_decision X region outcome UpgradeTarget = Serve"
      "v = found_version outcome"
    using assms by (auto simp: reverify_migrated_def g split: sum.splits BootDecision.splits)
  then show "pin_of w = Some (commitment_of_region X region, v)"
    using get_checked_sound(2) [OF g] by (auto simp: boot_decision_Serve commitment_of_region_def)
qed

lemma transition_sound:
  assumes "transition_and_reverify X B key region link reason w = (r, w')" and "pin_of w = None"
  defines "c \<equiv> commitment_of_region X region"
  shows "pin_of w' = None \<or> (\<exists>v. pin_of w' = Some (c, v) \<and> handed w c v)"
    and "r = Inr v \<Longrightarrow> pin_of w' = Some (c, v)"
proof -
  have "(pin_of w' = None \<or> (\<exists>v. pin_of w' = Some (c, v) \<and> handed w c v)) \<and>
      (\<forall>v. r = Inr v \<longrightarrow> pin_of w' = Some (c, v))"
  proof (cases link)
    case None
    then show ?thesis using assms by (auto simp: transition_and_reverify_def)
  next
    case (Some l)
    obtain g w1 where g: "bo_transition B l c w = (g, w1)" by force
    obtain q w2 where q: "reverify_migrated X B key region w1 = (q, w2)" by force
    have "w' = w \<and> \<not> is_ok r \<or> w' = w1 \<and> \<not> is_ok r \<or> r = q \<and> w' = w2"
      using assms(1) unfolding transition_and_reverify_def Some c_def [symmetric]
      by (auto simp: g q split: if_splits sum.splits option.splits)
    then show ?thesis
      using transition_step [OF g] reverify_sound [OF q] assms(2) by (auto simp: is_ok_iff c_def)
  qed
  then show "pin_of w' = None \<or> (\<exists>v. pin_of w' = Some (c, v) \<and> handed w c v)"
      "r = Inr v \<Longrightarrow> pin_of w' = Some (c, v)"
    by blast+
qed

lemma register_sound:
  assumes "bo_register B key c w1 = (q, w2)" and "disambiguate_conflict B key c w2 = (d, w3)"
    and "pin_of w1 = None"
    and "(r, w') = (case q of
        None \<Rightarrow> (Inl Boot_RegisterTimedOut, w2)
      | Some (Inr _) \<Rightarrow> (Inr 0, w2)
      | Some (Inl e) \<Rightarrow>
          if e = Ce_Rpc Rpc_AlreadyRegistered then
            (case d of Inl failure \<Rightarrow> (Inl (Boot_RegisterConflict failure), w3)
             | Inr version \<Rightarrow> if version \<noteq> 0 then (Inl Boot_RegisterRaced, w3) else (Inr 0, w3))
          else (Inl (Boot_RegisterFailed e), w2))"
  shows "(pin_of w' = None \<or> pin_of w' = Some (c, 0)) \<and> (\<forall>v. r = Inr v \<longrightarrow> v = 0 \<and> pin_of w' = Some (c, 0))"
  using assms(3,4) register_step [OF assms(1)] register_landed [of c w1 w2] assms(1)
    disambiguate_sound [OF assms(2)]
  by (auto split: option.splits sum.splits if_splits)

lemma verify_or_register_sound:
  assumes "verify_or_register X B key role region link w = (r, w')"
  defines "c \<equiv> commitment_of_region X region"
  shows "pin_of w' = pin_of w \<or> pin_of w = None \<and>
      (pin_of w' = Some (c, 0) \<and> role = Genesis \<and> region_is_blank region \<or>
       (\<exists>v. pin_of w' = Some (c, v) \<and> handed w c v))"
    and "r = Inr v \<Longrightarrow> pin_of w' = Some (c, v)"
proof -
  obtain g w1 where g: "get_checked B key w = (g, w1)" by force
  note got = get_checked_sound [OF g]
  have "(pin_of w' = pin_of w \<or> pin_of w = None \<and>
      (pin_of w' = Some (c, 0) \<and> role = Genesis \<and> region_is_blank region \<or>
       (\<exists>v. pin_of w' = Some (c, v) \<and> handed w c v))) \<and>
      (\<forall>v. r = Inr v \<longrightarrow> pin_of w' = Some (c, v))"
  proof (cases g)
    case (Inl e)
    then show ?thesis using assms(1) got(1) by (auto simp: verify_or_register_def g)
  next
    case (Inr outcome)
    show ?thesis
    proof (cases "boot_decision X region outcome role")
      case Serve
      then obtain v where "outcome = Outcome_Found c v"
        by (auto simp: boot_decision_Serve c_def commitment_of_region_def)
      then show ?thesis
        using assms(1) got(1,2) Inr Serve by (auto simp: verify_or_register_def g)
    next
      case RegisterThenServe
      then have none: "pin_of w = None" "pin_of w1 = None" "role = Genesis" "region_is_blank region"
        using got(1,3) Inr by (simp_all add: boot_decision_Register)
      obtain q w2 where q: "bo_register B key c w1 = (q, w2)" by force
      obtain d w3 where d: "disambiguate_conflict B key c w2 = (d, w3)" by force
      have "(pin_of w' = None \<or> pin_of w' = Some (c, 0)) \<and> (\<forall>v. r = Inr v \<longrightarrow> v = 0 \<and> pin_of w' = Some (c, 0))"
        by (rule register_sound [OF q d none(2)])
          (use assms(1) Inr RegisterThenServe in \<open>auto simp: verify_or_register_def g q d c_def [symmetric]
            split: option.splits sum.splits\<close>)
      then show ?thesis using none by auto
    next
      case (TransitionOrFailStop reason)
      then have none: "pin_of w1 = None" "pin_of w = None"
        using got Inr boot_decision_Transition [of X region outcome role] by auto
      have t: "transition_and_reverify X B key region link reason w1 = (r, w')"
        using assms(1) Inr TransitionOrFailStop by (simp add: verify_or_register_def g)
      show ?thesis
        using transition_sound [OF t none(1)] none got(4) by (auto simp: c_def)
    next
      case (FailStop reason)
      then show ?thesis using assms(1) got(1) Inr by (auto simp: verify_or_register_def g)
    qed
  qed
  then show "pin_of w' = pin_of w \<or> pin_of w = None \<and>
      (pin_of w' = Some (c, 0) \<and> role = Genesis \<and> region_is_blank region \<or>
       (\<exists>v. pin_of w' = Some (c, v) \<and> handed w c v))" "r = Inr v \<Longrightarrow> pin_of w' = Some (c, v)"
    by blast+
qed

text \<open>The pinner: whatever happened on the way, the pin has not moved, or has moved once, to the
  commitment that was asked for; and success means it holds that commitment at the version the
  pinner goes on with.\<close>

lemma pinner_sound:
  assumes key: "sp_key sp = key"
    and reconnects: "\<forall>reconnect w. sp_reconnect sp = Some reconnect \<longrightarrow> pin_of (snd (reconnect w)) = pin_of w"
    and run: "pin_with_retries (sync_pinner B elapsed) c now sp = (r, sp')"
  shows "pin_of (sp_client sp') = pin_of (sp_client sp) \<or>
      (\<exists>c0. pin_of (sp_client sp) = Some (c0, sp_expected sp)) \<and>
      pin_of (sp_client sp') = Some (c, sp_expected sp + 1)"
    and "is_ok r \<Longrightarrow> pin_of (sp_client sp') = Some (c, sp_expected sp')"
    and "sp_key sp' = key" and "\<not> is_ok r \<Longrightarrow> sp_expected sp' = sp_expected sp"
    and "sp_reconnect sp' = sp_reconnect sp"
proof -
  have dial: "pin_of w' = pin_of w"
    if "sp_reconnect sp = Some reconnect" "reconnect w = (k, w')" for reconnect w k w'
    using reconnects that by (metis snd_conv)
  let ?moved = "\<lambda>w. pin_of w = pin_of (sp_client sp) \<or>
      (\<exists>c0. pin_of (sp_client sp) = Some (c0, sp_expected sp)) \<and> pin_of w = Some (c, sp_expected sp + 1)"
  define P where "P = (\<lambda>q :: 'w SyncPinner. sp_key q = key \<and> sp_reconnect q = sp_reconnect sp \<and>
      sp_expected q = sp_expected sp \<and> ?moved (sp_client q))"
  define Q where "Q = (\<lambda>q :: 'w SyncPinner. sp_key q = key \<and> sp_reconnect q = sp_reconnect sp \<and> ?moved (sp_client q) \<and>
      pin_of (sp_client q) = Some (c, sp_expected q))"
  have attempt: "if is_ok f then Q q' else P q'"
    if "P q" "pa_pin_once (sync_pinner B elapsed) c q = (f, dt, q')" for q f dt q'
  proof -
    obtain f' e w where once: "pin_once_on B key (sp_expected sp) c (sp_client q) = (f', e, w)"
      by (metis prod_cases3)
    with that have e: "pin_once_on B key (sp_expected sp) c (sp_client q) = (f, e, w)"
        "q' = q\<lparr> sp_expected := e, sp_client := w \<rparr>"
      by (auto simp: sync_pinner_def sync_pin_once_def P_def)
    note once = pin_once_sound [OF e(1)]
    have "?moved w"
      using that(1) once(1) by (auto simp: P_def)
    with that(1) once(2,3) e(2) show ?thesis
      by (cases f) (auto simp: P_def Q_def)
  qed
  have rec: "P q'" if "P q" "pa_reconnect_session (sync_pinner B elapsed) q = (f, dt, q')" for q f dt q'
    using that dial
    by (auto simp: sync_pinner_def sync_reconnect_session_def P_def split: option.splits prod.splits)
  have "P sp"
    using key by (simp add: P_def)
  have "if is_ok (fst (pin_loop (sync_pinner B elapsed) c 0 None now sp))
      then Q (snd (pin_loop (sync_pinner B elapsed) c 0 None now sp))
      else P (snd (pin_loop (sync_pinner B elapsed) c 0 None now sp))"
    by (rule pin_loop_rule [of P, OF attempt rec \<open>P sp\<close>])
  then have "if is_ok r then Q sp' else P sp'"
    using run by (simp add: pin_with_retries_def split: if_splits)
  then show "?moved (sp_client sp')" "is_ok r \<Longrightarrow> pin_of (sp_client sp') = Some (c, sp_expected sp')"
      "sp_key sp' = key" "\<not> is_ok r \<Longrightarrow> sp_expected sp' = sp_expected sp"
      "sp_reconnect sp' = sp_reconnect sp"
    by (auto simp: P_def Q_def split: if_splits)
qed

end


subsection \<open>A node behind a lossy link keeps the contract\<close>

definition node_pin :: "PcrKey \<Rightarrow> Node \<Rightarrow> (Commitment \<times> Version) option" where
  "node_pin key node =
     map_option (\<lambda>s. (ks_commitment s, ks_version s)) (sm_get (node_inner node) key)"

lemma node_get_pin:
  assumes "node_handle_request X now key (Req_Get key) node = (resp, node')"
  shows "node' = node \<and> resp = (case node_pin key node of Some (c, v) \<Rightarrow> GetOk c v | None \<Rightarrow> Resp_Err Rpc_NotFound)"
  using assms by (auto simp: node_handle_get_def node_pin_def split: option.splits)

lemma node_pin_pin:
  assumes "node_handle_request X now key (Req_Pin key v c) node = (resp, node')"
  shows "resp = PinOk (v + 1) \<and> (\<exists>c0. node_pin key node = Some (c0, v)) \<and> node_pin key node' = Some (c, v + 1) \<or>
    (\<exists>e. resp = Resp_Err e) \<and> node_pin key node' = node_pin key node"
proof (cases rule: op_result_cases [of "Op_Pin key v c" "node_inner node"])
  case (1 e)
  then show ?thesis using assms by (auto simp: node_handle_pin_def)
next
  case (2 st sm')
  then have ok: "apply_pin key v c (node_inner node) = (Inr st, sm')" by simp
  then have "resp = PinOk (ks_version st)" "node' = node\<lparr> node_inner := sm' \<rparr>"
    using assms by (simp_all add: node_handle_pin_def)
  with ok show ?thesis
    unfolding apply_pin_ok by (auto simp: node_pin_def sm_get_def)
qed

lemma node_register_pin:
  assumes "node_handle_request X now key (Req_Register key c) node = (resp, node')"
  shows "resp = RegisterOk \<and> node_pin key node = None \<and> node_pin key node' = Some (c, 0) \<or>
    (\<exists>e. resp = Resp_Err e) \<and> node_pin key node' = node_pin key node"
proof (cases rule: op_result_cases [of "Op_Register key c" "node_inner node"])
  case (1 e)
  then show ?thesis using assms by (auto simp: node_handle_register_def)
next
  case (2 st sm')
  then have ok: "apply_register key c (node_inner node) = (Inr st, sm')" by simp
  then have "resp = RegisterOk" "node' = node\<lparr> node_inner := sm' \<rparr>"
    using assms by (simp_all add: node_handle_register_def)
  with ok show ?thesis
    unfolding apply_register_ok by (auto simp: node_pin_def sm_get_def)
qed

lemma node_transition_pin:
  assumes "node_handle_request X now key (Req_Transition link c) node = (resp, node')"
  shows "(\<exists>v. resp = TransitionOk v \<and> node_pin key node = None \<and> node_pin key node' = Some (c, v) \<and>
      (\<exists>old. old \<noteq> key \<and> node_pin old node = Some (c, v) \<and> node_pin old node' = None)) \<or>
    (\<exists>e. resp = Resp_Err e) \<and> node_pin key node' = node_pin key node"
proof -
  have "node_handle_transition X now key link c node = (resp, node')"
    using assms by simp
  then show ?thesis
  proof (cases rule: node_transition_cases)
    case (refused err "is")
    then show ?thesis by (simp add: node_pin_def authorize_only_get)
  next
    case (accepted now_ms d old v st sm')
    have new: "vt_new_key v = key"
      using node_transition_accepted_get [OF accepted(4,2,5)] by metis
    show ?thesis
      using accepted(5-7) new
      by (auto simp: apply_transition_ok node_pin_def sm_get_def observe_transition_def)
  qed
qed

definition net_pin :: "PcrKey \<Rightarrow> Net \<Rightarrow> (Commitment \<times> Version) option" where
  "net_pin key net = node_pin key (net_node net)"

text \<open>One call over the link: it was executed and answered, or its answer is an error of the link or
  \<open>Unavailable\<close>, and it was executed or not.\<close>

lemma net_call_cases:
  assumes "client_call (net_rpc X key) req answer net = (r, net')"
  obtains (answered) resp node where "r = Some (answer resp)"
      "node_handle_request X (net_clock net) key req (net_node net) = (resp, node)"
      "net_node net' = node" "net_losses net' = net_losses net" "net_unavailable net' = net_unavailable net"
  | (lost) resp node where "r \<in> {None, Some (Inl Ce_Io), Some (Inl Ce_ConnectionClosed)}"
      "node_handle_request X (net_clock net) key req (net_node net) = (resp, node)"
      "net_node net' = net_node net \<or> net_node net' = node" "net_losses net' < net_losses net"
      "net_unavailable net' = net_unavailable net"
  | (no_quorum) resp node where "r = Some (answer (Resp_Err Rpc_Unavailable))"
      "node_handle_request X (net_clock net) key req (net_node net) = (resp, node)"
      "net_node net' = net_node net \<or> net_node net' = node" "net_losses net' = net_losses net"
      "net_unavailable net' < net_unavailable net"
proof -
  obtain a w where a: "net_rpc X key req net = (a, w)" by force
  then have r: "r = map_option (\<lambda>resp. and_then resp answer) a" "net' = w"
    using assms by (simp_all add: client_call_def)
  from a show thesis
  proof (cases rule: net_rpc_cases)
    case (answered resp node)
    then show thesis using r that(1) by simp
  next
    case (lost resp node)
    then show thesis using r that(2) [of resp node] by auto
  next
    case (no_quorum resp node)
    then show thesis using r that(3) [of resp node] by simp
  qed
qed

definition net_handed :: "PcrKey \<Rightarrow> Net \<Rightarrow> Commitment \<Rightarrow> Version \<Rightarrow> bool" where
  "net_handed key net c v \<longleftrightarrow> (\<exists>old. old \<noteq> key \<and> node_pin old (net_node net) = Some (c, v))"

interpretation net: pin_oracle "client_oracle (net_rpc X key)" key "net_pin key" "net_handed key"
  for X :: "'x ChainExt_scheme" and key
proof unfold_locales
  fix w w' and r cv
  show "net_pin key w' = net_pin key w" if "bo_get (client_oracle (net_rpc X key)) key w = (r, w')"
  proof -
    have "client_call (net_rpc X key) (Req_Get key) get_answer w = (r, w')"
      using that by (simp add: client_oracle_def client_get_def)
    then show ?thesis
      by (cases rule: net_call_cases) (auto dest!: node_get_pin simp: net_pin_def simp del: node_handle_request.simps)
  qed
  show "net_handed key w' c v = net_handed key w c v"
    if "bo_get (client_oracle (net_rpc X key)) key w = (r, w')" for c v
  proof -
    have "client_call (net_rpc X key) (Req_Get key) get_answer w = (r, w')"
      using that by (simp add: client_oracle_def client_get_def)
    then have "net_node w' = net_node w"
      by (cases rule: net_call_cases) (auto dest!: node_get_pin simp del: node_handle_request.simps)
    then show ?thesis by (simp add: net_handed_def)
  qed
  show "net_pin key w = Some cv" if "bo_get (client_oracle (net_rpc X key)) key w = (Some (Inr cv), w')"
  proof -
    have "client_call (net_rpc X key) (Req_Get key) get_answer w = (Some (Inr cv), w')"
      using that by (simp add: client_oracle_def client_get_def)
    then show ?thesis
      by (cases rule: net_call_cases) (auto dest!: node_get_pin simp: net_pin_def simp del: node_handle_request.simps split: option.splits)
  qed
  show "net_pin key w = None"
    if "bo_get (client_oracle (net_rpc X key)) key w = (Some (Inl (Ce_Rpc Rpc_NotFound)), w')"
  proof -
    have "client_call (net_rpc X key) (Req_Get key) get_answer w = (Some (Inl (Ce_Rpc Rpc_NotFound)), w')"
      using that by (simp add: client_oracle_def client_get_def)
    then show ?thesis
      by (cases rule: net_call_cases) (auto dest!: node_get_pin simp: net_pin_def simp del: node_handle_request.simps split: option.splits)
  qed
next
  fix v c w v' w' and r
  assume "bo_pin (client_oracle (net_rpc X key)) key v c w = (r, w')"
  then have call: "client_call (net_rpc X key) (Req_Pin key v c) pin_answer w = (r, w')"
    by (simp add: client_oracle_def client_pin_def)
  then show "net_pin key w' = net_pin key w \<or>
      (\<exists>c0. net_pin key w = Some (c0, v)) \<and> net_pin key w' = Some (c, v + 1)"
    by (cases rule: net_call_cases) (auto dest!: node_pin_pin simp: net_pin_def simp del: node_handle_request.simps)
next
  fix v c w v' w'
  assume "bo_pin (client_oracle (net_rpc X key)) key v c w = (Some (Inr v'), w')"
  then have "client_call (net_rpc X key) (Req_Pin key v c) pin_answer w = (Some (Inr v'), w')"
    by (simp add: client_oracle_def client_pin_def)
  then show "v' = v + 1 \<and> net_pin key w' = Some (c, v')"
    by (cases rule: net_call_cases) (auto dest!: node_pin_pin simp: net_pin_def simp del: node_handle_request.simps)
next
  fix c w w'
  assume "bo_register (client_oracle (net_rpc X key)) key c w = (Some (Inr ()), w')"
  then have "client_call (net_rpc X key) (Req_Register key c) register_answer w = (Some (Inr ()), w')"
    by (simp add: client_oracle_def client_register_def)
  then show "net_pin key w' = Some (c, 0)"
    by (cases rule: net_call_cases) (auto dest!: node_register_pin simp: net_pin_def simp del: node_handle_request.simps)
next
  fix c w w' and r
  assume "bo_register (client_oracle (net_rpc X key)) key c w = (r, w')"
  then have "client_call (net_rpc X key) (Req_Register key c) register_answer w = (r, w')"
    by (simp add: client_oracle_def client_register_def)
  then show "net_pin key w' = net_pin key w \<or> net_pin key w = None \<and> net_pin key w' = Some (c, 0)"
    by (cases rule: net_call_cases) (auto dest!: node_register_pin simp: net_pin_def simp del: node_handle_request.simps)
next
  fix link c w w' and r
  assume "bo_transition (client_oracle (net_rpc X key)) link c w = (r, w')"
  then have "client_call (net_rpc X key) (Req_Transition link c) transition_answer w = (r, w')"
    by (simp add: client_oracle_def client_transition_def)
  then show "net_pin key w' = net_pin key w \<or> net_pin key w = None \<and>
      (\<exists>v. net_pin key w' = Some (c, v) \<and> net_handed key w c v)"
    by (cases rule: net_call_cases) (auto dest!: node_transition_pin simp: net_pin_def net_handed_def simp del: node_handle_request.simps)
qed


subsection \<open>Properties\<close>

text \<open>C5. A volume is served only in its pinned state. When boot verification succeeds, over a link
  that may lose messages, the oracle's pin of the booting identity is the commitment of exactly
  the region read from the device, at the version handed to the pinner. That pin was there
  already, or the identity had none and either a blank device of a genesis image was registered
  at version 0, or the pin of a predecessor with this very commitment and version was taken over.
  A device rolled back to an older state is never served.\<close>

theorem boot_serves_only_pinned:
  assumes "verify_or_register X (client_oracle (net_rpc X key)) key role region link net = (Inr v, net')"
  shows "net_pin key net' = Some (sha256 X region, v) \<and>
    (net_pin key net = Some (sha256 X region, v) \<or>
     net_pin key net = None \<and>
       (role = Genesis \<and> region_is_blank region \<and> v = 0 \<or>
        (\<exists>old. old \<noteq> key \<and> node_pin old (net_node net) = Some (sha256 X region, v))))"
  using net.verify_or_register_sound [OF assms] by (auto simp: commitment_of_region_def net_handed_def)

text \<open>C15. Retrying a pin is safe. Whatever the link loses and however often the oracle
  answers \<open>Unavailable\<close>, a run of the retry policy leaves the oracle's pin as it was or
  moves it exactly once, to the commitment asked for at the next version; when the run reports
  success the pin holds that commitment at the version the pinner goes on with, and when it gives up
  the expected version is unchanged.\<close>

theorem retried_pin_lands_once:
  assumes "sp_key sp = key"
    and "\<forall>reconnect w. sp_reconnect sp = Some reconnect \<longrightarrow> net_node (snd (reconnect w)) = net_node w"
    and "pin_with_retries (sync_pinner (client_oracle (net_rpc X key)) elapsed) c now sp = (r, sp')"
  shows "(net_pin key (sp_client sp') = net_pin key (sp_client sp) \<or>
      (\<exists>c0. net_pin key (sp_client sp) = Some (c0, sp_expected sp)) \<and>
      net_pin key (sp_client sp') = Some (c, sp_expected sp + 1)) \<and>
    (is_ok r \<longrightarrow> net_pin key (sp_client sp') = Some (c, sp_expected sp')) \<and>
    (\<not> is_ok r \<longrightarrow> sp_expected sp' = sp_expected sp)"
proof -
  have "\<forall>reconnect w. sp_reconnect sp = Some reconnect \<longrightarrow> net_pin key (snd (reconnect w)) = net_pin key w"
    using assms(2) by (simp add: net_pin_def)
  from net.pinner_sound [OF assms(1) this assms(3)] show ?thesis
    by blast
qed

text \<open>One attempt on a link whose oracle holds the expected version, or already our commitment one
  version further: it succeeds, or it used up a loss or an answer without a quorum.\<close>

definition pin_ready :: "PcrKey \<Rightarrow> Version \<Rightarrow> Commitment \<Rightarrow> Net \<Rightarrow> bool" where
  "pin_ready key e c net \<longleftrightarrow>
     (\<exists>c0. net_pin key net = Some (c0, e)) \<or> net_pin key net = Some (c, e + 1)"

lemma node_pin_answer:
  assumes "node_handle_request X now key (Req_Pin key e c) node = (resp, node')"
  shows "node_pin key node = Some (c0, e) \<Longrightarrow> resp = PinOk (e + 1) \<and> node_pin key node' = Some (c, e + 1)"
    and "node_pin key node = Some (c, e + 1) \<Longrightarrow>
      resp = Resp_Err Rpc_VersionConflict \<and> node_pin key node' = Some (c, e + 1)"
  using assms
  by (auto simp: node_handle_pin_def apply_pin_def node_pin_def sm_get_def Let_def split: if_splits)

lemma pin_once_live:
  assumes ready: "pin_ready key e c net"
    and once: "pin_once_on (client_oracle (net_rpc X key)) key e c net = (r, e', net')"
  shows "r = Inr () \<and> e' = e + 1 \<and> net_pin key net' = Some (c, e + 1) \<or>
    e' = e \<and> pin_ready key e c net' \<and>
    (r = Inl Session \<and> net_losses net' < net_losses net \<and> net_unavailable net' = net_unavailable net \<or>
     r = Inl Unavailable \<and> net_losses net' = net_losses net \<and> net_unavailable net' < net_unavailable net)"
proof -
  obtain g net1 where g: "client_call (net_rpc X key) (Req_Pin key e c) pin_answer net = (g, net1)"
    by force
  then have bo: "bo_pin (client_oracle (net_rpc X key)) key e c net = (g, net1)"
    by (simp add: client_oracle_def client_pin_def)
  have ready1: "pin_ready key e c net1"
    using net.pin_step [OF bo] ready by (auto simp: pin_ready_def)
  from g show ?thesis
  proof (cases rule: net_call_cases)
    case (lost resp node)
    then have "r = Inl Session \<and> e' = e \<and> net' = net1"
      using once bo by (auto simp: pin_once_on_def classify_pin_error_def)
    then show ?thesis using ready1 lost(4,5) by simp
  next
    case (no_quorum resp node)
    then have "r = Inl Unavailable \<and> e' = e \<and> net' = net1"
      using once bo by (simp add: pin_once_on_def classify_pin_error_def)
    then show ?thesis using ready1 no_quorum(4,5) by simp
  next
    case (answered resp node)
    show ?thesis
    proof (cases "net_pin key net = Some (c, e + 1)")
      case False
      then have "resp = PinOk (e + 1)" "net_pin key net1 = Some (c, e + 1)"
        using ready node_pin_answer(1) [OF answered(2)] answered(3) by (auto simp: pin_ready_def net_pin_def)
      then show ?thesis using once bo answered(1) by (auto simp: pin_once_on_def)
    next
      case True
      then have resp: "resp = Resp_Err Rpc_VersionConflict" and pin1: "net_pin key net1 = Some (c, e + 1)"
        using node_pin_answer(2) [OF answered(2)] answered(3) by (auto simp: net_pin_def)
      obtain q net2 where q: "client_call (net_rpc X key) (Req_Get key) get_answer net1 = (q, net2)"
        by force
      then have bog: "bo_get (client_oracle (net_rpc X key)) key net1 = (q, net2)"
        by (simp add: client_oracle_def client_get_def)
      have pin2: "net_pin key net2 = Some (c, e + 1)"
        using net.get_frame [OF bog] pin1 by simp
      note attempt = once bo bog answered(1) resp pin2
      from q show ?thesis
      proof (cases rule: net_call_cases)
        case got: (answered resp' node')
        then have "q = Some (Inr (c, e + 1))"
          using node_get_pin [OF got(2)] pin1 by (simp add: net_pin_def)
        then show ?thesis
          using attempt by (auto simp: pin_once_on_def disambiguate_conflict_def)
      next
        case (lost resp' node')
        then have "r = Inl Session \<and> e' = e \<and> net' = net2"
          using attempt by (auto simp: pin_once_on_def disambiguate_conflict_def classify_pin_error_def)
        then show ?thesis using lost(4,5) answered(4,5) pin2 by (simp add: pin_ready_def)
      next
        case (no_quorum resp' node')
        then have "r = Inl Unavailable \<and> e' = e \<and> net' = net2"
          using attempt by (auto simp: pin_once_on_def disambiguate_conflict_def classify_pin_error_def)
        then show ?thesis using no_quorum(4,5) answered(4,5) pin2 by (simp add: pin_ready_def)
      qed
    qed
  qed
qed

text \<open>The time the retries may still take: \<open>t\<close> bounds one attempt and one reconnection.\<close>

definition retry_time :: "nat \<Rightarrow> Net \<Rightarrow> nat" where
  "retry_time t net = net_unavailable net * (t + SYNC_UNAVAILABLE_BACKOFF) +
     net_losses net * (2 * t + SYNC_RECONNECT_BACKOFF)"

definition in_budget :: "(Net \<Rightarrow> Net \<Rightarrow> nat) \<Rightarrow> nat option \<Rightarrow> nat \<Rightarrow> Net \<Rightarrow> bool" where
  "in_budget elapsed deadline now net \<longleftrightarrow> net_unavailable net = 0 \<or>
     (\<exists>t. (\<forall>w w'. elapsed w w' \<le> t) \<and>
        (case deadline of
           None \<Rightarrow> retry_time t net < SYNC_UNAVAILABLE_BUDGET
         | Some d \<Rightarrow> now + retry_time t net < d))"

lemma in_budget_session:
  assumes "in_budget elapsed deadline now net"
    and "net_losses net' < net_losses net" "net_unavailable net' = net_unavailable net"
  shows "in_budget elapsed deadline (now + elapsed net1 net2 + SYNC_RECONNECT_BACKOFF + elapsed net3 net4) net'"
proof (cases "net_unavailable net = 0")
  case False
  then obtain t where t: "\<forall>w w'. elapsed w w' \<le> t"
      "case deadline of None \<Rightarrow> retry_time t net < SYNC_UNAVAILABLE_BUDGET | Some d \<Rightarrow> now + retry_time t net < d"
    using assms(1) by (auto simp: in_budget_def)
  have "Suc (net_losses net') * (2 * t + SYNC_RECONNECT_BACKOFF) \<le> net_losses net * (2 * t + SYNC_RECONNECT_BACKOFF)"
    using assms(2) by (intro mult_le_mono1) simp
  then have "retry_time t net' + 2 * t + SYNC_RECONNECT_BACKOFF \<le> retry_time t net"
    using assms(3) by (simp add: retry_time_def)
  moreover have "elapsed net1 net2 \<le> t" "elapsed net3 net4 \<le> t"
    using t(1) by simp_all
  ultimately have "case deadline of None \<Rightarrow> retry_time t net' < SYNC_UNAVAILABLE_BUDGET
      | Some d \<Rightarrow> now + elapsed net1 net2 + SYNC_RECONNECT_BACKOFF + elapsed net3 net4 + retry_time t net' < d"
    using t(2) by (auto split: option.splits)
  with t(1) show ?thesis
    unfolding in_budget_def by blast
qed (use assms(3) in \<open>simp add: in_budget_def\<close>)

lemma in_budget_unavailable:
  fixes net1 net2 :: Net
  assumes "in_budget elapsed deadline now net" and "net_unavailable net' < net_unavailable net"
    and "net_losses net' = net_losses net"
  defines "now' \<equiv> now + elapsed net1 net2"
  defines "d \<equiv> (case deadline of None \<Rightarrow> now' + SYNC_UNAVAILABLE_BUDGET | Some d \<Rightarrow> d)"
  shows "now' + SYNC_UNAVAILABLE_BACKOFF < d \<and>
    in_budget elapsed (Some d) (now' + SYNC_UNAVAILABLE_BACKOFF) net'"
proof -
  obtain t where t: "\<forall>w w'. elapsed w w' \<le> t"
      "case deadline of None \<Rightarrow> retry_time t net < SYNC_UNAVAILABLE_BUDGET | Some d \<Rightarrow> now + retry_time t net < d"
    using assms(1,2) by (auto simp: in_budget_def)
  have "Suc (net_unavailable net') * (t + SYNC_UNAVAILABLE_BACKOFF) \<le>
      net_unavailable net * (t + SYNC_UNAVAILABLE_BACKOFF)"
    using assms(2) by (intro mult_le_mono1) simp
  then have "retry_time t net' + t + SYNC_UNAVAILABLE_BACKOFF \<le> retry_time t net"
    using assms(3) by (simp add: retry_time_def)
  moreover have "elapsed net1 net2 \<le> t"
    using t(1) by simp
  ultimately have "now' + SYNC_UNAVAILABLE_BACKOFF + retry_time t net' < d"
    using t(2) by (auto simp: d_def now'_def split: option.splits)
  then show ?thesis
    unfolding in_budget_def using t(1) by auto
qed

lemma pin_loop_live:
  assumes "sp_key sp = key" "sp_expected sp = e" "sp_reconnect sp = Some (\<lambda>w. (Some key, w))"
    and "pin_ready key e c (sp_client sp)" and "n + net_losses (sp_client sp) \<le> 3"
    and "in_budget elapsed deadline now (sp_client sp)"
  shows "\<exists>sp'. pin_loop (sync_pinner (client_oracle (net_rpc X key)) elapsed) c n deadline now sp = (Inr (), sp') \<and>
    net_pin key (sp_client sp') = Some (c, e + 1) \<and> sp_expected sp' = e + 1"
  using assms
proof (induction "net_losses (sp_client sp) + net_unavailable (sp_client sp)" arbitrary: sp n deadline now
    rule: less_induct)
  case less
  let ?T = "sync_pinner (client_oracle (net_rpc X key)) elapsed"
  obtain r e' w where once: "pin_once_on (client_oracle (net_rpc X key)) key e c (sp_client sp) = (r, e', w)"
    by (metis prod_cases3)
  let ?sp = "sp\<lparr> sp_expected := e', sp_client := w \<rparr>" and ?now = "now + elapsed (sp_client sp) w"
  have att: "pa_pin_once ?T c sp = (r, elapsed (sp_client sp) w, ?sp)"
    using once less.prems(1,2) by (simp add: sync_pinner_def sync_pin_once_def)
  from pin_once_live [OF less.prems(4) once] show ?case
  proof (elim disjE conjE)
    assume "r = Inr ()" "e' = e + 1" "net_pin key w = Some (c, e + 1)"
    then show ?thesis using att by (subst pin_loop.simps) simp
  next
    assume r: "e' = e" "pin_ready key e c w" "r = Inl Session" and fewer:
      "net_losses w < net_losses (sp_client sp)" "net_unavailable w = net_unavailable (sp_client sp)"
    let ?then = "?now + SYNC_RECONNECT_BACKOFF + elapsed w w"
    have n: "n < 3" using fewer less.prems(5) by simp
    have rec: "pa_reconnect_session ?T ?sp = (Inr (), elapsed w w, ?sp)"
      using less.prems(1,3) by (simp add: sync_pinner_def sync_reconnect_session_def)
    have rl: "reconnect_loop ?T n ?now ?sp = (Inr (), n + 1, ?then, ?sp)"
      using n rec by (subst reconnect_loop.simps) (simp add: sync_consts)
    have can: "pa_can_reconnect ?T ?sp"
      using less.prems(3) by (simp add: sync_pinner_def)
    have "pin_loop ?T c n deadline now sp = pin_loop ?T c (n + 1) deadline ?then ?sp"
      using att r(3) can rl by (subst pin_loop.simps) (simp add: Let_def)
    moreover have "\<exists>sp'. pin_loop ?T c (n + 1) deadline ?then ?sp = (Inr (), sp') \<and>
        net_pin key (sp_client sp') = Some (c, e + 1) \<and> sp_expected sp' = e + 1"
      using r fewer less.prems(1-5) in_budget_session [OF less.prems(6) fewer]
      by (intro less.hyps) simp_all
    ultimately show ?thesis by simp
  next
    assume r: "e' = e" "pin_ready key e c w" "r = Inl Unavailable" and fewer:
      "net_losses w = net_losses (sp_client sp)" "net_unavailable w < net_unavailable (sp_client sp)"
    let ?d = "case deadline of None \<Rightarrow> ?now + SYNC_UNAVAILABLE_BUDGET | Some d \<Rightarrow> d"
    note budget = in_budget_unavailable [OF less.prems(6) fewer(2,1), of "sp_client sp" w]
    have "pin_loop ?T c n deadline now sp = pin_loop ?T c n (Some ?d) (?now + SYNC_UNAVAILABLE_BACKOFF) ?sp"
      using att r(3) budget by (subst pin_loop.simps) (simp add: Let_def)
    moreover have "\<exists>sp'. pin_loop ?T c n (Some ?d) (?now + SYNC_UNAVAILABLE_BACKOFF) ?sp = (Inr (), sp') \<and>
        net_pin key (sp_client sp') = Some (c, e + 1) \<and> sp_expected sp' = e + 1"
      using r fewer less.prems(1-5) budget by (intro less.hyps) simp_all
    ultimately show ?thesis by simp
  qed
qed

text \<open>C31. A pin gets through a bad link. If the oracle is at the expected version, reconnecting works
  and the link loses at most three exchanges (requests or answers, in any order, including those
  of the conflict resolution), the retry policy succeeds: the commitment is pinned exactly one
  version further and the pinner knows it. Answers without a quorum, after which the pin may or
  may not have landed, do not count as losses; any number of them is survived that fits the time
  budget, with \<open>t\<close> a bound on one attempt and on one reconnection.\<close>

theorem pin_survives_three_losses:
  assumes "sp_key sp = key" and "sp_reconnect sp = Some (\<lambda>w. (Some key, w))"
    and "net_pin key (sp_client sp) = Some (c0, sp_expected sp)"
    and "net_losses (sp_client sp) \<le> 3"
    and "net_unavailable (sp_client sp) = 0 \<or> (\<forall>w w'. elapsed w w' \<le> t) \<and>
      net_unavailable (sp_client sp) * (t + SYNC_UNAVAILABLE_BACKOFF) +
      net_losses (sp_client sp) * (2 * t + SYNC_RECONNECT_BACKOFF) < SYNC_UNAVAILABLE_BUDGET"
  shows "\<exists>sp'. pin_with_retries (sync_pinner (client_oracle (net_rpc X key)) elapsed) c now sp = (Inr (), sp') \<and>
    net_pin key (sp_client sp') = Some (c, sp_expected sp + 1) \<and> sp_expected sp' = sp_expected sp + 1"
  unfolding pin_with_retries_def
  using assms by (intro pin_loop_live) (auto simp: pin_ready_def in_budget_def retry_time_def)


subsection \<open>Concrete instances\<close>

text \<open>The example node behind a link that loses the first answer; its first identity is registered,
  its second attested only.\<close>

definition ex_net :: "LinkFate list \<Rightarrow> Net" where
  "ex_net fates = \<lparr> net_node = ex_node, net_clock = Some 1000, net_fates = fates \<rparr>"

definition ex_pinner :: "LinkFate list \<Rightarrow> Net SyncPinner" where
  "ex_pinner fates = into_pinner (\<lambda>w. (Some ex_k1, w)) ex_k1 0 (ex_net fates)"

lemmas ex_boot_simps = ex_net_def ex_pinner_def into_pinner_def ex_node_eval client_defs net_rpc_def
  sm_get_def net_pin_def node_pin_def Let_def

theorem boot_serves_only_pinned_witness:
  "\<exists>net'. verify_or_register ex_chain (client_oracle (net_rpc ex_chain ex_k2)) ex_k2 Genesis [0, 0] None
      (ex_net []) = (Inr 0, net') \<and>
    net_pin ex_k2 net' = Some (sha256 ex_chain [0, 0], 0)"
proof -
  have "fst (verify_or_register ex_chain (client_oracle (net_rpc ex_chain ex_k2)) ex_k2 Genesis [0, 0] None
      (ex_net [])) = Inr 0"
    using ex_k1_k2
    by (simp add: verify_or_register_def get_checked_def ex_boot_simps node_handle_get_def boot_decision_def
        region_is_blank_def node_handle_register_def apply_register_def)
  then obtain net' where n: "verify_or_register ex_chain (client_oracle (net_rpc ex_chain ex_k2)) ex_k2
      Genesis [0, 0] None (ex_net []) = (Inr 0, net')"
    by (metis prod.collapse)
  from boot_serves_only_pinned [OF n] n show ?thesis by blast
qed

theorem pin_survives_three_losses_witness:
  "\<exists>sp'. pin_with_retries (sync_pinner (client_oracle (net_rpc ex_chain ex_k1)) (\<lambda>_ _. 5)) [11] 0
      (ex_pinner [Answer_Lost Loss_Closed, No_Quorum True, Request_Lost Loss_Timeout, No_Quorum False]) = (Inr (), sp') \<and>
    net_pin ex_k1 (sp_client sp') = Some ([11], 1)"
proof -
  let ?sp = "ex_pinner [Answer_Lost Loss_Closed, No_Quorum True, Request_Lost Loss_Timeout, No_Quorum False]"
  have "sp_key ?sp = ex_k1" "sp_reconnect ?sp = Some (\<lambda>w. (Some ex_k1, w))"
      "net_pin ex_k1 (sp_client ?sp) = Some ([10], sp_expected ?sp)" "net_losses (sp_client ?sp) = 2"
      "net_unavailable (sp_client ?sp) = 2" "sp_expected ?sp = 0"
    by (simp_all add: ex_boot_simps net_losses_def net_unavailable_def)
  from pin_survives_three_losses [OF this(1-3), of "\<lambda>_ _. 5" 5 ex_chain "[11]" 0] this(4-6)
  show ?thesis by (auto simp: sync_consts)
qed

theorem retried_pin_lands_once_witness:
  "\<exists>r sp'. pin_with_retries (sync_pinner (client_oracle (net_rpc ex_chain ex_k1)) (\<lambda>_ _. 5)) [11] 0
      (ex_pinner [Request_Lost Loss_Io]) = (r, sp') \<and>
    (net_pin ex_k1 (sp_client sp') = Some ([10], 0) \<or> net_pin ex_k1 (sp_client sp') = Some ([11], 1))"
proof -
  let ?sp = "ex_pinner [Request_Lost Loss_Io]"
  obtain r sp' where run: "pin_with_retries (sync_pinner (client_oracle (net_rpc ex_chain ex_k1))
      (\<lambda>_ _. 5)) [11] 0 ?sp = (r, sp')" by force
  have "sp_key ?sp = ex_k1" "net_pin ex_k1 (sp_client ?sp) = Some ([10], 0)" "sp_expected ?sp = 0"
      "\<forall>reconnect w. sp_reconnect ?sp = Some reconnect \<longrightarrow> net_node (snd (reconnect w)) = net_node w"
    by (simp_all add: ex_boot_simps)
  from retried_pin_lands_once [OF this(1,4) run] this(2,3) run show ?thesis by auto
qed

end
