(* ===== verification/Device_Proxy.thy ===== *)
theory Device_Proxy
  imports Superblock
begin

text \<open>
  The userspace proxy between the kernel's NBD device and the untrusted storage host
  (\<open>nbd-client/src/main.rs\<close> and the runtime half of \<open>rollback.rs\<close>): the request task, the pin actor
  and the gated reply pump, three tasks that share the in-flight table, the pin gate and the region
  watch. Each task is a function from its next input to the new shared state; the system is every
  interleaving of their steps.
\<close>

subsection \<open>NBD framing\<close>

definition NBD_FLAG_HAS_FLAGS :: u16 where "NBD_FLAG_HAS_FLAGS = 1"
definition NBD_FLAG_READ_ONLY :: u16 where "NBD_FLAG_READ_ONLY = 2"
definition NBD_FLAG_SEND_FLUSH :: u16 where "NBD_FLAG_SEND_FLUSH = 4"
definition NBD_FLAG_SEND_FUA :: u16 where "NBD_FLAG_SEND_FUA = 8"
definition NBD_FLAG_SEND_TRIM :: u16 where "NBD_FLAG_SEND_TRIM = 32"
definition NBD_FLAG_SEND_WRITE_ZEROES :: u16 where "NBD_FLAG_SEND_WRITE_ZEROES = 64"

definition NBD_FLAGS_PASSTHROUGH :: u16 where
  "NBD_FLAGS_PASSTHROUGH =
     or (or (or NBD_FLAG_HAS_FLAGS NBD_FLAG_READ_ONLY) NBD_FLAG_SEND_FLUSH) NBD_FLAG_SEND_FUA"

definition NBD_REQUEST_MAGIC :: u32 where "NBD_REQUEST_MAGIC = 0x25609513"
definition NBD_SIMPLE_REPLY_MAGIC :: u32 where "NBD_SIMPLE_REPLY_MAGIC = 0x67446698"

definition NBD_CMD_READ :: u16 where "NBD_CMD_READ = 0"
definition NBD_CMD_WRITE :: u16 where "NBD_CMD_WRITE = 1"
definition NBD_CMD_DISC :: u16 where "NBD_CMD_DISC = 2"
definition NBD_CMD_TRIM :: u16 where "NBD_CMD_TRIM = 4"
definition NBD_CMD_WRITE_ZEROES :: u16 where "NBD_CMD_WRITE_ZEROES = 6"

lemmas nbd_cmds = NBD_CMD_READ_def NBD_CMD_WRITE_def NBD_CMD_DISC_def NBD_CMD_TRIM_def
  NBD_CMD_WRITE_ZEROES_def

definition kernel_flags :: "bool \<Rightarrow> u16 \<Rightarrow> u16" where
  "kernel_flags synchronizer_enabled host_flags =
     (if synchronizer_enabled then and host_flags NBD_FLAGS_PASSTHROUGH else host_flags)"

record NbdRequest =
  rq_cmd_type :: u16
  rq_handle :: handle
  rq_offset :: u64
  rq_length :: u32

datatype ProxyError =
    BadRequestMagic u32
  | BadReplyMagic u32
  | PartialSuperblockWrite
  | PayloadlessSuperblockWrite
  | PinActorGone
  | StreamFailed StreamError
  | StaleRegionRead
  | HostClosed
  | RegionSlicePanic
  | HostFailedPinnedWrite u32
  | HostFailedPendingWrite u32
  | SuperblockPinFailed string
  | GateEntryLost

definition parse_request :: "bytes \<Rightarrow> ProxyError + NbdRequest" where
  "parse_request header =
     (let magic = from_be_bytes (slice 0 4 header)
      in if magic \<noteq> NBD_REQUEST_MAGIC then Inl (BadRequestMagic magic)
         else Inr \<lparr> rq_cmd_type = from_be_bytes (slice 6 8 header),
                    rq_handle = from_be_bytes (slice 8 16 header),
                    rq_offset = from_be_bytes (slice 16 24 header),
                    rq_length = from_be_bytes (slice 24 28 header) \<rparr>)"

definition parse_reply :: "bytes \<Rightarrow> ProxyError + u32 \<times> handle" where
  "parse_reply header =
     (let magic = from_be_bytes (slice 0 4 header)
      in if magic \<noteq> NBD_SIMPLE_REPLY_MAGIC then Inl (BadReplyMagic magic)
         else Inr (from_be_bytes (slice 4 8 header), from_be_bytes (slice 8 16 header)))"

text \<open>\<open>forward_bytes\<close>: the chunks written to the destination, and whether the source held out.\<close>

function forward_bytes :: "bytes \<Rightarrow> nat \<Rightarrow> bytes list \<times> bool" where
  "forward_bytes src n =
     (if n = 0 then ([], True)
      else let m = min n CHUNK_LEN
        in if length src < m then ([], False)
        else let rest = forward_bytes (drop m src) (n - m)
          in (take m src # fst rest, snd rest))"
  by pat_completeness auto

termination
  by (relation "measure snd") (auto simp: CHUNK_LEN_def)

declare forward_bytes.simps [simp del]

lemma forward_bytes_complete:
  "n \<le> length src \<Longrightarrow> snd (forward_bytes src n) \<and> concat (fst (forward_bytes src n)) = take n src"
proof (induction src n rule: forward_bytes.induct)
  case (1 src n)
  show ?case
  proof (cases "n = 0")
    case True
    then show ?thesis by (simp add: forward_bytes.simps)
  next
    case False
    let ?m = "min n CHUNK_LEN"
    have m: "0 < ?m" "?m \<le> n" "\<not> length src < ?m"
      using False 1(2) by (simp_all add: CHUNK_LEN_def)
    then have IH: "snd (forward_bytes (drop ?m src) (n - ?m))"
        "concat (fst (forward_bytes (drop ?m src) (n - ?m))) = take (n - ?m) (drop ?m src)"
      using 1(1) [OF False refl] 1(2) by simp_all
    have "take ?m src @ take (n - ?m) (drop ?m src) = take n src"
      using m(2) take_add [of ?m "n - ?m" src] by simp
    with IH m False show ?thesis
      by (subst (1 2) forward_bytes.simps) (simp add: Let_def)
  qed
qed

subsection \<open>The three tasks and their shared state\<close>

record PinJob =
  pj_handle :: handle
  pj_commitment :: Commitment

datatype RequestTask =
    RT_Idle
  | RT_Streaming handle "StreamEvent list" "StreamError + bytes"
  | RT_Done
  | RT_Failed ProxyError

datatype PinTask = Pin_Running | Pin_Stopped string

datatype ReplyTask = Rep_Running | Rep_Done | Rep_Failed ProxyError

record Proxy =
  px_inflight :: "handle \<rightharpoonup> u32"
  px_gate :: PinGate
  px_watch :: RegionWatch
  px_request :: RequestTask
  px_jobs :: "PinJob list"
  px_pin :: PinTask
  px_nudges :: nat
  px_stashed :: "(handle \<times> bytes) list"
  px_reply :: ReplyTask
  px_to_host :: "bytes list"
  px_to_kernel :: "(handle \<times> bytes) list"

definition proxy_new :: "Commitment \<Rightarrow> Proxy" where
  "proxy_new boot_commitment =
     \<lparr> px_inflight = Map.empty, px_gate = pin_gate_new, px_watch = region_watch_new boot_commitment,
       px_request = RT_Idle, px_jobs = [], px_pin = Pin_Running, px_nudges = 0, px_stashed = [],
       px_reply = Rep_Running, px_to_host = [], px_to_kernel = [] \<rparr>"

definition request_fails :: "ProxyError \<Rightarrow> Proxy \<Rightarrow> Proxy" where
  "request_fails e p = p\<lparr> px_request := RT_Failed e \<rparr>"

definition forward_frame :: "bytes \<Rightarrow> bytes \<Rightarrow> nat \<Rightarrow> Proxy \<Rightarrow> Proxy" where
  "forward_frame header payload n p =
     (let fwd = forward_bytes payload n;
          p' = p\<lparr> px_to_host := px_to_host p @ header # fst fwd \<rparr>
      in if snd fwd then p' else request_fails (StreamFailed SourceEnded) p')"

text \<open>One iteration of \<open>request_proxy\<close> up to the point where a superblock write starts streaming;
  \<open>sync\<close> is whether the hooks are set.\<close>

definition request_proxy :: "bool \<Rightarrow> u64 \<Rightarrow> bytes \<Rightarrow> bytes \<Rightarrow> Proxy \<Rightarrow> Proxy" where
  "request_proxy sync data_offset header payload p =
     (case parse_request header of
        Inl e \<Rightarrow> request_fails e p
      | Inr rq \<Rightarrow>
          let h = rq_handle rq;
              overlap = primary_sb_overlap (rq_offset rq) (rq_length rq) data_offset
          in if rq_cmd_type rq = NBD_CMD_READ then
               let inflight = (px_inflight p)(h \<mapsto> rq_length rq);
                   watch = (case overlap of
                              Overlap_Full po \<Rightarrow> if sync then watch_read h po (px_watch p) else px_watch p
                            | _ \<Rightarrow> px_watch p)
               in forward_frame header [] 0 (p\<lparr> px_inflight := inflight, px_watch := watch \<rparr>)
             else if rq_cmd_type rq = NBD_CMD_WRITE then
               (if sync then
                  (case overlap of
                     Overlap_None \<Rightarrow> forward_frame header payload (unat (rq_length rq)) p
                   | Overlap_Full po \<Rightarrow>
                       let ext = forward_bytes_extract payload (unat (rq_length rq)) po SB_REGION_LEN
                       in p\<lparr> px_gate := gate_begin h (px_gate p),
                             px_to_host := px_to_host p @ [header],
                             px_request := RT_Streaming h (fst ext) (snd ext) \<rparr>
                   | Overlap_Partial \<Rightarrow> request_fails PartialSuperblockWrite p)
                else forward_frame header payload (unat (rq_length rq)) p)
             else if (rq_cmd_type rq = NBD_CMD_TRIM \<or> rq_cmd_type rq = NBD_CMD_WRITE_ZEROES) \<and> sync \<and>
                     overlap \<noteq> Overlap_None then
               request_fails PayloadlessSuperblockWrite p
             else
               let p' = forward_frame header [] 0 p
               in if rq_cmd_type rq = NBD_CMD_DISC then p'\<lparr> px_request := RT_Done \<rparr> else p')"

text \<open>The rest of a superblock write: one event of the extraction at a time, then the job is queued
  for the pin actor. The channel holds 64 jobs besides the one being pinned; a full channel makes
  the task wait.\<close>

definition request_stream :: "'x Ext_scheme \<Rightarrow> Proxy \<Rightarrow> Proxy" where
  "request_stream X p =
     (case px_request p of
        RT_Streaming h (Wrote c # evs) res \<Rightarrow>
          p\<lparr> px_to_host := px_to_host p @ [c], px_request := RT_Streaming h evs res \<rparr>
      | RT_Streaming h (WindowComplete region # evs) res \<Rightarrow>
          p\<lparr> px_watch := begin_pending h (commitment_of_region X region) (px_watch p),
             px_request := RT_Streaming h evs res \<rparr>
      | RT_Streaming h [] (Inl e) \<Rightarrow> request_fails (StreamFailed e) p
      | RT_Streaming h [] (Inr region) \<Rightarrow>
          if px_pin p \<noteq> Pin_Running then request_fails PinActorGone p
          else if length (px_jobs p) \<le> 64 then
            p\<lparr> px_jobs := px_jobs p @
                  [\<lparr> pj_handle = h, pj_commitment = commitment_of_region X region \<rparr>],
               px_request := RT_Idle \<rparr>
          else p
      | _ \<Rightarrow> p)"

text \<open>The pin actor takes the oldest job; \<open>outcome\<close> is what the pinner answered.\<close>

definition pin_actor :: "string + unit \<Rightarrow> Proxy \<Rightarrow> Proxy" where
  "pin_actor outcome p =
     (case px_jobs p of
        [] \<Rightarrow> p
      | job # jobs \<Rightarrow>
          (case outcome of
             Inr _ \<Rightarrow>
               p\<lparr> px_jobs := jobs,
                  px_watch := watch_commit (pj_handle job) (px_watch p),
                  px_gate := gate_finish_ok (pj_handle job) (px_gate p),
                  px_nudges := px_nudges p + 1 \<rparr>
           | Inl reason \<Rightarrow>
               p\<lparr> px_gate := gate_finish_err (pj_handle job) reason (px_gate p),
                  px_nudges := px_nudges p + 1,
                  px_pin := Pin_Stopped reason \<rparr>))"

definition reply_fails :: "ProxyError \<Rightarrow> Proxy \<Rightarrow> Proxy" where
  "reply_fails e p = p\<lparr> px_reply := Rep_Failed e \<rparr>"

definition to_kernel :: "handle \<Rightarrow> bytes \<Rightarrow> Proxy \<Rightarrow> Proxy" where
  "to_kernel h frame p = p\<lparr> px_to_kernel := px_to_kernel p @ [(h, frame)] \<rparr>"

text \<open>One reply of the host: a 16-byte header and the bytes that follow it on the stream. Slicing
  the region out of a payload that does not reach its end is a panic of the task.\<close>

definition gated_reply_proxy :: "'x Ext_scheme \<Rightarrow> bytes \<Rightarrow> bytes \<Rightarrow> Proxy \<Rightarrow> Proxy" where
  "gated_reply_proxy X header stream p =
     (case parse_reply header of
        Inl e \<Rightarrow> reply_fails e p
      | Inr (error, h) \<Rightarrow>
          (case px_inflight p h of
             Some len \<Rightarrow>
               let inflight = (px_inflight p)(h := None);
                   p = p\<lparr> px_inflight := inflight \<rparr>
               in (case read_payload_offset h (px_watch p) of
                     Some po \<Rightarrow>
                       if error \<noteq> 0 then
                         to_kernel h header (p\<lparr> px_watch := drop_read h (px_watch p) \<rparr>)
                       else if length stream < unat len then reply_fails HostClosed p
                       else if unat len < po + SB_REGION_LEN then reply_fails RegionSlicePanic p
                       else
                         let payload = take (unat len) stream;
                             verdict = verify_read X h (take SB_REGION_LEN (drop po payload)) (px_watch p);
                             p = p\<lparr> px_watch := snd verdict \<rparr>
                         in if fst verdict then to_kernel h (header @ payload) p
                            else reply_fails StaleRegionRead p
                   | None \<Rightarrow>
                       let fwd = forward_bytes stream (if error = 0 then unat len else 0);
                           p = to_kernel h (header @ concat (fst fwd)) p
                       in if snd fwd then p else reply_fails HostClosed p)
           | None \<Rightarrow>
               (case gate_check h (px_gate p) of
                  (NotGated, gate) \<Rightarrow> to_kernel h header (p\<lparr> px_gate := gate \<rparr>)
                | (Pass, gate) \<Rightarrow>
                    if error \<noteq> 0 then reply_fails (HostFailedPinnedWrite error) (p\<lparr> px_gate := gate \<rparr>)
                    else to_kernel h header (p\<lparr> px_gate := gate \<rparr>)
                | (Hold, gate) \<Rightarrow>
                    if error \<noteq> 0 then reply_fails (HostFailedPendingWrite error) (p\<lparr> px_gate := gate \<rparr>)
                    else p\<lparr> px_gate := gate, px_stashed := AList.update h header (px_stashed p) \<rparr>
                | (Gate_Fail reason, gate) \<Rightarrow>
                    reply_fails (SuperblockPinFailed reason) (p\<lparr> px_gate := gate \<rparr>))))"

text \<open>\<open>flush_stashed\<close> over the parked handles in the order the hash map lists them.\<close>

fun flush_stashed :: "handle list \<Rightarrow> Proxy \<Rightarrow> Proxy" where
  "flush_stashed [] p = p"
| "flush_stashed (h # hs) p =
     (case gate_check h (px_gate p) of
        (Hold, _) \<Rightarrow> flush_stashed hs p
      | (Pass, gate) \<Rightarrow>
          (case map_of (px_stashed p) h of
             None \<Rightarrow> p
           | Some header \<Rightarrow>
               flush_stashed hs (to_kernel h header
                 (p\<lparr> px_gate := gate, px_stashed := AList.delete h (px_stashed p) \<rparr>)))
      | (Gate_Fail reason, _) \<Rightarrow> reply_fails (SuperblockPinFailed reason) p
      | (NotGated, _) \<Rightarrow> reply_fails GateEntryLost p)"

text \<open>The host stream ends after \<open>n\<close> bytes of the next reply header.\<close>

definition reply_eof :: "nat \<Rightarrow> Proxy \<Rightarrow> Proxy" where
  "reply_eof n p =
     (if n = 0 \<and> px_stashed p = [] then p\<lparr> px_reply := Rep_Done \<rparr> else reply_fails HostClosed p)"

text \<open>The reply pump without the synchronizer wiring.\<close>

definition reply_proxy :: "bytes \<Rightarrow> bytes \<Rightarrow> Proxy \<Rightarrow> Proxy" where
  "reply_proxy header stream p =
     (case parse_reply header of
        Inl e \<Rightarrow> reply_fails e p
      | Inr (error, h) \<Rightarrow>
          let inflight = (px_inflight p)(h := None);
              n = (case px_inflight p h of Some len \<Rightarrow> if error = 0 then unat len else 0 | None \<Rightarrow> 0);
              fwd = forward_bytes stream n;
              p = to_kernel h (header @ concat (fst fwd)) (p\<lparr> px_inflight := inflight \<rparr>)
          in if snd fwd then p else reply_fails HostClosed p)"

subsection \<open>Interleavings\<close>

datatype ProxyAction =
    KernelRequest bytes bytes
  | StreamStep
  | PinStep "string + unit"
  | HostReply bytes bytes
  | HostEof nat
  | NudgeStep "handle list"

fun proxy_step :: "'x Ext_scheme \<Rightarrow> u64 \<Rightarrow> ProxyAction \<Rightarrow> Proxy \<Rightarrow> Proxy" where
  "proxy_step X data_offset (KernelRequest header payload) p =
     (if px_request p = RT_Idle then request_proxy True data_offset header payload p else p)"
| "proxy_step X data_offset StreamStep p = request_stream X p"
| "proxy_step X data_offset (PinStep outcome) p =
     (if px_pin p = Pin_Running then pin_actor outcome p else p)"
| "proxy_step X data_offset (HostReply header stream) p =
     (if px_reply p = Rep_Running then gated_reply_proxy X header stream p else p)"
| "proxy_step X data_offset (HostEof n) p =
     (if px_reply p = Rep_Running then reply_eof n p else p)"
| "proxy_step X data_offset (NudgeStep hs) p =
     (if px_reply p = Rep_Running \<and> 0 < px_nudges p \<and> distinct hs \<and> set hs = fst ` set (px_stashed p)
      then flush_stashed hs (p\<lparr> px_nudges := px_nudges p - 1 \<rparr>) else p)"

end
