(* ===== verification/Json_Value.thy ===== *)
theory Json_Value
  imports Prelude
begin

text \<open>
  A JSON value as \<open>serde_json\<close> hands it on, and the accessors of its \<open>Value\<close> type the code uses. An
  object lists its members in the order they are iterated; values the code never looks into are
  \<open>JsonOther\<close>. The parser itself is a parameter of the definitions that use it.
\<close>

datatype Json =
    JsonObject "(string \<times> Json) list"
  | JsonArray "Json list"
  | JsonString string
  | JsonOther

fun json_get :: "string \<Rightarrow> Json \<Rightarrow> Json option" where
  "json_get k (JsonObject members) = map_of members k"
| "json_get k _ = None"

fun json_as_object :: "Json \<Rightarrow> (string \<times> Json) list option" where
  "json_as_object (JsonObject members) = Some members"
| "json_as_object _ = None"

fun json_as_str :: "Json \<Rightarrow> string option" where
  "json_as_str (JsonString s) = Some s"
| "json_as_str _ = None"

end
