(* ===== verification/Host_Stream.thy ===== *)
theory Host_Stream
  imports Device_Proxy Json_Value
begin

text \<open>
  The storage client's direct conversation with the storage host before the kernel gets the device
  (\<open>nbd-client/src/main.rs\<close> and \<open>rollback.rs\<close>): the NBD negotiation, single reads, and the check of
  the configured data offset against the LUKS2 header. The host is the bytes it sends: a client
  that only reads and writes meets no more behaviours in a host that adapts its bytes to what it
  receives.
\<close>

subsection \<open>The stream\<close>

datatype LuksError =
    Luks_Version u16
  | Luks_HdrSize u64
  | Luks_Truncated
  | Luks_Json
  | Luks_NoSegments
  | Luks_NoOffset
  | Luks_OffsetNotANumber
  | Luks_NoCryptSegment

datatype HostError =
    Host_Ended
  | Host_BadNbdMagic u64
  | Host_BadOptMagic u64
  | Host_BadReplyMagic u32
  | Host_UnexpectedHandle u64
  | Host_ReadFailed u64 u32
  | Host_HdrSize u64
  | Host_Luks LuksError
  | Host_LostHeader
  | Host_OffsetMismatch u64 u64
  | Host_FrameTooLarge u32
  | Host_NotCbor

record HostStream =
  hs_sent :: bytes
  hs_input :: bytes

type_synonym 'a host_io = "HostStream \<Rightarrow> (HostError + 'a) \<times> HostStream"

definition io_return :: "'a \<Rightarrow> 'a host_io" where
  "io_return x s = (Inr x, s)"

definition io_fail :: "HostError \<Rightarrow> 'a host_io" where
  "io_fail e s = (Inl e, s)"

definition io_bind :: "'a host_io \<Rightarrow> ('a \<Rightarrow> 'b host_io) \<Rightarrow> 'b host_io" where
  "io_bind m f s = (case m s of (Inl e, s') \<Rightarrow> (Inl e, s') | (Inr x, s') \<Rightarrow> f x s')"

definition write_all :: "bytes \<Rightarrow> unit host_io" where
  "write_all bs s = (Inr (), s\<lparr> hs_sent := hs_sent s @ bs \<rparr>)"

definition read_exact :: "nat \<Rightarrow> bytes host_io" where
  "read_exact n s =
     (if length (hs_input s) < n then (Inl Host_Ended, s)
      else (Inr (take n (hs_input s)), s\<lparr> hs_input := drop n (hs_input s) \<rparr>))"

named_theorems io_simps "runs of the stream operations that succeed"

lemma io_bind_Inr_iff [io_simps]:
  "io_bind m f s = (Inr y, s'') \<longleftrightarrow> (\<exists>x s'. m s = (Inr x, s') \<and> f x s' = (Inr y, s''))"
  by (auto simp: io_bind_def split: prod.splits sum.splits)

lemma io_return_iff [io_simps]: "io_return x s = (Inr y, s') \<longleftrightarrow> y = x \<and> s' = s"
  by (auto simp: io_return_def)

lemma io_fail_iff [io_simps]: "io_fail e s = (Inr y, s') \<longleftrightarrow> False"
  by (simp add: io_fail_def)

lemma write_all_iff [io_simps]: "write_all bs s = (Inr u, s') \<longleftrightarrow> s' = s\<lparr> hs_sent := hs_sent s @ bs \<rparr>"
  by (auto simp: write_all_def)

lemma read_exact_iff [io_simps]:
  "read_exact n s = (Inr bs, s') \<longleftrightarrow>
     length bs = n \<and> hs_input s = bs @ hs_input s' \<and> hs_sent s' = hs_sent s"
  by (cases s; cases s') (auto simp: read_exact_def)

subsection \<open>Negotiation\<close>

definition NBD_MAGIC :: u64 where "NBD_MAGIC = 0x4e42444d41474943"
definition IHAVEOPT :: u64 where "IHAVEOPT = 0x49484156454F5054"
definition NBD_FLAG_NO_ZEROES :: u16 where "NBD_FLAG_NO_ZEROES = 2"
definition NBD_FLAG_C_FIXED_NEWSTYLE :: u32 where "NBD_FLAG_C_FIXED_NEWSTYLE = 1"
definition NBD_FLAG_C_NO_ZEROES :: u32 where "NBD_FLAG_C_NO_ZEROES = 2"
definition NBD_OPT_EXPORT_NAME :: u32 where "NBD_OPT_EXPORT_NAME = 1"

record ExportInfo =
  ei_size :: u64
  ei_flags :: u16

definition negotiate :: "ExportInfo host_io" where
  "negotiate =
     io_bind (read_exact 8) (\<lambda>b. let magic = from_be_bytes b in
     if magic \<noteq> NBD_MAGIC then io_fail (Host_BadNbdMagic magic) else
     io_bind (read_exact 8) (\<lambda>b. let opt_magic = from_be_bytes b in
     if opt_magic \<noteq> IHAVEOPT then io_fail (Host_BadOptMagic opt_magic) else
     io_bind (read_exact 2) (\<lambda>b.
     let no_zeroes = and (from_be_bytes b) NBD_FLAG_NO_ZEROES \<noteq> 0;
         client_flags = or NBD_FLAG_C_FIXED_NEWSTYLE (if no_zeroes then NBD_FLAG_C_NO_ZEROES else 0) in
     io_bind (write_all (to_be_bytes client_flags)) (\<lambda>_.
     io_bind (write_all (to_be_bytes IHAVEOPT)) (\<lambda>_.
     io_bind (write_all (to_be_bytes NBD_OPT_EXPORT_NAME)) (\<lambda>_.
     io_bind (write_all (to_be_bytes (0 :: u32))) (\<lambda>_.
     io_bind (read_exact 8) (\<lambda>size.
     io_bind (read_exact 2) (\<lambda>flags.
     io_bind (if no_zeroes then io_return [] else read_exact 124) (\<lambda>_.
     io_return \<lparr> ei_size = from_be_bytes size, ei_flags = from_be_bytes flags \<rparr>))))))))))"

subsection \<open>One read\<close>

definition BOOT_READ_HANDLE :: u64 where "BOOT_READ_HANDLE = 0x53594e43424f4f54"
definition BOOT_HDR_READ_HANDLE :: u64 where "BOOT_HDR_READ_HANDLE = 0x53594e4348445221"

definition read_request :: "u64 \<Rightarrow> u64 \<Rightarrow> u32 \<Rightarrow> bytes" where
  "read_request handle offset len =
     to_be_bytes NBD_REQUEST_MAGIC @ to_be_bytes (0 :: u16) @ to_be_bytes NBD_CMD_READ @
     to_be_bytes handle @ to_be_bytes offset @ to_be_bytes len"

definition nbd_read_range :: "u64 \<Rightarrow> u64 \<Rightarrow> u32 \<Rightarrow> bytes host_io" where
  "nbd_read_range handle offset len =
     io_bind (write_all (read_request handle offset len)) (\<lambda>_.
     io_bind (read_exact 16) (\<lambda>reply.
     let magic = from_be_bytes (slice 0 4 reply) in
     if magic \<noteq> NBD_SIMPLE_REPLY_MAGIC then io_fail (Host_BadReplyMagic magic) else
     let error = from_be_bytes (slice 4 8 reply);
         got_handle = from_be_bytes (slice 8 16 reply) in
     if got_handle \<noteq> handle then io_fail (Host_UnexpectedHandle got_handle) else
     if error \<noteq> 0 then io_fail (Host_ReadFailed offset error) else
     read_exact (unat len)))"

definition nbd_read_region :: "u64 \<Rightarrow> bytes host_io" where
  "nbd_read_region device_offset = nbd_read_range BOOT_READ_HANDLE device_offset (of_nat SB_REGION_LEN)"

text \<open>The request the client builds is the one an NBD peer parses: a read of the range asked for.\<close>

lemma read_request_parses:
  "parse_request (read_request handle offset len) =
     Inr \<lparr> rq_cmd_type = NBD_CMD_READ, rq_handle = handle, rq_offset = offset, rq_length = len \<rparr>"
  by (simp add: parse_request_def read_request_def slice_def Let_def)

lemma nbd_read_range_Inr:
  assumes "nbd_read_range handle offset len s = (Inr buf, s')"
  obtains reply where "parse_reply reply = Inr (0, handle)" "length reply = 16"
    "length buf = unat len" "hs_input s = reply @ buf @ hs_input s'"
    "hs_sent s' = hs_sent s @ read_request handle offset len"
proof -
  obtain reply s1 where r: "read_exact 16 (s\<lparr> hs_sent := hs_sent s @ read_request handle offset len \<rparr>) = (Inr reply, s1)"
      and "parse_reply reply = Inr (0, handle)" "read_exact (unat len) s1 = (Inr buf, s')"
    using assms
    by (auto simp: nbd_read_range_def parse_reply_def io_bind_Inr_iff write_all_iff io_fail_iff Let_def split: if_splits)
  then show thesis
    using that [of reply] by (simp add: read_exact_iff)
qed

subsection \<open>The LUKS2 header\<close>

definition LUKS2_BINARY_HEADER_LEN :: u64 where "LUKS2_BINARY_HEADER_LEN = 4096"
definition LUKS2_MAGIC :: bytes where "LUKS2_MAGIC = [0x4c, 0x55, 0x4b, 0x53, 0xba, 0xbe]"
definition LUKS2_MAX_HDR_SIZE :: u64 where "LUKS2_MAX_HDR_SIZE = push_bit 20 1"

text \<open>\<open>str::parse::<u64>\<close>: an optional plus sign, at least one decimal digit, no overflow.\<close>

definition digit_value :: "char \<Rightarrow> nat" where
  "digit_value c = of_char c - 48"

definition is_ascii_digit :: "char \<Rightarrow> bool" where
  "is_ascii_digit c \<longleftrightarrow> 48 \<le> (of_char c :: nat) \<and> (of_char c :: nat) \<le> 57"

definition parse_u64 :: "string \<Rightarrow> u64 option" where
  "parse_u64 s =
     (let digits = (case s of c # cs \<Rightarrow> if c = CHR ''+'' then cs else s | [] \<Rightarrow> s);
          n = foldl (\<lambda>acc c. acc * 10 + digit_value c) 0 digits
      in if digits = [] \<or> \<not> list_all is_ascii_digit digits then None
         else if n < 2 ^ 64 then Some (of_nat n) else None)"

fun crypt_segment_offset :: "(string \<times> Json) list \<Rightarrow> LuksError + u64" where
  "crypt_segment_offset [] = Inl Luks_NoCryptSegment"
| "crypt_segment_offset ((_, seg) # segments) =
     (if Option.bind (json_get ''type'' seg) json_as_str = Some ''crypt'' then
        and_then (ok_or Luks_NoOffset (Option.bind (json_get ''offset'' seg) json_as_str)) (\<lambda>offset.
        ok_or Luks_OffsetNotANumber (parse_u64 offset))
      else crypt_segment_offset segments)"

definition parse_luks2_data_offset ::
    "(bytes \<Rightarrow> Json option) \<Rightarrow> bytes \<Rightarrow> LuksError + u64 option" where
  "parse_luks2_data_offset json_from_slice header =
     (if length header < unat LUKS2_BINARY_HEADER_LEN \<or> slice 0 6 header \<noteq> LUKS2_MAGIC then Inr None
      else
        let version = from_be_bytes (slice 6 8 header) :: u16;
            hdr_size = from_be_bytes (slice 8 16 header) :: u64 in
        if version \<noteq> 2 then Inl (Luks_Version version)
        else if \<not> (LUKS2_BINARY_HEADER_LEN \<le> hdr_size \<and> hdr_size \<le> LUKS2_MAX_HDR_SIZE) then
          Inl (Luks_HdrSize hdr_size)
        else if length header < unat hdr_size then Inl Luks_Truncated
        else
          let json_area = slice (unat LUKS2_BINARY_HEADER_LEN) (unat hdr_size) header in
          and_then (ok_or Luks_Json (json_from_slice (takeWhile (\<lambda>b. b \<noteq> 0) json_area))) (\<lambda>json.
          and_then (ok_or Luks_NoSegments (Option.bind (json_get ''segments'' json) json_as_object)) (\<lambda>segments.
          and_then (crypt_segment_offset segments) (\<lambda>offset. Inr (Some offset)))))"

definition verify_luks_data_offset :: "(bytes \<Rightarrow> Json option) \<Rightarrow> u64 \<Rightarrow> unit host_io" where
  "verify_luks_data_offset json_from_slice expected =
     io_bind (nbd_read_range BOOT_HDR_READ_HANDLE 0 (ucast LUKS2_BINARY_HEADER_LEN)) (\<lambda>binary.
     if slice 0 6 binary \<noteq> LUKS2_MAGIC then io_return ()
     else
       let hdr_size = from_be_bytes (slice 8 16 binary) :: u64 in
       if \<not> (LUKS2_BINARY_HEADER_LEN \<le> hdr_size \<and> hdr_size \<le> LUKS2_MAX_HDR_SIZE) then
         io_fail (Host_HdrSize hdr_size)
       else
         io_bind (if LUKS2_BINARY_HEADER_LEN < hdr_size
                  then nbd_read_range BOOT_HDR_READ_HANDLE LUKS2_BINARY_HEADER_LEN
                         (ucast (hdr_size - LUKS2_BINARY_HEADER_LEN))
                  else io_return []) (\<lambda>json.
         case parse_luks2_data_offset json_from_slice (binary @ json) of
           Inl e \<Rightarrow> io_fail (Host_Luks e)
         | Inr None \<Rightarrow> io_fail Host_LostHeader
         | Inr (Some actual) \<Rightarrow>
             if actual \<noteq> expected then io_fail (Host_OffsetMismatch actual expected)
             else io_return ()))"

text \<open>The header as the host sent it: the first block after its 16-byte reply, then, behind the second
  reply, what is left of \<open>hdr_size\<close>.\<close>

definition luks_binary :: "bytes \<Rightarrow> bytes" where
  "luks_binary input = take 4096 (drop 16 input)"

definition luks_header :: "bytes \<Rightarrow> bytes" where
  "luks_header input = luks_binary input @
     take (unat (from_be_bytes (slice 8 16 (luks_binary input)) :: u64) - 4096) (drop 4128 input)"

lemma luks_hdr_read_length:
  assumes "LUKS2_BINARY_HEADER_LEN < hdr_size" "hdr_size \<le> LUKS2_MAX_HDR_SIZE"
  shows "4096 + unat (ucast (hdr_size - LUKS2_BINARY_HEADER_LEN) :: u32) = unat hdr_size"
proof -
  have "unat hdr_size \<le> 1048576" "4096 < unat hdr_size"
    using assms by (simp_all add: word_le_nat_alt word_less_nat_alt LUKS2_MAX_HDR_SIZE_def
        LUKS2_BINARY_HEADER_LEN_def push_bit_eq_mult)
  moreover have "unat (hdr_size - LUKS2_BINARY_HEADER_LEN) = unat hdr_size - 4096"
    using assms(1) by (simp add: unat_sub LUKS2_BINARY_HEADER_LEN_def)
  ultimately show ?thesis
    by (simp add: unsigned_ucast_eq take_bit_nat_eq_self)
qed

lemma luks_reads:
  assumes b: "nbd_read_range BOOT_HDR_READ_HANDLE 0 (ucast LUKS2_BINARY_HEADER_LEN) s = (Inr binary, s1)"
    and j: "(if LUKS2_BINARY_HEADER_LEN < hdr_size
          then nbd_read_range BOOT_HDR_READ_HANDLE LUKS2_BINARY_HEADER_LEN (ucast (hdr_size - LUKS2_BINARY_HEADER_LEN))
          else io_return []) s1 = (Inr json, s2)"
    and size: "hdr_size = from_be_bytes (slice 8 16 binary)" "hdr_size \<le> LUKS2_MAX_HDR_SIZE"
  shows "luks_header (hs_input s) = binary @ json" "\<exists>pre. hs_input s = pre @ hs_input s2"
proof -
  from b obtain reply where r: "length reply = 16" "hs_input s = reply @ binary @ hs_input s1" "length binary = 4096"
    by (elim nbd_read_range_Inr) (simp add: LUKS2_BINARY_HEADER_LEN_def)
  then have bin: "luks_binary (hs_input s) = binary" by (simp add: luks_binary_def)
  have "json = take (unat hdr_size - 4096) (drop 16 (hs_input s1)) \<and> (\<exists>pre. hs_input s1 = pre @ hs_input s2)"
  proof (cases "LUKS2_BINARY_HEADER_LEN < hdr_size")
    case True
    with j obtain reply' where "length reply' = 16" "hs_input s1 = reply' @ json @ hs_input s2"
        "length json = unat (ucast (hdr_size - LUKS2_BINARY_HEADER_LEN) :: u32)"
      by (auto elim: nbd_read_range_Inr)
    then show ?thesis using luks_hdr_read_length [OF True size(2)] by simp
  next
    case False
    then have "unat hdr_size \<le> 4096"
      by (simp add: word_less_nat_alt LUKS2_BINARY_HEADER_LEN_def)
    with False j show ?thesis by (simp add: io_return_iff)
  qed
  with r bin size(1) show "luks_header (hs_input s) = binary @ json" "\<exists>pre. hs_input s = pre @ hs_input s2"
    by (simp_all add: luks_header_def) (metis append_assoc)
qed

text \<open>A check that passes either met a first block without the LUKS2 magic or parsed the whole header
  to the configured offset.\<close>

lemma verify_luks_sound:
  assumes "verify_luks_data_offset J expected s = (Inr (), s')"
  shows "slice 0 6 (luks_binary (hs_input s)) \<noteq> LUKS2_MAGIC \<or>
      parse_luks2_data_offset J (luks_header (hs_input s)) = Inr (Some expected)"
    and "\<exists>pre. hs_input s = pre @ hs_input s'"
proof -
  obtain binary s1 where b: "nbd_read_range BOOT_HDR_READ_HANDLE 0 (ucast LUKS2_BINARY_HEADER_LEN) s = (Inr binary, s1)"
    using assms by (auto simp: verify_luks_data_offset_def io_bind_Inr_iff)
  then obtain reply where reply: "length reply = 16" "hs_input s = reply @ binary @ hs_input s1"
      and len: "length binary = 4096"
    by (elim nbd_read_range_Inr) (simp add: LUKS2_BINARY_HEADER_LEN_def)
  define hdr_size where "hdr_size = (from_be_bytes (slice 8 16 binary) :: u64)"
  have "(slice 0 6 (luks_binary (hs_input s)) \<noteq> LUKS2_MAGIC \<or>
      parse_luks2_data_offset J (luks_header (hs_input s)) = Inr (Some expected)) \<and>
      (\<exists>pre. hs_input s = pre @ hs_input s')"
  proof (cases "slice 0 6 binary = LUKS2_MAGIC")
    case False
    then have "s' = s1"
      using assms b by (auto simp: verify_luks_data_offset_def io_bind_def io_return_def)
    with False reply len show ?thesis by (simp add: luks_binary_def)
  next
    case True
    then have ok: "hdr_size \<le> LUKS2_MAX_HDR_SIZE" "LUKS2_BINARY_HEADER_LEN \<le> hdr_size"
      using assms b by (auto simp: verify_luks_data_offset_def io_bind_def io_fail_def hdr_size_def Let_def split: if_splits)
    with True obtain json s2 where j: "(if LUKS2_BINARY_HEADER_LEN < hdr_size
          then nbd_read_range BOOT_HDR_READ_HANDLE LUKS2_BINARY_HEADER_LEN (ucast (hdr_size - LUKS2_BINARY_HEADER_LEN))
          else io_return []) s1 = (Inr json, s2)"
        and k: "(case parse_luks2_data_offset J (binary @ json) of
            Inl e \<Rightarrow> io_fail (Host_Luks e)
          | Inr None \<Rightarrow> io_fail Host_LostHeader
          | Inr (Some actual) \<Rightarrow>
              if actual \<noteq> expected then io_fail (Host_OffsetMismatch actual expected)
              else io_return ()) s2 = (Inr (), s')"
      using assms b unfolding verify_luks_data_offset_def io_bind_Inr_iff hdr_size_def Let_def
      by (auto simp: io_bind_Inr_iff [of "if _ then _ else _"] simp del: if_split)
    from k have "parse_luks2_data_offset J (binary @ json) = Inr (Some expected) \<and> s' = s2"
      by (auto simp: io_fail_iff io_return_iff split: sum.splits option.splits if_splits)
    with luks_reads [OF b j hdr_size_def ok(1)] show ?thesis by simp
  qed
  then show "slice 0 6 (luks_binary (hs_input s)) \<noteq> LUKS2_MAGIC \<or>
      parse_luks2_data_offset J (luks_header (hs_input s)) = Inr (Some expected)"
      "\<exists>pre. hs_input s = pre @ hs_input s'"
    by blast+
qed

end
