(* ===== verification/Boot_Session.thy ===== *)
theory Boot_Session
  imports Boot_Verify Host_Stream
begin

text \<open>
  Setting up the anti-rollback wiring at boot (\<open>nbd-client/src/rollback.rs\<close>): the trust anchors of the
  measured configuration, the mutually attested session with the oracle, the upgrade link fetched
  from the host, and \<open>boot\<close>, which runs all of it before the device is served.
\<close>

subsection \<open>The opt-in flag\<close>

definition parse_synchronizer_flag :: "string option \<Rightarrow> string + bool" where
  "parse_synchronizer_flag value =
     (case value of
        None \<Rightarrow> Inr False
      | Some v \<Rightarrow>
          if v = ''1'' \<or> eq_ignore_ascii_case v ''true'' then Inr True
          else if v = [] \<or> v = ''0'' \<or> eq_ignore_ascii_case v ''false'' then Inr False
          else Inl v)"

subsection \<open>The measured configuration\<close>

record RawSynchronizerSection =
  rs_enabled :: bool
  rs_expected_pcrs :: "PcrsHex list"
  rs_debug_attestation :: bool
  rs_upgrade_target :: bool

record RawConfig =
  rc_control_public_key :: "string option"
  rc_synchronizer :: "RawSynchronizerSection option"

text \<open>The parsers the boot path calls: \<open>serde_json\<close> at a JSON value and at the configuration, and
  \<open>ciborium\<close> at a chain link.\<close>

record BootExt = ChainExt +
  json_from_slice :: "bytes \<Rightarrow> Json option"
  config_from_slice :: "bytes \<Rightarrow> RawConfig option"
  link_from_reader :: "bytes \<Rightarrow> ChainLink option"

datatype ConfigError =
    Cfg_Unreadable
  | Cfg_Unparsable
  | Cfg_KeyNotBase64
  | Cfg_KeyMalformed
  | Cfg_NoSynchronizerSection
  | Cfg_NoExpectedPcrs
  | Cfg_ExpectedPcrsMalformed nat ChainValidationError
  | Cfg_WrongBuild bool

record SynchronizerTrust =
  st_control_pubkey :: bytes
  st_server_policy :: ServerPcrPolicy
  st_debug_attestation :: bool
  st_role :: ImageRole

definition load_control_pubkey :: "'x BootExt_scheme \<Rightarrow> bytes option \<Rightarrow> ConfigError + bytes" where
  "load_control_pubkey X file =
     and_then (ok_or Cfg_Unreadable file) (\<lambda>bytes.
     and_then (ok_or Cfg_Unparsable (config_from_slice X bytes)) (\<lambda>raw.
     case rc_control_public_key raw of
       None \<Rightarrow> Inr NON_UPGRADABLE_CONTROL_KEY
     | Some b64 \<Rightarrow>
         and_then (ok_or Cfg_KeyNotBase64 (base64_decode X b64)) (\<lambda>decoded.
         if length decoded \<noteq> 65 \<or> decoded ! 0 \<noteq> 0x04 then Inl Cfg_KeyMalformed else Inr decoded)))"

definition load_synchronizer_trust ::
    "'x BootExt_scheme \<Rightarrow> bytes option \<Rightarrow> ConfigError + SynchronizerTrust" where
  "load_synchronizer_trust X file =
     and_then (load_control_pubkey X file) (\<lambda>control_pubkey.
     and_then (ok_or Cfg_Unreadable file) (\<lambda>bytes.
     and_then (ok_or Cfg_Unparsable (config_from_slice X bytes)) (\<lambda>raw.
     and_then (ok_or Cfg_NoSynchronizerSection (rc_synchronizer raw)) (\<lambda>section.
     if rs_expected_pcrs section = [] then Inl Cfg_NoExpectedPcrs else
     and_then (traverse (\<lambda>(i, hex_triple). map_err (Cfg_ExpectedPcrsMalformed i) (pcrs_hex_to_pcrs X hex_triple))
         (enumerate 0 (rs_expected_pcrs section))) (\<lambda>expected.
     if rs_debug_attestation section \<noteq> skip_chain_compiled X
     then Inl (Cfg_WrongBuild (rs_debug_attestation section))
     else Inr \<lparr> st_control_pubkey = control_pubkey, st_server_policy = Expected expected,
                st_debug_attestation = rs_debug_attestation section,
                st_role = (if rs_upgrade_target section then UpgradeTarget else Genesis) \<rparr>)))))"

subsection \<open>The attested session\<close>

datatype SessionError =
    Session_Config ConfigError
  | Session_ConnectFailed
  | Session_TimedOut
  | Session_Nsm LocalAttestationError
  | Session_Client ClientError

text \<open>What one attempt to reach the oracle meets: whether the relay was reached, the handshake, the
  own attestation device (for a nonce and user data, the document it answers, or nothing), the first frame that came back, the clock, and whether it all happened
  within the time limit.\<close>

record Dial =
  di_connected :: bool
  di_handshake :: "ClientError + bytes"
  di_nsm :: "bytes \<Rightarrow> bytes \<Rightarrow> bytes option"
  di_answer :: "ClientError + Frame"
  di_clock :: int
  di_in_time :: bool

record SyncSession =
  ss_server_protocol :: PeerProtocol
  ss_key :: PcrKey
  ss_role :: ImageRole

definition connect_and_authenticate ::
    "'x BootExt_scheme \<Rightarrow> bytes option \<Rightarrow> Dial \<Rightarrow> SessionError + SyncSession" where
  "connect_and_authenticate X file dial =
     and_then (map_err Session_Config (load_synchronizer_trust X file)) (\<lambda>trust.
     and_then (ensure (di_connected dial) Session_ConnectFailed) (\<lambda>_.
     and_then (ensure (di_in_time dial) Session_TimedOut) (\<lambda>_.
     and_then (map_err Session_Client (di_handshake dial)) (\<lambda>nonce.
     and_then (map_err Session_Nsm (request_local X (di_nsm dial nonce (st_control_pubkey trust)))) (\<lambda>doc.
     and_then (map_err Session_Client (client_authenticate X (di_answer dial) nonce (st_server_policy trust)
         (st_debug_attestation trust) (di_clock dial))) (\<lambda>server_protocol.
     Inr \<lparr> ss_server_protocol = server_protocol, ss_key = pin_key (sha256 X) (va_identity doc),
           ss_role = st_role trust \<rparr>))))))"

subsection \<open>The upgrade link\<close>

definition CHAIN_FETCH_MAX_FRAME :: u32 where "CHAIN_FETCH_MAX_FRAME = 256 * 1024"

definition fetch_frame :: "'x BootExt_scheme \<Rightarrow> ChainLink option host_io" where
  "fetch_frame X =
     io_bind (write_all (to_be_bytes (0 :: u32))) (\<lambda>_.
     io_bind (read_exact 4) (\<lambda>len_bytes.
     let len = from_be_bytes len_bytes :: u32 in
     if len = 0 then io_return None
     else if len > CHAIN_FETCH_MAX_FRAME then io_fail (Host_FrameTooLarge len)
     else io_bind (read_exact (unat len)) (\<lambda>buf.
       case link_from_reader X buf of
         None \<Rightarrow> io_fail Host_NotCbor
       | Some link \<Rightarrow> io_return (Some link))))"

definition fetch_link_over :: "'x BootExt_scheme \<Rightarrow> HostStream \<Rightarrow> ChainLink option \<times> HostStream" where
  "fetch_link_over X stream =
     (case fetch_frame X stream of
        (Inr link, stream') \<Rightarrow> (link, stream')
      | (Inl _, stream') \<Rightarrow> (None, stream'))"

text \<open>\<open>chain_host\<close> is the connection to chain-host, or nothing when it could not be reached or did not
  answer in time.\<close>

definition fetch_latest_upgrade_link :: "'x BootExt_scheme \<Rightarrow> HostStream option \<Rightarrow> ChainLink option" where
  "fetch_latest_upgrade_link X chain_host =
     (case chain_host of None \<Rightarrow> None | Some stream \<Rightarrow> fst (fetch_link_over X stream))"

subsection \<open>Boot\<close>

datatype BootFailure =
    Boot_Session SessionError
  | Boot_Host HostError
  | Boot_Verdict BootError

record BootResult =
  br_session :: SyncSession
  br_commitment :: Commitment
  br_version :: Version

text \<open>\<open>oracle key\<close> is the RPC interface of a session bound to \<open>key\<close>.\<close>

definition boot ::
    "'x BootExt_scheme \<Rightarrow> bytes option \<Rightarrow> Dial \<Rightarrow> (PcrKey \<Rightarrow> 'w BootOracle) \<Rightarrow> HostStream option \<Rightarrow>
      u64 \<Rightarrow> HostStream \<Rightarrow> 'w \<Rightarrow> (BootFailure + BootResult) \<times> HostStream \<times> 'w" where
  "boot X file dial oracle chain_host data_offset host w =
     (case connect_and_authenticate X file dial of
        Inl e \<Rightarrow> (Inl (Boot_Session e), host, w)
      | Inr session \<Rightarrow>
          (case io_bind (verify_luks_data_offset (json_from_slice X) data_offset)
                  (\<lambda>_. nbd_read_region (data_offset + SB_PRIMARY_FS_OFFSET)) host of
             (Inl e, host') \<Rightarrow> (Inl (Boot_Host e), host', w)
           | (Inr region, host') \<Rightarrow>
               (case verify_or_register X (oracle (ss_key session)) (ss_key session) (ss_role session)
                       region (fetch_latest_upgrade_link X chain_host) w of
                  (Inl e, w') \<Rightarrow> (Inl (Boot_Verdict e), host', w')
                | (Inr version, w') \<Rightarrow>
                    (Inr \<lparr> br_session = session, br_commitment = commitment_of_region X region,
                           br_version = version \<rparr>, host', w'))))"

subsection \<open>What a session and a boot have established\<close>

lemma load_trust_Inr:
  assumes "load_synchronizer_trust X file = Inr trust"
  obtains bytes raw sec expected where
    "file = Some bytes" "config_from_slice X bytes = Some raw" "rc_synchronizer raw = Some sec"
    "rs_expected_pcrs sec \<noteq> []" "st_server_policy trust = Expected expected"
    "list_all2 (\<lambda>h p. pcrs_hex_to_pcrs X h = Inr p) (rs_expected_pcrs sec) expected"
    "st_debug_attestation trust = skip_chain_compiled X"
    "st_role trust = UpgradeTarget \<longleftrightarrow> rs_upgrade_target sec"
    "load_control_pubkey X file = Inr (st_control_pubkey trust)"
proof -
  obtain bytes raw sec expected where f: "file = Some bytes" "config_from_slice X bytes = Some raw"
      "rc_synchronizer raw = Some sec" "rs_expected_pcrs sec \<noteq> []"
      and e: "list_all2 (\<lambda>x p. pcrs_hex_to_pcrs X (snd x) = Inr p)
        (enumerate 0 (rs_expected_pcrs sec)) expected"
      and t: "st_server_policy trust = Expected expected" "st_debug_attestation trust = skip_chain_compiled X"
        "st_role trust = UpgradeTarget \<longleftrightarrow> rs_upgrade_target sec"
        "load_control_pubkey X file = Inr (st_control_pubkey trust)"
    using assms
    by (auto simp: load_synchronizer_trust_def result_simps case_prod_beta split: if_splits)
  have "list_all2 (\<lambda>h p. pcrs_hex_to_pcrs X h = Inr p) (rs_expected_pcrs sec) expected"
    using e by (auto simp: list_all2_conv_all_nth nth_enumerate_eq result_simps)
  with f t that show thesis by blast
qed

lemma Frame_ok:
  assumes "(case frame of Frame_Authenticate d v c \<Rightarrow> f d v c | Frame_Rpc r \<Rightarrow> Inl e) = Inr x"
  obtains d v c where "frame = Frame_Authenticate d v c" "f d v c = Inr x"
  using assms by (cases frame) simp_all

lemma connect_Inr:
  assumes "connect_and_authenticate X file dial = Inr session"
  obtains trust nonce own server_doc ver caps a pcrs expected where
    "load_synchronizer_trust X file = Inr trust" "di_handshake dial = Inr nonce"
    "request_local X (di_nsm dial nonce (st_control_pubkey trust)) = Inr own"
    "ss_key session = pin_key (sha256 X) (va_identity own)" "ss_role session = st_role trust"
    "di_answer dial = Inr (Frame_Authenticate server_doc ver caps)"
    "validate_session X server_doc nonce (st_debug_attestation trust) (di_clock dial) = Inr a"
    "st_server_policy trust = Expected expected" "va_pcrs a \<in> set expected"
proof -
  obtain trust nonce own prot where t: "load_synchronizer_trust X file = Inr trust" "di_handshake dial = Inr nonce"
      "request_local X (di_nsm dial nonce (st_control_pubkey trust)) = Inr own"
      "ss_key session = pin_key (sha256 X) (va_identity own)" "ss_role session = st_role trust"
      and c: "client_authenticate X (di_answer dial) nonce (st_server_policy trust)
        (st_debug_attestation trust) (di_clock dial) = Inr prot"
    using assms by (auto simp: connect_and_authenticate_def result_simps)
  obtain expected where e: "st_server_policy trust = Expected expected"
    by (cases "st_server_policy trust")
  from c obtain server_doc ver caps p where a: "di_answer dial = Inr (Frame_Authenticate server_doc ver caps)"
      "verify_server_attestation X server_doc nonce (Expected expected) (st_debug_attestation trust) (di_clock dial) = Inr p"
    by (auto simp: client_authenticate_def and_then_Inr_iff map_err_Inr_iff e
        simp del: verify_server_attestation.simps elim!: Frame_ok)
  then obtain a where "validate_session X server_doc nonce (st_debug_attestation trust) (di_clock dial) = Inr a"
      "va_pcrs a \<in> set expected"
    by (auto simp: result_simps require_pcrs_in_def Let_def split: sum.splits AttestationError.splits if_splits)
  with t e a that show thesis by blast
qed

lemma validate_session_production:
  assumes "\<not> skip_chain_compiled X" and "validate_session X bs h debug clock = Inr a"
  obtains doc where "\<not> debug" "chain_checked X AWS_NITRO_ROOT_CA_DER bs doc"
    "validate_expected_nonce X doc (base64_encode X h)" "from_doc_pcrs (doc_pcrs doc) = Inr (va_identity a)"
proof -
  have "\<not> debug"
    using assms by (auto simp: validate_session_def skip_chain_session_def)
  with assms(2) that show thesis
    by (auto simp: validate_session_def doc_validate_session_def doc_validate_session_at_def
        validate_session_with_Inr_iff attestation_from_doc_Inr_iff)
qed

subsection \<open>Properties\<close>

text \<open>C16. The oracle is the one the image was built for. In a production build a session exists only if
  the peer answered with an attestation document that the AWS root vouches for, whose nonce is this
  very handshake, and whose image measurements are one of the triples in the measured
  configuration file; the session's key is the identity read from the enclave's own document. A
  host that relays the connection elsewhere, replays a document or presents another image gets no
  session.\<close>

theorem oracle_is_measured:
  assumes nonce: "\<And>doc h. validate_expected_nonce X doc (base64_encode X h) \<Longrightarrow> doc_nonce doc = Some h"
    and production: "\<not> skip_chain_compiled X"
    and session: "connect_and_authenticate X file dial = Inr session"
  shows "\<exists>bs raw sec hash server_doc ver caps doc identity triple pubkey own.
    file = Some bs \<and> config_from_slice X bs = Some raw \<and> rc_synchronizer raw = Some sec \<and>
    di_handshake dial = Inr hash \<and> di_answer dial = Inr (Frame_Authenticate server_doc ver caps) \<and>
    chain_checked X AWS_NITRO_ROOT_CA_DER server_doc doc \<and> doc_nonce doc = Some hash \<and>
    from_doc_pcrs (doc_pcrs doc) = Inr identity \<and> triple \<in> set (rs_expected_pcrs sec) \<and>
    pcrs_hex_to_pcrs X triple = Inr (image_pcrs identity) \<and>
    (ss_role session = UpgradeTarget \<longleftrightarrow> rs_upgrade_target sec) \<and>
    load_control_pubkey X file = Inr pubkey \<and> request_local X (di_nsm dial hash pubkey) = Inr own \<and>
    ss_key session = pin_key (sha256 X) (va_identity own)"
proof -
  from session obtain trust hash own server_doc ver caps a expected where
      t: "load_synchronizer_trust X file = Inr trust" and h: "di_handshake dial = Inr hash"
      and own: "request_local X (di_nsm dial hash (st_control_pubkey trust)) = Inr own"
      "ss_key session = pin_key (sha256 X) (va_identity own)" "ss_role session = st_role trust"
      and ans: "di_answer dial = Inr (Frame_Authenticate server_doc ver caps)"
      and v: "validate_session X server_doc hash (st_debug_attestation trust) (di_clock dial) = Inr a"
      and e: "st_server_policy trust = Expected expected" "va_pcrs a \<in> set expected"
    by (rule connect_Inr)
  from t obtain bs raw sec where f: "file = Some bs" "config_from_slice X bs = Some raw"
      "rc_synchronizer raw = Some sec"
      and all: "list_all2 (\<lambda>h p. pcrs_hex_to_pcrs X h = Inr p) (rs_expected_pcrs sec) expected"
      and role: "st_role trust = UpgradeTarget \<longleftrightarrow> rs_upgrade_target sec"
        "load_control_pubkey X file = Inr (st_control_pubkey trust)"
    using e(1) by (auto elim: load_trust_Inr)
  obtain triple where "triple \<in> set (rs_expected_pcrs sec)" "pcrs_hex_to_pcrs X triple = Inr (va_pcrs a)"
    using all e(2) unfolding list_all2_conv_all_nth in_set_conv_nth by metis
  moreover obtain doc where "chain_checked X AWS_NITRO_ROOT_CA_DER server_doc doc" "doc_nonce doc = Some hash"
      "from_doc_pcrs (doc_pcrs doc) = Inr (va_identity a)"
    using validate_session_production [OF production v] nonce by metis
  ultimately show ?thesis
    using f h ans own role unfolding va_pcrs_def by (simp only:) blast
qed

lemma boot_Inr:
  assumes "boot X file dial oracle chain_host d host w = (Inr br, host', w')"
  obtains region host1 where "connect_and_authenticate X file dial = Inr (br_session br)"
    "verify_luks_data_offset (json_from_slice X) d host = (Inr (), host1)"
    "nbd_read_region (d + SB_PRIMARY_FS_OFFSET) host1 = (Inr region, host')"
    "verify_or_register X (oracle (ss_key (br_session br))) (ss_key (br_session br)) (ss_role (br_session br))
      region (fetch_latest_upgrade_link X chain_host) w = (Inr (br_version br), w')"
    "br_commitment br = commitment_of_region X region"
  using assms by (auto simp: boot_def io_bind_def split: sum.splits prod.splits)

text \<open>C17. A booted device is watched where its filesystem is and starts at its pin. When \<open>boot\<close> returns,
  the last bytes read from the host are one 4096-byte region, asked for at the configured data
  offset plus 64 KiB; its hash, which seeds the runtime watch, is what the oracle now holds for the
  attested key, at the version the pinner starts with; and the device either had no LUKS2 header or
  one whose crypt segment starts exactly at the configured offset.\<close>

theorem boot_starts_at_pin:
  assumes "boot X file dial (\<lambda>key. client_oracle (net_rpc X key)) chain_host d host net = (Inr br, host', net')"
  shows "\<exists>region pre asked. length region = 4096 \<and> hs_input host = pre @ region @ hs_input host' \<and>
    hs_sent host' = asked @ read_request BOOT_READ_HANDLE (d + 0x10000) 4096 \<and>
    br_commitment br = sha256 X region \<and>
    net_pin (ss_key (br_session br)) net' = Some (sha256 X region, br_version br) \<and>
    connect_and_authenticate X file dial = Inr (br_session br) \<and>
    (slice 0 6 (luks_binary (hs_input host)) \<noteq> LUKS2_MAGIC \<or>
     parse_luks2_data_offset (json_from_slice X) (luks_header (hs_input host)) = Inr (Some d))"
proof -
  from assms obtain region host1 where s: "connect_and_authenticate X file dial = Inr (br_session br)"
      and luks: "verify_luks_data_offset (json_from_slice X) d host = (Inr (), host1)"
      and r: "nbd_read_region (d + SB_PRIMARY_FS_OFFSET) host1 = (Inr region, host')"
      and v: "verify_or_register X (client_oracle (net_rpc X (ss_key (br_session br)))) (ss_key (br_session br))
        (ss_role (br_session br)) region (fetch_latest_upgrade_link X chain_host) net = (Inr (br_version br), net')"
      and br: "br_commitment br = commitment_of_region X region"
    by (rule boot_Inr)
  obtain pre1 where pre: "hs_input host = pre1 @ hs_input host1"
    using verify_luks_sound(2) [OF luks] by blast
  obtain reply where reply: "length region = unat (of_nat SB_REGION_LEN :: u32)"
      "hs_input host1 = reply @ region @ hs_input host'"
      "hs_sent host' = hs_sent host1 @ read_request BOOT_READ_HANDLE (d + SB_PRIMARY_FS_OFFSET) (of_nat SB_REGION_LEN)"
    using r unfolding nbd_read_region_def by (elim nbd_read_range_Inr)
  show ?thesis
    using verify_luks_sound(1) [OF luks] pre reply s br net.verify_or_register_sound(2) [OF v refl]
    by (intro exI [of _ region] exI [of _ "pre1 @ reply"] exI [of _ "hs_sent host1"])
      (simp add: SB_REGION_LEN_def SB_PRIMARY_FS_OFFSET_def commitment_of_region_def)
qed


subsection \<open>Concrete instances\<close>

text \<open>An oracle with the first example identity, an enclave with the second, and a configuration file
  that expects the former. Documents carry the handshake \<open>[7]\<close>.\<close>

definition ex_anchors :: BootExt where
  "ex_anchors = ChainExt.extend
     (ex_chain\<lparr> decode_attestation_document := (\<lambda>bs. Some ([],
         \<lparr> doc_timestamp = 1000,
           doc_pcrs = (if bs = [3] then [(0, ex_pcr 11), (1, ex_pcr 12), (2, ex_pcr 13)] else ex_doc_pcrs),
           doc_certificate = [2], doc_cabundle = [], doc_user_data = None, doc_nonce = Some [7] \<rparr>)),
       validate_expected_nonce := (\<lambda>doc s. map_option ex_hex (doc_nonce doc) = Some s) \<rparr>)
     (BootExt.fields (\<lambda>_. None)
       (\<lambda>_. Some \<lparr> rc_control_public_key = None,
          rc_synchronizer = Some \<lparr> rs_enabled = True, rs_expected_pcrs = [ex_hexpcrs ex_identity],
            rs_debug_attestation = False, rs_upgrade_target = False \<rparr> \<rparr>)
       (\<lambda>_. None))"

definition ex_dial :: Dial where
  "ex_dial = \<lparr> di_connected = True, di_handshake = Inr [7], di_nsm = (\<lambda>_ _. Some [3]),
     di_answer = Inr (Frame_Authenticate [1] PROTOCOL_VERSION {}), di_clock = 2000, di_in_time = True \<rparr>"

lemmas ex_anchor_simps = ex_anchors_def ex_chain_def ChainExt.defs BootExt.defs

lemma ex_to_read: "from_doc_pcrs [(0, ex_pcr 11), (1, ex_pcr 12), (2, ex_pcr 13)] = Inr ex_to"
  by (auto simp: from_doc_pcrs_Inr_iff ex_to_def pcr_consts user_pcr_or_zero_def intro!: nth_equalityI)

lemma ex_trust:
  "load_synchronizer_trust ex_anchors (Some []) =
     Inr \<lparr> st_control_pubkey = NON_UPGRADABLE_CONTROL_KEY, st_server_policy = Expected [image_pcrs ex_identity],
           st_debug_attestation = False, st_role = Genesis \<rparr>"
proof -
  have "pcrs_hex_to_pcrs ex_anchors (ex_hexpcrs ex_identity) = Inr (image_pcrs ex_identity)"
    by (simp add: pcrs_hex_to_pcrs_def ex_anchor_simps ex_hexpcrs_def ex_hex1_def ex_unhex1_def ex_identity_def
        ex_pcr_def image_pcrs_def pcr_consts)
  then show ?thesis
    by (simp add: load_synchronizer_trust_def load_control_pubkey_def ex_anchor_simps)
qed

lemma ex_server: "\<exists>a. validate_session ex_anchors [1] [7] False 2000 = Inr a \<and> va_identity a = ex_identity"
proof -
  define doc where "doc = \<lparr> doc_timestamp = 1000, doc_pcrs = ex_doc_pcrs, doc_certificate = [2],
    doc_cabundle = [], doc_user_data = None, doc_nonce = Some [7 :: byte] \<rparr>"
  obtain a where a: "attestation_from_doc [1] doc (Provenance.Session True) = Inr a" "va_identity a = ex_identity"
    by (simp add: attestation_from_doc_def doc_def ex_identity_read)
  have c: "chain_checked ex_anchors AWS_NITRO_ROOT_CA_DER [1] doc"
    by (simp add: chain_checked_def leaf_key_from_cert_der_def ex_anchor_simps doc_def)
  have "validate_expected_nonce ex_anchors doc (base64_encode ex_anchors [7])" "doc_timestamp doc = 1000"
    by (simp_all add: ex_anchor_simps doc_def)
  with a c show ?thesis
    unfolding validate_session_def doc_validate_session_def doc_validate_session_at_def
    by (simp add: validate_session_with_Inr_iff system_now_ms_def)
      (intro exI [of _ a] conjI exI [of _ doc]; simp add: max_skew)
qed

lemma ex_connect:
  "\<exists>session. connect_and_authenticate ex_anchors (Some []) ex_dial = Inr session \<and>
     ss_key session = ex_k2 \<and> ss_role session = Genesis"
proof -
  obtain a where a: "validate_session ex_anchors [1] [7] False 2000 = Inr a" "va_identity a = ex_identity"
    using ex_server by blast
  have "\<exists>own. request_local ex_anchors (di_nsm ex_dial [7] NON_UPGRADABLE_CONTROL_KEY) = Inr own \<and> va_identity own = ex_to"
    by (simp add: request_local_def decode_only_def attestation_from_doc_def ex_anchor_simps ex_dial_def
        ex_to_read [simplified])
  then show ?thesis
    using a
    by (auto simp: connect_and_authenticate_def ex_trust client_authenticate_def ex_dial_def require_pcrs_in_def
        va_pcrs_def ex_k2_def) (simp_all add: ex_anchor_simps)
qed

theorem oracle_is_measured_witness:
  "\<exists>session doc. connect_and_authenticate ex_anchors (Some []) ex_dial = Inr session \<and>
     chain_checked ex_anchors AWS_NITRO_ROOT_CA_DER [1] doc \<and> doc_nonce doc = Some [7]"
proof -
  obtain session where s: "connect_and_authenticate ex_anchors (Some []) ex_dial = Inr session"
    using ex_connect by blast
  have n: "doc_nonce doc = Some h"
    if "validate_expected_nonce ex_anchors doc (base64_encode ex_anchors h)" for doc h
    using that ex_hex_inj by (auto simp: ex_anchor_simps)
  have "\<not> skip_chain_compiled ex_anchors" by (simp add: ex_anchor_simps)
  from oracle_is_measured [OF n this s] s show ?thesis
    by (auto simp: ex_dial_def)
qed

text \<open>A host with a volume that has no LUKS2 header and one byte all over its superblock.\<close>

definition ex_host :: "byte \<Rightarrow> HostStream" where
  "ex_host b = \<lparr> hs_sent = [], hs_input =
     to_be_bytes NBD_SIMPLE_REPLY_MAGIC @ to_be_bytes (0 :: u32) @ to_be_bytes BOOT_HDR_READ_HANDLE @
     replicate 4096 0 @
     to_be_bytes NBD_SIMPLE_REPLY_MAGIC @ to_be_bytes (0 :: u32) @ to_be_bytes BOOT_READ_HANDLE @
     replicate 4096 b \<rparr>"

lemma ex_read:
  assumes "hs_input s = to_be_bytes NBD_SIMPLE_REPLY_MAGIC @ to_be_bytes (0 :: u32) @ to_be_bytes handle @
    replicate 4096 b @ rest"
  shows "\<exists>s'. nbd_read_range handle offset 4096 s = (Inr (replicate 4096 b), s') \<and> hs_input s' = rest"
  using assms
  by (simp add: nbd_read_range_def io_bind_def write_all_def read_exact_def slice_def Let_def)

lemma ex_host_reads:
  "\<exists>host'. io_bind (verify_luks_data_offset J d) (\<lambda>_. nbd_read_region (d + SB_PRIMARY_FS_OFFSET)) (ex_host b) =
     (Inr (replicate 4096 b), host')"
proof -
  obtain s1 where s1: "nbd_read_range BOOT_HDR_READ_HANDLE 0 4096 (ex_host b) = (Inr (replicate 4096 0), s1)"
      "hs_input s1 = to_be_bytes NBD_SIMPLE_REPLY_MAGIC @ to_be_bytes (0 :: u32) @ to_be_bytes BOOT_READ_HANDLE @
        replicate 4096 b @ []"
    using ex_read [of "ex_host b" BOOT_HDR_READ_HANDLE] by (auto simp: ex_host_def)
  have "slice 0 6 (replicate 4096 0) = replicate 6 0"
    by (simp add: slice_def take_replicate)
  moreover have "replicate 6 0 \<noteq> LUKS2_MAGIC" by code_simp
  ultimately have "verify_luks_data_offset J d (ex_host b) = (Inr (), s1)"
    using s1(1) by (simp add: verify_luks_data_offset_def io_bind_def io_return_def LUKS2_BINARY_HEADER_LEN_def)
  then show ?thesis
    using ex_read [OF s1(2), of "d + SB_PRIMARY_FS_OFFSET"]
    by (auto simp: io_bind_def nbd_read_region_def SB_REGION_LEN_def)
qed

text \<open>Booting on such a volume is what boot verification makes of its superblock.\<close>

lemma ex_boot_run:
  assumes "verify_or_register ex_anchors (oracle ex_k2) ex_k2 Genesis (replicate 4096 b) None w = (Inr v, w')"
  shows "\<exists>br host'. boot ex_anchors (Some []) ex_dial oracle None 0 (ex_host b) w = (Inr br, host', w') \<and>
    ss_key (br_session br) = ex_k2 \<and> br_commitment br = sha256 ex_anchors (replicate 4096 b) \<and> br_version br = v"
proof -
  obtain session where s: "connect_and_authenticate ex_anchors (Some []) ex_dial = Inr session"
      "ss_key session = ex_k2" "ss_role session = Genesis"
    using ex_connect by blast
  obtain host' where "io_bind (verify_luks_data_offset (json_from_slice ex_anchors) 0)
      (\<lambda>_. nbd_read_region (0 + SB_PRIMARY_FS_OFFSET)) (ex_host b) = (Inr (replicate 4096 b), host')"
    using ex_host_reads by blast
  with s assms show ?thesis
    by (simp add: boot_def fetch_latest_upgrade_link_def commitment_of_region_def)
qed

lemma ex_boot_blank:
  "\<exists>br host' net'. boot ex_anchors (Some []) ex_dial (\<lambda>key. client_oracle (net_rpc ex_anchors key)) None 0
      (ex_host 0) (ex_net []) = (Inr br, host', net') \<and> ss_key (br_session br) = ex_k2 \<and>
    br_commitment br = sha256 ex_anchors (replicate 4096 0) \<and> br_version br = 0 \<and> net_fates net' = []"
proof -
  let ?v = "verify_or_register ex_anchors (client_oracle (net_rpc ex_anchors ex_k2)) ex_k2 Genesis
      (replicate 4096 0) None (ex_net [])"
  have "fst ?v = Inr 0 \<and> net_fates (snd ?v) = []"
    using ex_k1_k2
    by (simp add: verify_or_register_def get_checked_def ex_boot_simps node_handle_get_def boot_decision_def
        region_is_blank_def list_all_iff node_handle_register_def apply_register_def)
  then obtain net' where v: "?v = (Inr 0, net')" "net_fates net' = []"
    by (metis prod.collapse)
  from ex_boot_run [of "\<lambda>key. client_oracle (net_rpc ex_anchors key)", OF v(1)] v(2) show ?thesis by blast
qed

theorem boot_starts_at_pin_witness:
  "\<exists>br host' net'. boot ex_anchors (Some []) ex_dial (\<lambda>key. client_oracle (net_rpc ex_anchors key)) None 0
      (ex_host 0) (ex_net []) = (Inr br, host', net') \<and>
    net_pin ex_k2 net' = Some (br_commitment br, br_version br)"
proof -
  obtain br host' net' where b: "boot ex_anchors (Some []) ex_dial (\<lambda>key. client_oracle (net_rpc ex_anchors key)) None 0
      (ex_host 0) (ex_net []) = (Inr br, host', net')" "ss_key (br_session br) = ex_k2"
    using ex_boot_blank by blast
  from boot_starts_at_pin [OF b(1)] b show ?thesis by auto
qed

end
