(* ===== verification/Region_Watch.thy ===== *)
theory Region_Watch
  imports Superblock
begin

text \<open>
  Correctness of the region watch (\<open>RegionWatch\<close> in \<open>nbd-client/src/rollback.rs\<close>) against the whole
  history of the superblock region. The watch is judged against the sequence \<open>W\<close> of all commitments the region ever took (the boot
  commitment, then one per superblock write, in order), the index \<open>a\<close> of the newest one that is
  durably pinned, the writes \<open>J\<close> still to be pinned, and for each watched read the index that was
  pinned when it was issued. The watch keeps a suffix of the pinned part, long enough for every
  outstanding read.
\<close>

definition watch_ok ::
    "Commitment list \<Rightarrow> nat \<Rightarrow> (handle \<times> Commitment) list \<Rightarrow> (handle \<rightharpoonup> nat) \<Rightarrow> RegionWatch \<Rightarrow> bool" where
  "watch_ok W a J issue w \<longleftrightarrow>
     a < length W \<and> rw_next_seq w = length W \<and>
     map snd J = drop (Suc a) W \<and> distinct (map fst J) \<and>
     rw_pending w = map (\<lambda>((h, c), i). (h, i, c)) (zip J [Suc a..<length W]) \<and>
     distinct (map fst (rw_reads w)) \<and>
     issue = map_option rd_accept_from_seq \<circ> map_of (rw_reads w) \<and>
     (\<exists>lo \<le> a. rw_history w = map (\<lambda>i. (i, W ! i)) [lo..<Suc a] \<and>
        (\<forall>r \<in> snd ` set (rw_reads w). lo \<le> rd_accept_from_seq r \<and> rd_accept_from_seq r \<le> a))"

lemma watch_okD:
  assumes "watch_ok W a J issue w"
  shows "a < length W" "rw_next_seq w = length W" "map snd J = drop (Suc a) W" "distinct (map fst J)"
    "rw_pending w = map (\<lambda>((h, c), i). (h, i, c)) (zip J [Suc a..<length W])"
    "distinct (map fst (rw_reads w))" "issue = map_option rd_accept_from_seq \<circ> map_of (rw_reads w)"
    "\<exists>lo \<le> a. rw_history w = map (\<lambda>i. (i, W ! i)) [lo..<Suc a] \<and>
        (\<forall>r \<in> snd ` set (rw_reads w). lo \<le> rd_accept_from_seq r \<and> rd_accept_from_seq r \<le> a)"
  using assms unfolding watch_ok_def by blast+

lemma watch_ok_length_J: "watch_ok W a J issue w \<Longrightarrow> length J = length W - Suc a"
  by (metis length_drop length_map watch_okD(3))

lemma watch_ok_new: "watch_ok [c] 0 [] Map.empty (region_watch_new c)"
  by (auto simp: watch_ok_def region_watch_new_def)

lemma AList_update_fresh: "k \<notin> fst ` set al \<Longrightarrow> AList.update k v al = al @ [(k, v)]"
  by (induction al) auto

lemma AList_delete_subset: "set (AList.delete k al) \<subseteq> set al"
  by (auto simp: AList.delete_eq)

lemma AList_update_values: "snd ` set (AList.update k v al) \<subseteq> insert v (snd ` set al)"
  by (induction al) auto

lemma watch_ok_history_last:
  assumes "watch_ok W a J issue w"
  shows "rw_history w \<noteq> []" and "fst (last (rw_history w)) = a"
  using watch_okD(8) [OF assms] by (auto simp: last_map)

lemma watch_ok_read:
  assumes "watch_ok W a J issue w"
  shows "watch_ok W a J (issue(h \<mapsto> a)) (watch_read h po w)"
proof -
  let ?r = "\<lparr> rd_payload_offset = po, rd_accept_from_seq = a \<rparr>"
  have w: "watch_read h po w = w\<lparr> rw_reads := AList.update h ?r (rw_reads w) \<rparr>"
    using watch_ok_history_last [OF assms] by (simp add: watch_read_def)
  obtain lo where lo: "lo \<le> a" "rw_history w = map (\<lambda>i. (i, W ! i)) [lo..<Suc a]"
      "\<forall>r \<in> snd ` set (rw_reads w). lo \<le> rd_accept_from_seq r \<and> rd_accept_from_seq r \<le> a"
    using watch_okD(8) [OF assms] by blast
  have "\<forall>r \<in> snd ` set (AList.update h ?r (rw_reads w)).
      lo \<le> rd_accept_from_seq r \<and> rd_accept_from_seq r \<le> a"
  proof
    fix r assume "r \<in> snd ` set (AList.update h ?r (rw_reads w))"
    then have "r = ?r \<or> r \<in> snd ` set (rw_reads w)"
      using AList_update_values [of h ?r "rw_reads w"] by blast
    with lo(1,3) show "lo \<le> rd_accept_from_seq r \<and> rd_accept_from_seq r \<le> a" by auto
  qed
  with lo(1,2) watch_okD(1-7) [OF assms] show ?thesis
    unfolding watch_ok_def w
    by (auto simp: AList.distinct_update AList.update_conv' fun_eq_iff)
qed

lemma watch_ok_drop:
  assumes "watch_ok W a J issue w"
  shows "watch_ok W a J (issue(h := None)) (drop_read h w)"
proof -
  obtain lo where lo: "lo \<le> a" "rw_history w = map (\<lambda>i. (i, W ! i)) [lo..<Suc a]"
      "\<forall>r \<in> snd ` set (rw_reads w). lo \<le> rd_accept_from_seq r \<and> rd_accept_from_seq r \<le> a"
    using watch_okD(8) [OF assms] by blast
  have "\<forall>r \<in> snd ` set (AList.delete h (rw_reads w)).
      lo \<le> rd_accept_from_seq r \<and> rd_accept_from_seq r \<le> a"
    using lo(3) AList_delete_subset [of h "rw_reads w"] by blast
  with lo(1,2) watch_okD(1-7) [OF assms] show ?thesis
    unfolding watch_ok_def drop_read_def
    by (auto simp: AList.distinct_delete AList.delete_conv' fun_eq_iff)
qed

lemma watch_ok_begin:
  assumes "watch_ok W a J issue w" and "h \<notin> fst ` set J"
  shows "watch_ok (W @ [c]) a (J @ [(h, c)]) issue (begin_pending h c w)"
proof -
  note ok = watch_okD [OF assms(1)]
  have len: "length J = length W - Suc a"
    using watch_ok_length_J [OF assms(1)] .
  obtain lo where lo: "lo \<le> a" "rw_history w = map (\<lambda>i. (i, W ! i)) [lo..<Suc a]"
      "\<forall>r \<in> snd ` set (rw_reads w). lo \<le> rd_accept_from_seq r \<and> rd_accept_from_seq r \<le> a"
    using ok(8) by blast
  have hist: "rw_history w = map (\<lambda>i. (i, (W @ [c]) ! i)) [lo..<Suc a]"
    unfolding lo(2) using ok(1) by (intro map_cong) (auto simp: nth_append)
  have fresh: "h \<notin> fst ` set (rw_pending w)"
    using assms(2) unfolding ok(5) by (force dest: set_zip_leftD)
  have "zip (J @ [(h, c)]) [Suc a..<Suc (length W)] =
      zip J [Suc a..<length W] @ [((h, c), length W)]"
    using len ok(1) by (simp add: upt_Suc)
  then have pend: "rw_pending (begin_pending h c w) =
      map (\<lambda>((h, c), i). (h, i, c)) (zip (J @ [(h, c)]) [Suc a..<length (W @ [c])])"
    using fresh ok(2,5) by (simp add: begin_pending_def AList_update_fresh)
  have "\<exists>lo \<le> a. rw_history (begin_pending h c w) = map (\<lambda>i. (i, (W @ [c]) ! i)) [lo..<Suc a] \<and>
      (\<forall>r \<in> snd ` set (rw_reads (begin_pending h c w)).
         lo \<le> rd_accept_from_seq r \<and> rd_accept_from_seq r \<le> a)"
    using lo(1,3) hist by (intro exI [of _ lo]) (simp add: begin_pending_def del: upt_Suc)
  with pend ok(1-7) assms(2) show ?thesis
    unfolding watch_ok_def by (auto simp: begin_pending_def)
qed

lemma prune_history_suffix:
  assumes "lo \<le> a"
  shows "\<exists>lo'. lo \<le> lo' \<and> lo' \<le> a \<and> (lo' = lo \<or> lo' \<le> floor) \<and>
    prune_history floor (map (\<lambda>i. (i, W ! i)) [lo..<Suc a]) = map (\<lambda>i. (i, W ! i)) [lo'..<Suc a]"
  using assms
proof (induction "a - lo" arbitrary: lo)
  case 0
  then have "lo = a" by simp
  then show ?case by (intro exI [of _ a]) (simp add: upt_rec)
next
  case (Suc n)
  then have lt: "lo < a" by simp
  then have list: "map (\<lambda>i. (i, W ! i)) [lo..<Suc a] =
      (lo, W ! lo) # (Suc lo, W ! Suc lo) # map (\<lambda>i. (i, W ! i)) [Suc (Suc lo)..<Suc a]"
    by (simp add: upt_conv_Cons del: upt_Suc)
  show ?case
  proof (cases "lo \<ge> floor")
    case True
    then show ?thesis using lt list by (intro exI [of _ lo]) simp
  next
    case False
    have "\<exists>lo'. Suc lo \<le> lo' \<and> lo' \<le> a \<and> (lo' = Suc lo \<or> lo' \<le> floor) \<and>
        prune_history floor (map (\<lambda>i. (i, W ! i)) [Suc lo..<Suc a]) = map (\<lambda>i. (i, W ! i)) [lo'..<Suc a]"
      using Suc(1) [of "Suc lo"] Suc(2) lt by simp
    then obtain lo' where lo': "Suc lo \<le> lo'" "lo' \<le> a" "lo' = Suc lo \<or> lo' \<le> floor"
        "prune_history floor (map (\<lambda>i. (i, W ! i)) [Suc lo..<Suc a]) = map (\<lambda>i. (i, W ! i)) [lo'..<Suc a]"
      by blast
    have "map (\<lambda>i. (i, W ! i)) [Suc lo..<Suc a] =
        (Suc lo, W ! Suc lo) # map (\<lambda>i. (i, W ! i)) [Suc (Suc lo)..<Suc a]"
      using lt by (simp add: upt_conv_Cons del: upt_Suc)
    with lo' list False show ?thesis
      by (intro exI [of _ lo']) auto
  qed
qed

lemma fold_min_le_init: "fold min as a \<le> (a::nat)"
proof (induction as arbitrary: a)
  case (Cons x as)
  from Cons [of "min x a"] show ?case by simp
qed simp

lemma fold_min_le: "x \<in> set (a # as) \<Longrightarrow> fold min as a \<le> (x::nat)"
proof (induction as arbitrary: a)
  case (Cons y as)
  consider "x = a" | "x = y" | "x \<in> set as"
    using Cons.prems by auto
  then show ?case
  proof cases
    case 3
    then show ?thesis using Cons.IH [of "min y a"] by simp
  qed (use fold_min_le_init [of as "min y a"] in simp_all)
qed simp


lemma watch_ok_commit:
  assumes "watch_ok W a ((h, c) # J) issue w"
  shows "watch_ok W (Suc a) J issue (watch_commit h w)"
proof -
  note ok = watch_okD [OF assms]
  let ?hist = "\<lambda>lo hi. map (\<lambda>i. (i, W ! i)) [lo..<hi]"
  let ?rest = "map (\<lambda>((h, c), i). (h, i, c)) (zip J [Suc (Suc a)..<length W])"
  let ?accepts = "map (rd_accept_from_seq \<circ> snd) (rw_reads w)"
  define floor where "floor = (case ?accepts of [] \<Rightarrow> Suc a | x # xs \<Rightarrow> fold min xs x)"
  have lt: "Suc a < length W"
    using watch_ok_length_J [OF assms] by simp
  have tail: "drop (Suc a) W = W ! Suc a # drop (Suc (Suc a)) W"
    using lt by (simp add: Cons_nth_drop_Suc)
  have c: "c = W ! Suc a" and J: "map snd J = drop (Suc (Suc a)) W"
    using ok(3) unfolding tail by simp_all
  have pend: "rw_pending w = (h, Suc a, c) # ?rest"
    unfolding ok(5) using lt by (simp add: upt_conv_Cons del: upt_Suc)
  have "h \<notin> fst ` set ?rest"
    using ok(4) by (force dest: set_zip_leftD)
  then have del: "AList.delete h (rw_pending w) = ?rest"
    unfolding pend by simp
  obtain lo where lo: "lo \<le> a" "rw_history w = ?hist lo (Suc a)"
      "\<forall>r \<in> snd ` set (rw_reads w). lo \<le> rd_accept_from_seq r \<and> rd_accept_from_seq r \<le> a"
    using ok(8) by blast
  have ext: "rw_history w @ [(Suc a, c)] = ?hist lo (Suc (Suc a))"
    unfolding lo(2) c using lo(1) by simp
  obtain lo' where lo': "lo \<le> lo'" "lo' \<le> Suc a" "lo' = lo \<or> lo' \<le> floor"
      "prune_history floor (?hist lo (Suc (Suc a))) = ?hist lo' (Suc (Suc a))"
    using prune_history_suffix [of lo "Suc a" floor W, OF le_SucI [OF lo(1)]] by blast
  have floor: "floor \<le> rd_accept_from_seq r" if "r \<in> snd ` set (rw_reads w)" for r
  proof -
    have "rd_accept_from_seq r \<in> set ?accepts"
      using that by auto
    then show ?thesis
      unfolding floor_def
    proof (cases ?accepts)
      case (Cons x xs)
      with \<open>rd_accept_from_seq r \<in> set ?accepts\<close>
      show "(case ?accepts of [] \<Rightarrow> Suc a | x # xs \<Rightarrow> fold min xs x) \<le> rd_accept_from_seq r"
        using fold_min_le [of "rd_accept_from_seq r" x xs] by simp
    qed simp
  qed
  have wc: "watch_commit h w = w\<lparr> rw_pending := ?rest, rw_history := ?hist lo' (Suc (Suc a)) \<rparr>"
    using lo'(4) ext del unfolding watch_commit_def floor_def by (simp add: pend Let_def)
  have "\<forall>r \<in> snd ` set (rw_reads w). lo' \<le> rd_accept_from_seq r \<and> rd_accept_from_seq r \<le> Suc a"
    using lo(3) lo'(3) floor by (meson le_SucI le_trans)
  with lo'(2) show ?thesis
    unfolding watch_ok_def wc using lt J ok(2,4,6,7) by (simp del: upt_Suc) blast
qed

lemma verify_read_exact:
  assumes "watch_ok W a J issue w" and "issue h = Some b"
  shows "verify_read X h region w =
    (\<exists>i. b \<le> i \<and> i < length W \<and> W ! i = sha256 X region, drop_read h w)"
proof -
  note ok = watch_okD [OF assms(1)]
  obtain r where r: "map_of (rw_reads w) h = Some r" "b = rd_accept_from_seq r"
    using assms(2) ok(7) by auto
  obtain lo where lo: "lo \<le> a" "rw_history w = map (\<lambda>i. (i, W ! i)) [lo..<Suc a]"
      "\<forall>r \<in> snd ` set (rw_reads w). lo \<le> rd_accept_from_seq r \<and> rd_accept_from_seq r \<le> a"
    using ok(8) by blast
  have b: "lo \<le> b" "b \<le> a"
    using lo(3) r map_of_SomeD [OF r(1)] by force+
  have len: "length J = length W - Suc a"
    using watch_ok_length_J [OF assms(1)] .
  have J: "snd (J ! k) = W ! (Suc a + k)" if "k < length J" for k
    using that len ok(1) arg_cong [OF ok(3), of "\<lambda>xs. xs ! k"] by simp
  have hist: "list_ex (\<lambda>(s, c). b \<le> s \<and> c = sha256 X region) (rw_history w) \<longleftrightarrow>
      (\<exists>i. b \<le> i \<and> i \<le> a \<and> W ! i = sha256 X region)"
  proof -
    have "list_ex (\<lambda>(s, c). b \<le> s \<and> c = sha256 X region) (rw_history w) \<longleftrightarrow>
        (\<exists>i \<in> {lo..<Suc a}. b \<le> i \<and> W ! i = sha256 X region)"
      unfolding lo(2) by (simp add: list_ex_iff del: upt_Suc)
    then show ?thesis using b by fastforce
  qed
  have "list_ex ((\<lambda>(s, c). b \<le> s \<and> c = sha256 X region) \<circ> snd) (rw_pending w) \<longleftrightarrow>
      (\<exists>k < length J. W ! (Suc a + k) = sha256 X region)"
  proof -
    have "list_ex ((\<lambda>(s, c). b \<le> s \<and> c = sha256 X region) \<circ> snd) (rw_pending w) \<longleftrightarrow>
        (\<exists>k < length J. b \<le> Suc a + k \<and> snd (J ! k) = sha256 X region)"
      unfolding ok(5) using len
      by (simp add: list_ex_length split_beta cong: conj_cong)
    also have "\<dots> \<longleftrightarrow> (\<exists>k < length J. W ! (Suc a + k) = sha256 X region)"
      using b J by auto
    finally show ?thesis .
  qed
  moreover have "(\<exists>k < length J. W ! (Suc a + k) = sha256 X region) \<longleftrightarrow>
      (\<exists>i. a < i \<and> i < length W \<and> W ! i = sha256 X region)"
  proof
    assume "\<exists>i. a < i \<and> i < length W \<and> W ! i = sha256 X region"
    then obtain i where "a < i" "i < length W" "W ! i = sha256 X region" by blast
    then show "\<exists>k < length J. W ! (Suc a + k) = sha256 X region"
      using len by (intro exI [of _ "i - Suc a"]) simp
  next
    assume "\<exists>k < length J. W ! (Suc a + k) = sha256 X region"
    then obtain k where "k < length J" "W ! (Suc a + k) = sha256 X region" by blast
    then show "\<exists>i. a < i \<and> i < length W \<and> W ! i = sha256 X region"
      using len by (intro exI [of _ "Suc a + k"]) simp
  qed
  ultimately have pend: "list_ex ((\<lambda>(s, c). b \<le> s \<and> c = sha256 X region) \<circ> snd) (rw_pending w) \<longleftrightarrow>
      (\<exists>i. a < i \<and> i < length W \<and> W ! i = sha256 X region)"
    by blast
  have "(\<exists>i. b \<le> i \<and> i \<le> a \<and> W ! i = sha256 X region) \<or>
      (\<exists>i. a < i \<and> i < length W \<and> W ! i = sha256 X region) \<longleftrightarrow>
      (\<exists>i. b \<le> i \<and> i < length W \<and> W ! i = sha256 X region)"
    using b(2) ok(1) by (meson le_less_trans le_trans less_imp_le_nat not_le_imp_less)
  then show ?thesis
    using r hist pend by (simp add: verify_read_def commitment_of_region_def drop_read_def Let_def)
qed

end
