(* ===== verification/Proxy_Safety.thy ===== *)
theory Proxy_Safety
  imports Device_Proxy Region_Watch
begin

text \<open>
  Safety of the device proxy over every interleaving of its three tasks with an arbitrary storage
  host. An audit, which only observes the proxy, records the requests the kernel has outstanding,
  the contents the superblock region took, how many of them are durably pinned, and for each
  watched read and each superblock write what it must be compared with.
\<close>

subsection \<open>The audit\<close>

record Audit =
  au_out :: "handle set"
  au_writes :: "Commitment list"
  au_pinned :: nat
  au_issue :: "handle \<rightharpoonup> nat"
  au_open :: "handle \<rightharpoonup> Commitment \<times> nat option"
  au_unsent :: "(handle \<times> Commitment) list"

definition audit_new :: "Commitment \<Rightarrow> Audit" where
  "audit_new c = \<lparr> au_out = {}, au_writes = [c], au_pinned = 0, au_issue = Map.empty,
     au_open = Map.empty, au_unsent = [] \<rparr>"

definition audit_request :: "'x Ext_scheme \<Rightarrow> u64 \<Rightarrow> NbdRequest \<Rightarrow> bytes \<Rightarrow> Audit \<Rightarrow> Audit" where
  "audit_request X d rq payload g =
     (let h = rq_handle rq;
          g = g\<lparr> au_out := insert h (au_out g) \<rparr>
      in case primary_sb_overlap (rq_offset rq) (rq_length rq) d of
           Overlap_Full po \<Rightarrow>
             if rq_cmd_type rq = NBD_CMD_READ then
               g\<lparr> au_issue := (au_issue g)(h \<mapsto> au_pinned g) \<rparr>
             else if rq_cmd_type rq = NBD_CMD_WRITE then
               g\<lparr> au_open := (au_open g)
                    (h \<mapsto> (commitment_of_region X (take SB_REGION_LEN (drop po payload)), None)) \<rparr>
             else g
         | _ \<Rightarrow> g)"

definition audit_stream :: "'x Ext_scheme \<Rightarrow> Proxy \<Rightarrow> Audit \<Rightarrow> Audit" where
  "audit_stream X p g =
     (case px_request p of
        RT_Streaming h (WindowComplete region # evs) res \<Rightarrow>
          let c = commitment_of_region X region
          in g\<lparr> au_writes := au_writes g @ [c], au_unsent := [(h, c)],
                au_open := (au_open g)(h \<mapsto> (c, Some (length (au_writes g)))) \<rparr>
      | RT_Streaming h [] (Inr region) \<Rightarrow>
          if px_pin p = Pin_Running \<and> length (px_jobs p) \<le> 64 then g\<lparr> au_unsent := [] \<rparr> else g
      | _ \<Rightarrow> g)"

definition delivered :: "Proxy \<Rightarrow> Proxy \<Rightarrow> (handle \<times> bytes) list" where
  "delivered p p' = drop (length (px_to_kernel p)) (px_to_kernel p')"

definition settle :: "handle set \<Rightarrow> Audit \<Rightarrow> Audit" where
  "settle hs g = g\<lparr> au_out := au_out g - hs, au_issue := au_issue g |` (- hs),
     au_open := au_open g |` (- hs) \<rparr>"

text \<open>The watched reads a step ends, answered or refused.\<close>

definition reads_ended :: "Proxy \<Rightarrow> Proxy \<Rightarrow> handle set" where
  "reads_ended p p' = fst ` set (rw_reads (px_watch p)) - fst ` set (rw_reads (px_watch p'))"

fun audit :: "'x Ext_scheme \<Rightarrow> u64 \<Rightarrow> ProxyAction \<Rightarrow> Proxy \<Rightarrow> Audit \<Rightarrow> Audit" where
  "audit X d (KernelRequest header payload) p g =
     (case parse_request header of
        Inr rq \<Rightarrow> if px_request p = RT_Idle then audit_request X d rq payload g else g
      | Inl _ \<Rightarrow> g)"
| "audit X d StreamStep p g = audit_stream X p g"
| "audit X d (PinStep outcome) p g =
     (if px_pin p = Pin_Running \<and> px_jobs p \<noteq> [] \<and> is_ok outcome
      then g\<lparr> au_pinned := au_pinned g + 1 \<rparr> else g)"
| "audit X d a p g =
     (let p' = proxy_step X d a p in settle (fst ` set (delivered p p') \<union> reads_ended p p') g)"

text \<open>What the proxy relies on of the kernel: a new request does not reuse the handle of one that is
  still outstanding, and a write is followed by its whole payload. Nothing is assumed of the
  host.\<close>

definition kernel_ok :: "ProxyAction \<Rightarrow> Audit \<Rightarrow> bool" where
  "kernel_ok a g =
     (case a of
        KernelRequest header payload \<Rightarrow>
          (case parse_request header of
             Inr rq \<Rightarrow> rq_handle rq \<notin> au_out g \<and>
               (rq_cmd_type rq \<noteq> NBD_CMD_WRITE \<or> length payload = unat (rq_length rq))
           | Inl _ \<Rightarrow> True)
      | _ \<Rightarrow> True)"

definition audited_step :: "'x Ext_scheme \<Rightarrow> u64 \<Rightarrow> ProxyAction \<Rightarrow> Proxy \<times> Audit \<Rightarrow> Proxy \<times> Audit" where
  "audited_step X d a s = (proxy_step X d a (fst s), audit X d a (fst s) (snd s))"

definition region_fits :: "u64 \<Rightarrow> bool" where
  "region_fits d \<longleftrightarrow> unat d + 69632 < 2 ^ 64"

definition proxy_enabled :: "u64 \<Rightarrow> ProxyAction \<Rightarrow> Proxy \<times> Audit \<Rightarrow> bool" where
  "proxy_enabled d a s \<longleftrightarrow> region_fits d \<and> kernel_ok a (snd s)"

abbreviation proxy_reachable :: "'x Ext_scheme \<Rightarrow> u64 \<Rightarrow> Commitment \<Rightarrow> Proxy \<Rightarrow> Audit \<Rightarrow> bool" where
  "proxy_reachable X d c p g \<equiv>
     reachable (proxy_new c, audit_new c) (proxy_enabled d) (audited_step X d) (p, g)"

subsection \<open>The invariant\<close>

definition unpinned :: "Proxy \<Rightarrow> Audit \<Rightarrow> (handle \<times> Commitment) list" where
  "unpinned p g = map (\<lambda>j. (pj_handle j, pj_commitment j)) (px_jobs p) @ au_unsent g"

definition request_inv :: "'x Ext_scheme \<Rightarrow> RequestTask \<Rightarrow> Audit \<Rightarrow> bool" where
  "request_inv X t g =
     (case t of
        RT_Idle \<Rightarrow> au_unsent g = []
      | RT_Streaming h evs res \<Rightarrow>
          (\<exists>region. res = Inr region \<and>
             (windows evs = [region] \<and> au_unsent g = [] \<and>
                au_open g h = Some (commitment_of_region X region, None) \<or>
              windows evs = [] \<and> au_unsent g = [(h, commitment_of_region X region)]))
      | _ \<Rightarrow> True)"

definition handles_inv :: "bool \<Rightarrow> (handle \<rightharpoonup> u32) \<Rightarrow> PinGate \<Rightarrow> Audit \<Rightarrow> bool" where
  "handles_inv running inflight gate g \<longleftrightarrow>
     dom inflight \<subseteq> au_out g \<and> dom gate \<subseteq> dom (au_open g) \<and> dom (au_open g) \<subseteq> au_out g \<and>
     dom inflight \<inter> dom (au_open g) = {} \<and>
     (running \<longrightarrow> dom (au_issue g) \<subseteq> dom inflight \<and> dom (au_open g) \<subseteq> dom gate)"

definition open_inv :: "(handle \<times> Commitment) list \<Rightarrow> PinGate \<Rightarrow> Audit \<Rightarrow> bool" where
  "open_inv J gate g \<longleftrightarrow>
     (\<forall>k < length J. au_open g (fst (J ! k)) = Some (snd (J ! k), Some (Suc (au_pinned g) + k))) \<and>
     (\<forall>h c i. au_open g h = Some (c, Some i) \<longrightarrow> 0 < i \<and> i < length (au_writes g) \<and> au_writes g ! i = c) \<and>
     (\<forall>h. gate h = Some Pin_Ok \<longrightarrow> (\<exists>c i. au_open g h = Some (c, Some i) \<and> i \<le> au_pinned g))"

definition stash_inv :: "(handle \<times> bytes) list \<Rightarrow> bool" where
  "stash_inv stashed \<longleftrightarrow> (\<forall>(h, header) \<in> set stashed. parse_reply header = Inr (0, h))"

definition proxy_inv :: "'x Ext_scheme \<Rightarrow> Proxy \<times> Audit \<Rightarrow> bool" where
  "proxy_inv X s =
     (case s of (p, g) \<Rightarrow>
        watch_ok (au_writes g) (au_pinned g) (unpinned p g) (au_issue g) (px_watch p) \<and>
        request_inv X (px_request p) g \<and>
        handles_inv (px_reply p = Rep_Running) (px_inflight p) (px_gate p) g \<and>
        open_inv (unpinned p g) (px_gate p) g \<and>
        stash_inv (px_stashed p))"

lemma proxy_inv_new: "proxy_inv X (proxy_new c, audit_new c)"
  by (simp add: proxy_inv_def proxy_new_def audit_new_def unpinned_def watch_ok_new request_inv_def
      handles_inv_def open_inv_def stash_inv_def pin_gate_new_def)

lemma proxy_invD:
  assumes "proxy_inv X (p, g)"
  shows "watch_ok (au_writes g) (au_pinned g) (unpinned p g) (au_issue g) (px_watch p)"
    "request_inv X (px_request p) g" "handles_inv (px_reply p = Rep_Running) (px_inflight p) (px_gate p) g"
    "open_inv (unpinned p g) (px_gate p) g" "stash_inv (px_stashed p)"
  using assms by (simp_all add: proxy_inv_def)

lemma request_inv_stopped [simp]:
  "request_inv X (RT_Failed e) g" "request_inv X RT_Done g"
  by (simp_all add: request_inv_def)

lemma forward_frame_frame [simp]:
  "px_watch (forward_frame header payload n p) = px_watch p"
  "px_inflight (forward_frame header payload n p) = px_inflight p"
  "px_gate (forward_frame header payload n p) = px_gate p"
  "px_jobs (forward_frame header payload n p) = px_jobs p"
  "px_stashed (forward_frame header payload n p) = px_stashed p"
  "px_to_kernel (forward_frame header payload n p) = px_to_kernel p"
  "px_reply (forward_frame header payload n p) = px_reply p"
  by (simp_all add: forward_frame_def request_fails_def Let_def)

lemma forward_frame_request:
  "request_inv X (px_request p) g \<Longrightarrow> request_inv X (px_request (forward_frame header payload n p)) g"
  by (simp add: forward_frame_def request_fails_def Let_def)

lemma proxy_inv_frame:
  assumes "proxy_inv X (p, g)"
    and "px_watch p' = px_watch p" "px_inflight p' = px_inflight p" "px_gate p' = px_gate p"
    "px_jobs p' = px_jobs p" "px_stashed p' = px_stashed p" "px_reply p' = px_reply p" "request_inv X (px_request p') g"
  shows "proxy_inv X (p', g)"
  using assms by (simp add: proxy_inv_def unpinned_def)

text \<open>A fresh handle entering the table of outstanding requests disturbs nothing.\<close>

lemma proxy_inv_out:
  assumes "proxy_inv X (p, g)"
  shows "proxy_inv X (p, g\<lparr> au_out := insert h (au_out g) \<rparr>)"
  using assms
  by (auto simp: proxy_inv_def unpinned_def request_inv_def handles_inv_def open_inv_def
      split: RequestTask.splits)


subsection \<open>Every step keeps it\<close>

lemma handles_fresh:
  assumes "handles_inv run inflight gate g" and "h \<notin> au_out g"
  shows "h \<notin> dom inflight" "h \<notin> dom gate" "h \<notin> dom (au_open g)"
  using assms unfolding handles_inv_def by blast+

lemma inv_watched_read:
  assumes inv: "proxy_inv X (p, g)" and h: "h \<notin> au_out g"
  shows "proxy_inv X
    (p\<lparr> px_inflight := (px_inflight p)(h \<mapsto> len), px_watch := watch_read h po (px_watch p) \<rparr>,
     g\<lparr> au_out := insert h (au_out g), au_issue := (au_issue g)(h \<mapsto> au_pinned g) \<rparr>)"
proof -
  note invs = proxy_invD [OF inv]
  have "handles_inv (px_reply p = Rep_Running) ((px_inflight p)(h \<mapsto> len)) (px_gate p)
      (g\<lparr> au_out := insert h (au_out g), au_issue := (au_issue g)(h \<mapsto> au_pinned g) \<rparr>)"
    using invs(3) handles_fresh [OF invs(3) h] by (auto simp: handles_inv_def)
  with invs watch_ok_read [OF invs(1)] show ?thesis
    by (simp add: proxy_inv_def unpinned_def request_inv_def open_inv_def split: RequestTask.splits)
qed

lemma inv_plain_read:
  assumes inv: "proxy_inv X (p, g)" and h: "h \<notin> au_out g"
  shows "proxy_inv X (p\<lparr> px_inflight := (px_inflight p)(h \<mapsto> len) \<rparr>, g\<lparr> au_out := insert h (au_out g) \<rparr>)"
proof -
  note invs = proxy_invD [OF inv]
  have "handles_inv (px_reply p = Rep_Running) ((px_inflight p)(h \<mapsto> len)) (px_gate p) (g\<lparr> au_out := insert h (au_out g) \<rparr>)"
    using invs(3) handles_fresh [OF invs(3) h] by (auto simp: handles_inv_def)
  with invs show ?thesis
    by (simp add: proxy_inv_def unpinned_def request_inv_def open_inv_def split: RequestTask.splits)
qed

lemma inv_superblock_write:
  assumes inv: "proxy_inv X (p, g)" and h: "h \<notin> au_out g" and idle: "px_request p = RT_Idle"
    and ev: "windows evs = [region]"
  shows "proxy_inv X
    (p\<lparr> px_gate := gate_begin h (px_gate p), px_to_host := host, px_request := RT_Streaming h evs (Inr region) \<rparr>,
     g\<lparr> au_out := insert h (au_out g),
        au_open := (au_open g)(h \<mapsto> (commitment_of_region X region, None)) \<rparr>)"
proof -
  note invs = proxy_invD [OF inv]
  note fresh = handles_fresh [OF invs(3) h]
  let ?g = "g\<lparr> au_out := insert h (au_out g),
    au_open := (au_open g)(h \<mapsto> (commitment_of_region X region, None)) \<rparr>"
  have "handles_inv (px_reply p = Rep_Running) (px_inflight p) (gate_begin h (px_gate p)) ?g"
    using invs(3) fresh by (auto simp: handles_inv_def gate_begin_def)
  moreover have "open_inv (unpinned p g) (gate_begin h (px_gate p)) ?g"
    using invs(4) fresh(3) by (auto simp: open_inv_def gate_begin_def)
  moreover have "request_inv X (RT_Streaming h evs (Inr region)) ?g"
    using invs(2) idle ev by (simp add: request_inv_def)
  ultimately show ?thesis
    using invs by (simp add: proxy_inv_def unpinned_def)
qed

lemma request_proxy_inv:
  assumes inv: "proxy_inv X (p, g)" and d: "unat d + 69632 < 2 ^ 64"
    and idle: "px_request p = RT_Idle" and rq: "parse_request header = Inr rq"
    and h: "rq_handle rq \<notin> au_out g"
    and payload: "rq_cmd_type rq \<noteq> NBD_CMD_WRITE \<or> length payload = unat (rq_length rq)"
  shows "proxy_inv X (request_proxy True d header payload p, audit_request X d rq payload g)"
proof -
  let ?h = "rq_handle rq" and ?o = "primary_sb_overlap (rq_offset rq) (rq_length rq) d"
  have frame: "proxy_inv X (forward_frame hdr pl n q, g')" if "proxy_inv X (q, g')" for hdr pl n q g'
    using forward_frame_request [OF proxy_invD(2) [OF that]]
    by (intro proxy_inv_frame [OF that]) simp_all
  have fin: "proxy_inv X (q\<lparr> px_request := RT_Done \<rparr>, g')" if "proxy_inv X (q, g')" for q g'
    by (intro proxy_inv_frame [OF that]) simp_all
  have fail: "proxy_inv X (request_fails e p, g\<lparr> au_out := insert ?h (au_out g) \<rparr>)" for e
    using proxy_inv_out [OF inv] by (rule proxy_inv_frame) (simp_all add: request_fails_def)
  consider (rd) "rq_cmd_type rq = NBD_CMD_READ" | (wr) "rq_cmd_type rq = NBD_CMD_WRITE"
    | (other) "rq_cmd_type rq \<noteq> NBD_CMD_READ" "rq_cmd_type rq \<noteq> NBD_CMD_WRITE" by blast
  then show ?thesis
  proof cases
    case rd
    then show ?thesis
      using rq frame [OF inv_watched_read [OF inv h]] frame [OF inv_plain_read [OF inv h]]
      by (cases ?o) (simp_all add: request_proxy_def audit_request_def Let_def nbd_cmds)
  next
    case wr
    show ?thesis
    proof (cases ?o)
      case (Overlap_Full po)
      have po: "po + SB_REGION_LEN \<le> unat (rq_length rq)"
        using Overlap_Full primary_sb_overlap_nat [OF d, of "rq_offset rq" "rq_length rq"]
        by (auto simp: SB_REGION_LEN_def split: if_splits)
      obtain evs1 evs2 where ev: "forward_bytes_extract payload (unat (rq_length rq)) po SB_REGION_LEN =
          (evs1 @ WindowComplete (take SB_REGION_LEN (drop po payload)) # evs2,
           Inr (take SB_REGION_LEN (drop po payload)))" "windows (evs1 @ evs2) = []"
      proof (rule forward_bytes_extract_events [OF po, of payload])
        show "0 < SB_REGION_LEN" by (simp add: SB_REGION_LEN_def)
        show "unat (rq_length rq) \<le> length payload" using payload wr by simp
      qed
      show ?thesis
        using rq wr Overlap_Full ev inv_superblock_write [OF inv h idle]
        by (simp add: request_proxy_def audit_request_def Let_def nbd_cmds)
    next
      case Overlap_None
      then show ?thesis
        using rq wr frame [OF proxy_inv_out [OF inv, of ?h]]
        by (simp add: request_proxy_def audit_request_def Let_def nbd_cmds)
    next
      case Overlap_Partial
      then show ?thesis
        using rq wr fail by (simp add: request_proxy_def audit_request_def Let_def nbd_cmds)
    qed
  next
    case other
    have g: "audit_request X d rq payload g = g\<lparr> au_out := insert ?h (au_out g) \<rparr>"
      using other by (cases ?o) (simp_all add: audit_request_def Let_def)
    show ?thesis
      unfolding g using rq other fail frame [OF proxy_inv_out [OF inv, of ?h]]
        fin [OF frame [OF proxy_inv_out [OF inv, of ?h]]]
      by (simp add: request_proxy_def Let_def)
  qed
qed


lemma unpinned_not_open:
  assumes "open_inv J gate g" and "au_open g h = Some (c, None) \<or> au_open g h = None"
  shows "h \<notin> fst ` set J"
proof
  assume "h \<in> fst ` set J"
  then obtain k where "k < length J" "h = fst (J ! k)"
    by (auto simp: in_set_conv_nth)
  with assms show False by (auto simp: open_inv_def)
qed

lemma watch_ok_count: "watch_ok W a J issue w \<Longrightarrow> length W = Suc a + length J"
  using watch_ok_length_J watch_okD(1) by fastforce

lemma inv_window:
  assumes inv: "proxy_inv X (p, g)"
    and t: "px_request p = RT_Streaming h (WindowComplete r # evs) res"
  defines "c \<equiv> commitment_of_region X r"
  shows "proxy_inv X
    (p\<lparr> px_watch := begin_pending h c (px_watch p), px_request := RT_Streaming h evs res \<rparr>,
     g\<lparr> au_writes := au_writes g @ [c], au_unsent := [(h, c)],
        au_open := (au_open g)(h \<mapsto> (c, Some (length (au_writes g)))) \<rparr>)"
proof -
  note invs = proxy_invD [OF inv]
  let ?g = "g\<lparr> au_writes := au_writes g @ [c], au_unsent := [(h, c)],
    au_open := (au_open g)(h \<mapsto> (c, Some (length (au_writes g)))) \<rparr>"
  let ?J = "unpinned p g"
  from invs(2) have t': "res = Inr r" "windows evs = []" "au_unsent g = []" "au_open g h = Some (c, None)"
    unfolding t by (auto simp: request_inv_def c_def)
  have J: "unpinned (p\<lparr> px_watch := w, px_request := q \<rparr>) ?g = ?J @ [(h, c)]" for w q
    using t'(3) by (simp add: unpinned_def)
  have h: "h \<notin> fst ` set ?J"
    using unpinned_not_open [OF invs(4)] t'(4) by blast
  have len: "length (au_writes g) = Suc (au_pinned g) + length ?J"
    using watch_ok_count [OF invs(1)] .
  have "px_gate p h \<noteq> Some Pin_Ok"
    using invs(4) t'(4) by (auto simp: open_inv_def)
  moreover have "fst (?J ! k) \<noteq> h" if "k < length ?J" for k
    using h that by force
  ultimately have "open_inv (?J @ [(h, c)]) (px_gate p) ?g"
    using invs(4) len by (auto simp: open_inv_def nth_append less_Suc_eq; blast)
  moreover have "handles_inv (px_reply p = Rep_Running) (px_inflight p) (px_gate p) ?g"
    using invs(3) t'(4) by (auto simp: handles_inv_def)
  moreover have "request_inv X (RT_Streaming h evs res) ?g"
    using t' by (simp add: request_inv_def c_def)
  ultimately show ?thesis
    using watch_ok_begin [OF invs(1) h, of c] invs(5) by (simp add: proxy_inv_def J)
qed

lemma request_stream_inv:
  assumes inv: "proxy_inv X (p, g)"
  shows "proxy_inv X (request_stream X p, audit_stream X p g)"
proof (cases "px_request p")
  case (RT_Streaming h evs res)
  note t = RT_Streaming
  note invs = proxy_invD [OF inv]
  obtain region where res: "res = Inr region"
    using invs(2) unfolding t by (auto simp: request_inv_def)
  show ?thesis
  proof (cases evs)
    case Nil
    let ?c = "commitment_of_region X region"
    have unsent: "au_unsent g = [(h, ?c)]"
      using invs(2) unfolding t Nil by (auto simp: request_inv_def res)
    have "unpinned (p\<lparr> px_jobs := px_jobs p @ [\<lparr> pj_handle = h, pj_commitment = ?c \<rparr>],
        px_request := RT_Idle \<rparr>) (g\<lparr> au_unsent := [] \<rparr>) = unpinned p g"
      by (simp add: unpinned_def unsent)
    then have "proxy_inv X (p\<lparr> px_jobs := px_jobs p @ [\<lparr> pj_handle = h, pj_commitment = ?c \<rparr>],
        px_request := RT_Idle \<rparr>, g\<lparr> au_unsent := [] \<rparr>)"
      using invs by (simp add: proxy_inv_def handles_inv_def open_inv_def request_inv_def)
    moreover have "proxy_inv X (request_fails PinActorGone p, g)"
      using inv by (rule proxy_inv_frame) (simp_all add: request_fails_def)
    ultimately show ?thesis
      using inv by (simp add: request_stream_def audit_stream_def t Nil res)
  next
    case (Cons e evs')
    show ?thesis
    proof (cases e)
      case (Wrote c)
      have "request_inv X (RT_Streaming h evs' res) g"
        using invs(2) unfolding t Cons Wrote by (simp add: request_inv_def)
      then show ?thesis
        using Cons Wrote t
        by (auto simp: request_stream_def audit_stream_def intro: proxy_inv_frame [OF inv])
    next
      case (WindowComplete r)
      then show ?thesis
        using inv_window [OF inv, of h r evs' res] t Cons
        by (simp add: request_stream_def audit_stream_def Let_def)
    qed
  qed
qed (use inv in \<open>simp_all add: request_stream_def audit_stream_def\<close>)


lemma open_inv_head:
  assumes "open_inv ((h, c) # J) gate g"
  shows "au_open g h = Some (c, Some (Suc (au_pinned g)))"
  using assms by (auto simp: open_inv_def)

lemma pin_ok_inv:
  assumes inv: "proxy_inv X (p, g)" and jobs: "px_jobs p = job # jobs"
  shows "proxy_inv X (p\<lparr> px_jobs := jobs, px_watch := watch_commit (pj_handle job) (px_watch p),
      px_gate := gate_finish_ok (pj_handle job) (px_gate p), px_nudges := n \<rparr>,
    g\<lparr> au_pinned := au_pinned g + 1 \<rparr>)"
proof -
  note invs = proxy_invD [OF inv]
  let ?g = "g\<lparr> au_pinned := au_pinned g + 1 \<rparr>" and ?h = "pj_handle job"
  define J where "J = map (\<lambda>j. (pj_handle j, pj_commitment j)) jobs @ au_unsent g"
  have J: "unpinned p g = (?h, pj_commitment job) # J"
    by (simp add: unpinned_def jobs J_def)
  have h: "au_open g ?h = Some (pj_commitment job, Some (Suc (au_pinned g)))"
    using invs(4) unfolding J by (rule open_inv_head)
  have "open_inv J (gate_finish_ok ?h (px_gate p)) ?g"
    unfolding open_inv_def
  proof (intro conjI allI impI)
    fix k assume "k < length J"
    then show "au_open ?g (fst (J ! k)) = Some (snd (J ! k), Some (Suc (au_pinned ?g) + k))"
      using invs(4) unfolding J open_inv_def by (auto dest: spec [of _ "Suc k"])
  next
    fix h assume "gate_finish_ok ?h (px_gate p) h = Some Pin_Ok"
    then show "\<exists>c i. au_open ?g h = Some (c, Some i) \<and> i \<le> au_pinned ?g"
      using h invs(4) by (cases "h = ?h") (auto simp: gate_finish_ok_def open_inv_def intro: le_SucI)
  qed (use invs(4) in \<open>auto simp: open_inv_def\<close>)
  moreover have "handles_inv (px_reply p = Rep_Running) (px_inflight p) (gate_finish_ok ?h (px_gate p)) ?g"
    using invs(3) h by (auto simp: handles_inv_def gate_finish_ok_def)
  moreover have "request_inv X (px_request p) ?g"
    using invs(2) by (simp add: request_inv_def split: RequestTask.splits)
  moreover have "unpinned (p\<lparr> px_jobs := jobs, px_watch := w, px_gate := q, px_nudges := n \<rparr>) ?g = J" for w q
    by (simp add: unpinned_def J_def)
  ultimately show ?thesis
    using watch_ok_commit [OF invs(1) [unfolded J]] invs(5) by (simp add: proxy_inv_def)
qed

lemma pin_err_inv:
  assumes inv: "proxy_inv X (p, g)" and jobs: "px_jobs p = job # jobs"
  shows "proxy_inv X (p\<lparr> px_gate := gate_finish_err (pj_handle job) reason (px_gate p),
      px_nudges := n, px_pin := t \<rparr>, g)"
proof -
  note invs = proxy_invD [OF inv]
  have "unpinned p g \<noteq> [] \<and> fst (hd (unpinned p g)) = pj_handle job"
    by (simp add: unpinned_def jobs)
  then obtain c J where J: "unpinned p g = (pj_handle job, c) # J"
    by (cases "unpinned p g") auto
  have h: "au_open g (pj_handle job) = Some (c, Some (Suc (au_pinned g)))"
    using invs(4) unfolding J by (rule open_inv_head)
  have "open_inv (unpinned p g) (gate_finish_err (pj_handle job) reason (px_gate p)) g"
    using invs(4) by (auto simp: open_inv_def gate_finish_err_def)
  moreover have "handles_inv (px_reply p = Rep_Running) (px_inflight p)
      (gate_finish_err (pj_handle job) reason (px_gate p)) g"
    using invs(3) h by (auto simp: handles_inv_def gate_finish_err_def)
  ultimately show ?thesis
    using invs by (simp add: proxy_inv_def unpinned_def)
qed

lemma pin_actor_inv:
  assumes "proxy_inv X (p, g)" and "px_pin p = Pin_Running"
  shows "proxy_inv X (pin_actor outcome p, audit X d (PinStep outcome) p g)"
  using assms pin_ok_inv pin_err_inv
  by (cases "px_jobs p"; cases outcome) (simp_all add: pin_actor_def)

text \<open>A reply that reaches the kernel closes its request: a read, or a request whose gate entry is
  absent or reports a completed pin.\<close>

lemma settle_one:
  "settle {h} g = g\<lparr> au_out := au_out g - {h}, au_issue := (au_issue g)(h := None),
     au_open := (au_open g)(h := None) \<rparr>"
  by (simp add: settle_def restrict_complement_singleton_eq)

lemma settle_settle: "settle A (settle B g) = settle (B \<union> A) g"
  by (simp add: settle_def Diff_eq Int_ac)

lemma settle_empty [simp]: "settle {} g = g"
  by (simp add: settle_def restrict_map_def)

lemma inv_deliver:
  assumes inv: "proxy_inv X (p, g)" and run: "px_reply p = Rep_Running"
    and gate: "px_gate p h = None \<or> px_gate p h = Some Pin_Ok"
    and p': "px_inflight p' = (px_inflight p)(h := None)" "px_gate p' = (px_gate p)(h := None)"
      "px_watch p' = drop_read h (px_watch p)" "px_jobs p' = px_jobs p" "px_request p' = px_request p"
      "stash_inv (px_stashed p')"
  shows "proxy_inv X (p', settle {h} g)"
proof -
  note invs = proxy_invD [OF inv]
  have dom: "dom (au_open g) = dom (px_gate p)" "dom (au_issue g) \<subseteq> dom (px_inflight p)"
    using invs(3) run by (auto simp: handles_inv_def)
  have h: "au_open g h = None \<or> (\<exists>c i. au_open g h = Some (c, Some i) \<and> i \<le> au_pinned g)"
    using gate
  proof
    assume "px_gate p h = None"
    then show ?thesis using dom(1) by (metis domIff)
  qed (use invs(4) in \<open>simp add: open_inv_def\<close>)
  have unp: "unpinned p' (settle {h} g) = unpinned p g"
    by (simp add: unpinned_def settle_one p')
  have J: "fst (unpinned p g ! k) \<noteq> h" if "k < length (unpinned p g)" for k
    using h invs(4) that by (fastforce simp: open_inv_def)
  have "open_inv (unpinned p g) (px_gate p') (settle {h} g)"
    using invs(4) J by (auto simp: open_inv_def settle_one p')
  moreover have "handles_inv (px_reply p' = Rep_Running) (px_inflight p') (px_gate p') (settle {h} g)"
    using invs(3) dom by (auto simp: handles_inv_def settle_one p')
  moreover have "request_inv X (px_request p') (settle {h} g)"
    using invs(2) h by (auto simp: request_inv_def settle_one p' split: RequestTask.splits)
  ultimately show ?thesis
    using watch_ok_drop [OF invs(1), of h] p'(3,6) by (simp add: proxy_inv_def unp) (simp add: settle_one)
qed


lemma inv_reply_stops:
  assumes inv: "proxy_inv X (p, g)" and stop: "px_reply p' \<noteq> Rep_Running"
    and p': "px_inflight p' \<subseteq>\<^sub>m px_inflight p" "px_gate p' \<subseteq>\<^sub>m px_gate p"
      "px_watch p' = px_watch p" "px_jobs p' = px_jobs p" "px_request p' = px_request p"
      "px_stashed p' = px_stashed p"
  shows "proxy_inv X (p', g)"
proof -
  note invs = proxy_invD [OF inv]
  have sub: "dom (px_inflight p') \<subseteq> dom (px_inflight p)" "dom (px_gate p') \<subseteq> dom (px_gate p)"
    using p'(1,2) by (auto dest: map_le_implies_dom_le)
  have ok: "px_gate p h = Some Pin_Ok" if "px_gate p' h = Some Pin_Ok" for h
    using p'(2) that by (metis domI map_le_def)
  have "open_inv (unpinned p g) (px_gate p') g"
    using invs(4) ok by (auto simp: open_inv_def)
  moreover have "handles_inv False (px_inflight p') (px_gate p') g"
  proof -
    have "A' \<subseteq> A \<Longrightarrow> B' \<subseteq> B \<Longrightarrow> A \<subseteq> O' \<Longrightarrow> B \<subseteq> C \<Longrightarrow> C \<subseteq> O' \<Longrightarrow> A \<inter> C = {} \<Longrightarrow>
        A' \<subseteq> O' \<and> B' \<subseteq> C \<and> C \<subseteq> O' \<and> A' \<inter> C = {}" for A A' B B' C O' :: "handle set"
      by blast
    from this [OF sub, of "au_out g" "dom (au_open g)"] show ?thesis
      using invs(3) by (simp add: handles_inv_def)
  qed
  ultimately show ?thesis
    using invs stop p'(3-6) by (simp add: proxy_inv_def unpinned_def)
qed

lemma drop_read_id: "map_of (rw_reads w) h = None \<Longrightarrow> drop_read h w = w"
  by (simp add: drop_read_def map_of_eq_None_iff)

lemma AList_delete_keys: "fst ` set (AList.delete k al) = fst ` set al - {k}"
  by (metis AList.delete_keys set_map set_removeAll)

lemma reads_ended_drop:
  "px_watch p' = drop_read h (px_watch p) \<Longrightarrow>
    reads_ended p p' = (if map_of (rw_reads (px_watch p)) h = None then {} else {h})"
  by (auto simp: reads_ended_def drop_read_def map_of_eq_None_iff AList_delete_keys)

lemma reads_ended_same: "px_watch p' = px_watch p \<Longrightarrow> reads_ended p p' = {}"
  by (simp add: reads_ended_def)

text \<open>What one reply does: it closes its request, or it stops the pump, or it parks the reply.\<close>

lemma gated_reply_cases:
  assumes inv: "proxy_inv X (p, g)" and run: "px_reply p = Rep_Running"
    and p': "p' = gated_reply_proxy X header stream p"
  obtains
    (closed) h error where "parse_reply header = Inr (error, h)"
      "px_gate p h = None \<or> px_gate p h = Some Pin_Ok \<and> error = 0"
      "px_inflight p' = (px_inflight p)(h := None)" "px_gate p' = (px_gate p)(h := None)"
      "px_watch p' = drop_read h (px_watch p)" "px_jobs p' = px_jobs p" "px_request p' = px_request p"
      "px_stashed p' = px_stashed p" "fst ` set (delivered p p') \<union> reads_ended p p' = {h}"
      "fst ` set (delivered p p') \<subseteq> {h}" "px_reply p' = Rep_Failed StaleRegionRead \<or> delivered p p' \<noteq> []"
  | (stopped) "px_reply p' \<noteq> Rep_Running" "px_inflight p' \<subseteq>\<^sub>m px_inflight p" "px_gate p' \<subseteq>\<^sub>m px_gate p"
      "px_watch p' = px_watch p" "px_jobs p' = px_jobs p" "px_request p' = px_request p"
      "px_stashed p' = px_stashed p" "px_to_kernel p' = px_to_kernel p"
  | (parked) h where "parse_reply header = Inr (0, h)" "px_gate p h = Some Pin_Pending"
      "p' = p\<lparr> px_stashed := AList.update h header (px_stashed p) \<rparr>"
proof (cases "parse_reply header")
  case (Inl e)
  show thesis
    by (rule stopped) (simp_all add: p' gated_reply_proxy_def Inl reply_fails_def)
next
  case (Inr eh)
  obtain error h where reply: "parse_reply header = Inr (error, h)"
    using Inr by (cases eh) auto
  note invs = proxy_invD [OF inv]
  have dom: "dom (px_gate p) \<subseteq> dom (au_open g)" "dom (au_issue g) \<subseteq> dom (px_inflight p)"
      "dom (px_inflight p) \<inter> dom (au_open g) = {}"
    using invs(3) run by (auto simp: handles_inv_def)
  have upd: "m(k := None) \<subseteq>\<^sub>m m" for m :: "handle \<rightharpoonup> 'v" and k
    by (simp add: map_le_def)
  show thesis
  proof (cases "px_inflight p h")
    case None
    have "map_of (rw_reads (px_watch p)) h = None"
      using None dom(2) watch_okD(7) [OF invs(1)] by (auto simp: dom_def)
    note unwatched = this drop_read_id [OF this]
    have inflight: "(px_inflight p)(h := None) = px_inflight p"
      using None by (simp add: fun_upd_idem)
    consider (gone) "px_gate p h = None" | (pending) "px_gate p h = Some Pin_Pending"
      | (pinned) "px_gate p h = Some Pin_Ok" | (failed) r where "px_gate p h = Some (Pin_Failed r)"
      by (metis PinStatus.exhaust option.exhaust)
    then show thesis
    proof cases
      case gone
      then show thesis
        using reply None unwatched inflight
        by (intro closed [of error h]) (simp_all add: p' gated_reply_proxy_def gate_check_def
          to_kernel_def delivered_def reads_ended_same fun_upd_idem)
    next
      case pending
      show thesis
      proof (cases "error = 0")
        case True
        then show thesis
          using reply None pending by (intro parked [of h]) (simp_all add: p' gated_reply_proxy_def gate_check_def)
      next
        case False
        then show thesis
          using reply None pending
          by (intro stopped) (simp_all add: p' gated_reply_proxy_def gate_check_def reply_fails_def)
      qed
    next
      case pinned
      show thesis
      proof (cases "error = 0")
        case True
        then show thesis
          using reply None pinned unwatched inflight
          by (intro closed [of error h]) (simp_all add: p' gated_reply_proxy_def gate_check_def
            to_kernel_def delivered_def reads_ended_same)
      next
        case False
        then show thesis
          using reply None pinned upd
          by (intro stopped) (simp_all add: p' gated_reply_proxy_def gate_check_def reply_fails_def)
      qed
    next
      case failed
      then show thesis
        using reply None
        by (intro stopped) (simp_all add: p' gated_reply_proxy_def gate_check_def reply_fails_def)
    qed
  next
    case (Some len)
    have "h \<notin> dom (px_gate p)"
      using Some dom(1,3) by blast
    then have gate: "px_gate p h = None" "(px_gate p)(h := None) = px_gate p"
      by (auto simp: fun_upd_idem)
    show thesis
    proof (cases "map_of (rw_reads (px_watch p)) h")
      case None
      then show thesis
        using reply Some gate drop_read_id [OF None]
        by (intro closed [of error h]) (simp_all add: p' gated_reply_proxy_def read_payload_offset_def
          to_kernel_def reply_fails_def delivered_def reads_ended_same Let_def)
    next
      case watched: (Some r)
      then have ver: "snd (verify_read X h region (px_watch p)) = drop_read h (px_watch p)" for region
        by (simp add: verify_read_def drop_read_def Let_def)
      show thesis
      proof (cases "error = 0 \<and>
          (length stream < unat len \<or> unat len < rd_payload_offset r + SB_REGION_LEN)")
        case True
        then show thesis
          using reply Some watched upd
          by (intro stopped) (auto simp: p' gated_reply_proxy_def read_payload_offset_def
            reply_fails_def Let_def)
      next
        case False
        then show thesis
          using reply Some watched gate ver
          by (intro closed [of error h]) (auto simp: p' gated_reply_proxy_def read_payload_offset_def
            to_kernel_def reply_fails_def delivered_def reads_ended_drop Let_def)
      qed
    qed
  qed
qed


lemma stash_inv_update:
  assumes "stash_inv st" and "parse_reply header = Inr (0, h)"
  shows "stash_inv (AList.update h header st)"
  using assms unfolding stash_inv_def by (induction st) auto

lemma gated_reply_inv:
  assumes inv: "proxy_inv X (p, g)" and run: "px_reply p = Rep_Running"
  shows "proxy_inv X (gated_reply_proxy X header stream p, audit X d (HostReply header stream) p g)"
proof -
  let ?p' = "gated_reply_proxy X header stream p"
  have au: "audit X d (HostReply header stream) p g =
      settle (fst ` set (delivered p ?p') \<union> reads_ended p ?p') g"
    using run by (simp add: Let_def)
  from inv run refl [of ?p'] show ?thesis
  proof (cases rule: gated_reply_cases)
    case (closed h error)
    then show ?thesis
      unfolding au closed(9) using proxy_invD(5) [OF inv]
      by (intro inv_deliver [OF inv run]) auto
  next
    case stopped
    have "delivered p ?p' = []" "reads_ended p ?p' = {}"
      using stopped(4,8) by (simp_all add: delivered_def reads_ended_same)
    then show ?thesis
      unfolding au using inv_reply_stops [OF inv stopped(1-7)] by simp
  next
    case (parked h)
    have "delivered p ?p' = []" "reads_ended p ?p' = {}"
      by (simp_all add: parked(3) delivered_def reads_ended_same)
    then show ?thesis
      unfolding au parked(3)
      using proxy_invD [OF inv] stash_inv_update [OF proxy_invD(5) [OF inv] parked(1)]
      by (simp add: proxy_inv_def unpinned_def)
  qed
qed

lemma flush_stashed_kernel:
  "\<exists>out. px_to_kernel (flush_stashed hs p) = px_to_kernel p @ out"
  by (induction hs p rule: flush_stashed.induct)
    (force simp: to_kernel_def reply_fails_def split: option.splits prod.splits GateCheck.splits)+

lemma flush_stashed_watch:
  "px_watch (flush_stashed hs p) = px_watch p" "px_inflight (flush_stashed hs p) = px_inflight p"
  by (induction hs p rule: flush_stashed.induct)
    (auto simp: to_kernel_def reply_fails_def split: option.splits prod.splits GateCheck.splits)

lemma flush_inv:
  assumes "proxy_inv X (p, g)" and "px_reply p = Rep_Running"
  shows "proxy_inv X (flush_stashed hs p, settle (fst ` set (delivered p (flush_stashed hs p))) g)"
  using assms
proof (induction hs arbitrary: p g)
  case Nil
  then show ?case by (simp add: delivered_def)
next
  case (Cons h hs)
  note inv = Cons.prems(1) and run = Cons.prems(2)
  note invs = proxy_invD [OF inv]
  have stops: "proxy_inv X (reply_fails e p, settle (fst ` set (delivered p (reply_fails e p))) g)" for e
    using inv_reply_stops [OF inv, of "reply_fails e p"] by (simp add: reply_fails_def delivered_def)
  consider (gone) "px_gate p h = None" | (pending) "px_gate p h = Some Pin_Pending"
    | (pinned) "px_gate p h = Some Pin_Ok" | (failed) r where "px_gate p h = Some (Pin_Failed r)"
    by (metis PinStatus.exhaust option.exhaust)
  then show ?case
  proof cases
    case pinned
    show ?thesis
    proof (cases "map_of (px_stashed p) h")
      case None
      then show ?thesis using pinned inv by (simp add: gate_check_def delivered_def)
    next
      case (Some header)
      define q where "q = to_kernel h header (p\<lparr> px_gate := (px_gate p)(h := None),
        px_stashed := AList.delete h (px_stashed p) \<rparr>)"
      have "h \<in> dom (px_gate p)" using pinned by blast
      then have "h \<notin> dom (px_inflight p)" "h \<notin> dom (au_issue g)"
        using invs(3) run unfolding handles_inv_def by blast+
      then have id: "(px_inflight p)(h := None) = px_inflight p" "drop_read h (px_watch p) = px_watch p"
        using watch_okD(7) [OF invs(1)] by (auto simp: fun_upd_idem intro: drop_read_id)
      have "stash_inv (AList.delete h (px_stashed p))"
        using invs(5) AList_delete_subset [of h "px_stashed p"] by (auto simp: stash_inv_def)
      then have q: "proxy_inv X (q, settle {h} g)" "px_reply q = Rep_Running"
        using pinned run id by (auto simp: q_def to_kernel_def intro!: inv_deliver [OF inv run])
      have step: "flush_stashed (h # hs) p = flush_stashed hs q"
        using pinned Some by (simp add: gate_check_def q_def)
      obtain out where out: "px_to_kernel (flush_stashed hs q) = px_to_kernel q @ out"
        using flush_stashed_kernel by blast
      have "fst ` set (delivered p (flush_stashed hs q)) =
          {h} \<union> fst ` set (delivered q (flush_stashed hs q))"
        using out by (simp add: delivered_def q_def to_kernel_def)
      then show ?thesis
        using Cons.IH [OF q] unfolding step settle_settle by simp
    qed
  qed (use Cons.IH [OF inv run] stops in \<open>simp_all add: gate_check_def\<close>)
qed


lemma delivered_same [simp]: "delivered p p = []"
  by (simp add: delivered_def)

lemma reads_ended_self [simp]: "reads_ended p p = {}"
  by (simp add: reads_ended_def)

lemma nudge_inv:
  assumes inv: "proxy_inv X (p, g)"
  shows "proxy_inv X (proxy_step X d (NudgeStep hs) p, audit X d (NudgeStep hs) p g)"
proof (cases "px_reply p = Rep_Running \<and> 0 < px_nudges p \<and> distinct hs \<and>
    set hs = fst ` set (px_stashed p)")
  case True
  let ?q = "p\<lparr> px_nudges := px_nudges p - 1 \<rparr>"
  have q: "proxy_inv X (?q, g)"
    using inv by (rule proxy_inv_frame) (use proxy_invD(2) [OF inv] in simp_all)
  have "reads_ended p (flush_stashed hs ?q) = {}"
    by (rule reads_ended_same) (simp add: flush_stashed_watch)
  moreover have "delivered p (flush_stashed hs ?q) = delivered ?q (flush_stashed hs ?q)"
    by (simp add: delivered_def)
  ultimately show ?thesis
    using flush_inv [OF q, of hs] True by simp
qed (use inv in auto)

lemma eof_inv:
  assumes inv: "proxy_inv X (p, g)"
  shows "proxy_inv X (proxy_step X d (HostEof n) p, audit X d (HostEof n) p g)"
proof -
  have "delivered p (reply_eof n p) = []" "reads_ended p (reply_eof n p) = {}"
    by (simp_all add: reply_eof_def reply_fails_def delivered_def reads_ended_def)
  moreover have "proxy_inv X (reply_eof n p, g)"
    by (rule inv_reply_stops [OF inv]) (simp_all add: reply_eof_def reply_fails_def)
  ultimately show ?thesis
    using inv by simp
qed

lemma audited_step_inv:
  assumes "proxy_inv X s" and "proxy_enabled d a s"
  shows "proxy_inv X (audited_step X d a s)"
proof -
  obtain p g where s: "s = (p, g)" by force
  note inv = assms(1) [unfolded s]
  have d: "unat d + 69632 < 2 ^ 64" and ok: "kernel_ok a g"
    using assms(2) by (simp_all add: proxy_enabled_def region_fits_def s)
  show ?thesis
  proof (cases a)
    case (KernelRequest header payload)
    show ?thesis
    proof (cases "px_request p = RT_Idle")
      case True
      show ?thesis
      proof (cases "parse_request header")
        case (Inl e)
        have "proxy_inv X (request_fails e p, g)"
          using inv by (rule proxy_inv_frame) (simp_all add: request_fails_def)
        then show ?thesis
          using Inl True by (simp add: audited_step_def s KernelRequest request_proxy_def)
      next
        case (Inr rq)
        then show ?thesis
          using request_proxy_inv [OF inv d True Inr] ok True
          by (simp add: audited_step_def s KernelRequest kernel_ok_def)
      qed
    next
      case False
      then show ?thesis
        using inv by (simp add: audited_step_def s KernelRequest split: sum.splits)
    qed
  next
    case StreamStep
    then show ?thesis using request_stream_inv [OF inv] by (simp add: audited_step_def s)
  next
    case (PinStep outcome)
    then show ?thesis
      using pin_actor_inv [OF inv, of outcome d] inv
      by (cases "px_pin p = Pin_Running") (simp_all add: audited_step_def s)
  next
    case (HostReply header stream)
    then show ?thesis
      using gated_reply_inv [OF inv, of header stream d] inv by (simp add: audited_step_def s)
  next
    case (HostEof n)
    then show ?thesis using eof_inv [OF inv] by (simp add: audited_step_def s)
  next
    case (NudgeStep hs)
    then show ?thesis using nudge_inv [OF inv] by (simp add: audited_step_def s)
  qed
qed

interpretation px: guarded_steps "(proxy_new c, audit_new c)" "proxy_enabled d" "audited_step X d"
    "proxy_inv X" for X :: "'x Ext_scheme" and d c
  by unfold_locales (simp_all add: proxy_inv_new audited_step_inv)

subsection \<open>Watched reads cover the region\<close>

text \<open>While the reply pump runs, the payload of a watched read reaches the end of the region, so
  slicing the region out of it cannot panic.\<close>

definition reads_fit :: "Proxy \<Rightarrow> bool" where
  "reads_fit p \<longleftrightarrow> (px_reply p = Rep_Running \<longrightarrow>
     (\<forall>h po len. read_payload_offset h (px_watch p) = Some po \<longrightarrow> px_inflight p h = Some len \<longrightarrow>
        po + SB_REGION_LEN \<le> unat len))"

lemma reads_fit_frame:
  assumes "reads_fit p" and "px_reply p' = Rep_Running \<Longrightarrow> px_reply p = Rep_Running"
    and "rw_reads (px_watch p') = rw_reads (px_watch p)" and "px_inflight p' = px_inflight p"
  shows "reads_fit p'"
  using assms by (simp add: reads_fit_def read_payload_offset_def)

lemma request_reads_fit:
  assumes fit: "reads_fit p" and inv: "proxy_inv X (p, g)" and d: "unat d + 69632 < 2 ^ 64"
    and rq: "parse_request header = Inr rq" and fresh: "rq_handle rq \<notin> au_out g"
  shows "reads_fit (request_proxy True d header payload p)"
proof (cases "rq_cmd_type rq = NBD_CMD_READ \<and> px_reply p = Rep_Running")
  case True
  let ?h = "rq_handle rq" and ?o = "primary_sb_overlap (rq_offset rq) (rq_length rq) d"
  let ?p' = "request_proxy True d header payload p"
  have "?h \<notin> dom (au_issue g)"
    using proxy_invD(3) [OF inv] True fresh unfolding handles_inv_def by blast
  then have unwatched: "map_of (rw_reads (px_watch p)) ?h = None"
    using watch_okD(7) [OF proxy_invD(1) [OF inv]] by (auto simp: dom_def)
  have inflight: "px_inflight ?p' = (px_inflight p)(?h \<mapsto> rq_length rq)"
    using rq True by (simp add: request_proxy_def Let_def)
  have watch: "px_watch ?p' =
      (case ?o of Overlap_Full po \<Rightarrow> watch_read ?h po (px_watch p) | _ \<Rightarrow> px_watch p)"
    using rq True by (simp add: request_proxy_def Let_def split: SbOverlap.splits)
  have full: "po + SB_REGION_LEN \<le> unat (rq_length rq)" if "?o = Overlap_Full po" for po
    using that primary_sb_overlap_nat [OF d, of "rq_offset rq" "rq_length rq"]
    by (auto simp: SB_REGION_LEN_def split: if_splits)
  show ?thesis
    unfolding reads_fit_def read_payload_offset_def inflight watch
    using fit True unwatched full
    by (auto simp: reads_fit_def read_payload_offset_def watch_read_def update_conv' Let_def
        split: SbOverlap.splits if_splits)
next
  case False
  show ?thesis
  proof (cases "px_reply p = Rep_Running")
    case True
    with False rq show ?thesis
      by (intro reads_fit_frame [OF fit])
        (auto simp: request_proxy_def request_fails_def Let_def split: SbOverlap.splits)
  next
    case False
    have "px_reply (request_proxy True d header payload p) = px_reply p"
      by (auto simp: request_proxy_def request_fails_def Let_def split: sum.splits SbOverlap.splits)
    with False show ?thesis by (simp add: reads_fit_def)
  qed
qed

lemma reply_reads_fit:
  assumes fit: "reads_fit p" and inv: "proxy_inv X (p, g)" and run: "px_reply p = Rep_Running"
  shows "reads_fit (gated_reply_proxy X header stream p)"
  using inv run refl [of "gated_reply_proxy X header stream p"]
proof (cases rule: gated_reply_cases)
  case (closed h error)
  then show ?thesis
    using fit run
    by (auto simp: reads_fit_def read_payload_offset_def drop_read_def delete_conv' split: if_splits)
next
  case stopped
  then show ?thesis by (simp add: reads_fit_def)
next
  case (parked h)
  then show ?thesis by (intro reads_fit_frame [OF fit]) (simp_all add: parked)
qed

lemma step_reads_fit:
  assumes fit: "reads_fit p" and inv: "proxy_inv X (p, g)" and en: "proxy_enabled d a (p, g)"
  shows "reads_fit (proxy_step X d a p)"
proof (cases a)
  case (KernelRequest header payload)
  show ?thesis
  proof (cases "parse_request header")
    case (Inl e)
    then show ?thesis
      by (intro reads_fit_frame [OF fit])
        (simp_all add: KernelRequest request_proxy_def request_fails_def split: if_splits)
  next
    case (Inr rq)
    then show ?thesis
      using fit en request_reads_fit [OF fit inv _ Inr, of d payload]
      by (simp add: KernelRequest proxy_enabled_def region_fits_def kernel_ok_def)
  qed
next
  case StreamStep
  then show ?thesis
    by (intro reads_fit_frame [OF fit])
      (auto simp: request_stream_def request_fails_def begin_pending_def
        split: RequestTask.splits list.splits StreamEvent.splits sum.splits if_splits)
next
  case (PinStep outcome)
  then show ?thesis
    by (intro reads_fit_frame [OF fit])
      (auto simp: pin_actor_def watch_commit_def Let_def
        split: list.splits sum.splits option.splits if_splits)
next
  case (HostReply header stream)
  then show ?thesis using fit reply_reads_fit [OF fit inv] by simp
next
  case (HostEof n)
  then show ?thesis using fit by (auto simp: reads_fit_def reply_eof_def reply_fails_def)
next
  case (NudgeStep hs)
  then show ?thesis
    by (intro reads_fit_frame [OF fit]) (auto simp: flush_stashed_watch split: if_splits)
qed

interpretation fit: guarded_steps "(proxy_new c, audit_new c)" "proxy_enabled d" "audited_step X d"
    "\<lambda>s. proxy_inv X s \<and> reads_fit (fst s)" for X :: "'x Ext_scheme" and d c
proof
  show "proxy_inv X (proxy_new c, audit_new c) \<and> reads_fit (fst (proxy_new c, audit_new c))"
    using proxy_inv_new
    by (simp add: reads_fit_def read_payload_offset_def) (simp add: proxy_new_def)
next
  fix s a
  assume "proxy_inv X s \<and> reads_fit (fst s)" and "proxy_enabled d a s"
  then show "proxy_inv X (audited_step X d a s) \<and> reads_fit (fst (audited_step X d a s))"
    using audited_step_inv [of X s d a] step_reads_fit [of "fst s" X "snd s" d a]
    by (simp add: audited_step_def)
qed

subsection \<open>Properties\<close>

lemma flush_delivers:
  "(h, frame) \<in> set (delivered p (flush_stashed hs p)) \<Longrightarrow>
    px_gate p h = Some Pin_Ok \<and> (h, frame) \<in> set (px_stashed p)"
proof (induction hs arbitrary: p)
  case Nil
  then show ?case by simp
next
  case (Cons k hs)
  show ?case
  proof (cases "px_gate p k = Some Pin_Ok \<and> (\<exists>hd. map_of (px_stashed p) k = Some hd)")
    case True
    then obtain header where k: "px_gate p k = Some Pin_Ok" "map_of (px_stashed p) k = Some header"
      by blast
    define q where "q = to_kernel k header (p\<lparr> px_gate := (px_gate p)(k := None),
      px_stashed := AList.delete k (px_stashed p) \<rparr>)"
    have step: "flush_stashed (k # hs) p = flush_stashed hs q"
      using k by (simp add: gate_check_def q_def)
    obtain out where "px_to_kernel (flush_stashed hs q) = px_to_kernel q @ out"
      using flush_stashed_kernel by blast
    then have "delivered p (flush_stashed hs q) = (k, header) # delivered q (flush_stashed hs q)"
      by (simp add: delivered_def q_def to_kernel_def)
    then consider "(h, frame) = (k, header)" | "(h, frame) \<in> set (delivered q (flush_stashed hs q))"
      using Cons.prems unfolding step by auto
    then show ?thesis
    proof cases
      case 1
      then show ?thesis using k map_of_SomeD by fastforce
    next
      case 2
      then have "px_gate q h = Some Pin_Ok" "(h, frame) \<in> set (px_stashed q)"
        using Cons.IH by blast+
      then show ?thesis
        using AList_delete_subset [of k "px_stashed p"]
        by (auto simp: q_def to_kernel_def split: if_splits)
    qed
  next
    case False
    then show ?thesis
      using Cons.prems Cons.IH [of p]
      by (auto simp: gate_check_def reply_fails_def delivered_def
          split: option.splits PinStatus.splits)
  qed
qed

lemma request_side_delivers_nothing:
  "delivered p (proxy_step X d (KernelRequest header payload) p) = []"
  "delivered p (proxy_step X d StreamStep p) = []"
  "delivered p (proxy_step X d (PinStep outcome) p) = []"
  "delivered p (proxy_step X d (HostEof n) p) = []"
proof -
  have "px_to_kernel (request_proxy True d header payload p) = px_to_kernel p"
    by (auto simp: request_proxy_def request_fails_def Let_def split: sum.splits SbOverlap.splits)
  then show "delivered p (proxy_step X d (KernelRequest header payload) p) = []"
    by (simp add: delivered_def)
  show "delivered p (proxy_step X d StreamStep p) = []"
    by (auto simp: delivered_def request_stream_def request_fails_def
        split: RequestTask.splits list.splits StreamEvent.splits sum.splits)
  show "delivered p (proxy_step X d (PinStep outcome) p) = []"
    by (simp add: delivered_def pin_actor_def split: list.splits sum.splits)
  show "delivered p (proxy_step X d (HostEof n) p) = []"
    by (simp add: delivered_def reply_eof_def reply_fails_def)
qed

lemma delivered_gated:
  assumes inv: "proxy_inv X (p, g)" and h: "au_open g h = Some e"
    and del: "(h, frame) \<in> set (delivered p (proxy_step X d a p))"
  shows "px_gate p h = Some Pin_Ok \<and> parse_reply frame = Inr (0, h)"
proof -
  note invs = proxy_invD [OF inv]
  have "(\<exists>header stream. a = HostReply header stream) \<or> (\<exists>hs. a = NudgeStep hs)"
    using del by (cases a) (simp_all add: request_side_delivers_nothing del: proxy_step.simps)
  then show ?thesis
  proof (elim disjE exE)
    fix header stream assume a: "a = HostReply header stream"
    have run: "px_reply p = Rep_Running"
      using del by (simp add: a split: if_splits)
    let ?p' = "gated_reply_proxy X header stream p"
    have del': "(h, frame) \<in> set (delivered p ?p')"
      using del run by (simp add: a)
    have gate: "h \<in> dom (px_gate p)" and inflight: "px_inflight p h = None"
      using invs(3) run h unfolding handles_inv_def by blast+
    from inv run refl [of ?p'] show ?thesis
    proof (cases rule: gated_reply_cases)
      case (closed k error)
      have k: "k = h" using closed(10) del' by force
      then have ok: "px_gate p h = Some Pin_Ok" "error = 0"
        using closed(2) gate by auto
      then have "delivered p ?p' = [(h, header)]"
        using closed(1) inflight k
        by (simp add: gated_reply_proxy_def gate_check_def to_kernel_def delivered_def)
      then show ?thesis using del' closed(1) ok k by simp
    next
      case stopped
      then show ?thesis using del' by (simp add: delivered_def)
    next
      case (parked k)
      then show ?thesis using del' by (simp add: delivered_def)
    qed
  next
    fix hs assume a: "a = NudgeStep hs"
    let ?q = "p\<lparr> px_nudges := px_nudges p - 1 \<rparr>"
    have "(h, frame) \<in> set (delivered ?q (flush_stashed hs ?q))"
      using del by (simp add: a delivered_def split: if_splits)
    then show ?thesis
      using flush_delivers [of h frame ?q hs] invs(5) by (auto simp: stash_inv_def)
  qed
qed

lemma acked_is_pinned:
  assumes inv: "proxy_inv X (p, g)" and "au_open g h = Some (com, ix)"
    and "(h, frame) \<in> set (delivered p (proxy_step X d a p))"
  shows "\<exists>i. ix = Some i \<and> 0 < i \<and> i \<le> au_pinned g \<and> au_writes g ! i = com \<and>
    parse_reply frame = Inr (0, h)"
proof -
  note ok = delivered_gated [OF assms]
  then obtain c' i where "au_open g h = Some (c', Some i)" "i \<le> au_pinned g"
    using proxy_invD(4) [OF inv] by (auto simp: open_inv_def)
  with ok assms(2) proxy_invD(4) [OF inv] show ?thesis
    by (auto simp: open_inv_def)
qed

text \<open>C3. A superblock write is acknowledged only after its pin. Whatever the storage host does and
  however the tasks interleave, a reply reaches the kernel for an outstanding superblock write
  only when the commitment of exactly the region bytes that write carried has been durably
  pinned, as the current pin or an earlier one of this session, and then the reply reports
  success.\<close>

theorem superblock_ack_follows_pin:
  assumes "proxy_reachable X d c p g"
    and "au_open g h = Some (com, ix)"
    and "(h, frame) \<in> set (delivered p (proxy_step X d a p))"
  shows "\<exists>i. ix = Some i \<and> 0 < i \<and> i \<le> au_pinned g \<and> au_writes g ! i = com \<and>
    parse_reply frame = Inr (0, h)"
  using acked_is_pinned [OF px.reachable_inv [OF assms(1)] assms(2,3)] .

text \<open>C4. Reads of the superblock are never stale and never falsely refused. A reply to a read that
  covers the superblock region is forwarded exactly when the region it carries is a content the
  region took at or after the state that was pinned when the read was issued; otherwise nothing is
  forwarded and the reply pump stops.\<close>

theorem superblock_reads_are_fresh:
  assumes "proxy_reachable X d c p g" and "px_reply p = Rep_Running"
    and "parse_reply header = Inr (0, h)" and "au_issue g h = Some a"
    and "px_inflight p h = Some len" and "read_payload_offset h (px_watch p) = Some po"
    and "unat len \<le> length stream"
  shows "let region = take SB_REGION_LEN (drop po (take (unat len) stream));
             fresh = (\<exists>i. a \<le> i \<and> i < length (au_writes g) \<and> au_writes g ! i = sha256 X region);
             p' = proxy_step X d (HostReply header stream) p
         in delivered p p' = (if fresh then [(h, header @ take (unat len) stream)] else []) \<and>
            px_reply p' = (if fresh then Rep_Running else Rep_Failed StaleRegionRead)"
proof -
  have inv: "proxy_inv X (p, g)"
    using px.reachable_inv [OF assms(1)] .
  let ?region = "take SB_REGION_LEN (drop po (take (unat len) stream))"
  define fresh where
    "fresh = (\<exists>i. a \<le> i \<and> i < length (au_writes g) \<and> au_writes g ! i = sha256 X ?region)"
  have "verify_read X h ?region (px_watch p) = (fresh, drop_read h (px_watch p))"
    unfolding fresh_def by (rule verify_read_exact [OF proxy_invD(1) [OF inv] assms(4)])
  moreover have "po + SB_REGION_LEN \<le> unat len"
    using fit.reachable_inv [OF assms(1)] assms(2,5,6) by (simp add: reads_fit_def)
  ultimately show ?thesis
    unfolding Let_def fresh_def [symmetric] using assms(2,3,5-7)
    by (simp add: gated_reply_proxy_def to_kernel_def reply_fails_def delivered_def Let_def)
qed

text \<open>C30. Every mutation of the superblock is gated. A write, trim or write-zeroes request that
  touches a byte of the superblock region either stops the request task with nothing forwarded,
  or is a write that covers the whole region: then its handle is gated before its header is
  forwarded, and the task goes on to register the region's new content.\<close>

theorem superblock_mutations_are_gated:
  assumes "region_fits d" and "parse_request header = Inr rq" and "rq_length rq \<noteq> 0"
    and "rq_cmd_type rq \<in> {NBD_CMD_WRITE, NBD_CMD_TRIM, NBD_CMD_WRITE_ZEROES}"
    and "request_range (rq_offset rq) (rq_length rq) \<inter> sb_region d \<noteq> {}"
    and "length payload = unat (rq_length rq)"
  shows "let p' = request_proxy True d header payload p; h = rq_handle rq in
    (px_to_host p' = px_to_host p \<and> (\<exists>e. px_request p' = RT_Failed e)) \<or>
    (rq_cmd_type rq = NBD_CMD_WRITE \<and> sb_region d \<subseteq> request_range (rq_offset rq) (rq_length rq) \<and>
     px_to_host p' = px_to_host p @ [header] \<and> px_gate p' h = Some Pin_Pending \<and>
     (\<exists>evs region. px_request p' = RT_Streaming h evs (Inr region) \<and> windows evs = [region] \<and>
        region = take SB_REGION_LEN (drop (unat d + 65536 - unat (rq_offset rq)) payload)))"
proof -
  let ?o = "primary_sb_overlap (rq_offset rq) (rq_length rq) d"
  have d: "unat d + 69632 < 2 ^ 64" using assms(1) by (simp add: region_fits_def)
  note overlap = primary_sb_overlap_nat [OF d, of "rq_offset rq" "rq_length rq"]
  have touch: "\<not> (unat (rq_offset rq) + unat (rq_length rq) \<le> unat d + 65536 \<or>
      unat d + 69632 \<le> unat (rq_offset rq))"
    using assms(5) by (auto simp: request_range_def sb_region_def)
  show ?thesis
  proof (cases ?o)
    case Overlap_None
    then show ?thesis using overlap touch by (simp split: if_splits)
  next
    case Overlap_Partial
    then show ?thesis
      using assms(2,4) by (auto simp: request_proxy_def request_fails_def Let_def nbd_cmds)
  next
    case (Overlap_Full po)
    have po: "po = unat d + 65536 - unat (rq_offset rq)" "unat (rq_offset rq) \<le> unat d + 65536"
        "unat d + 69632 \<le> unat (rq_offset rq) + unat (rq_length rq)"
      using Overlap_Full overlap by (auto split: if_splits)
    have len: "po + SB_REGION_LEN \<le> unat (rq_length rq)" "0 < SB_REGION_LEN"
        "unat (rq_length rq) \<le> length payload"
      using po assms(6) by (simp_all add: SB_REGION_LEN_def)
    have sub: "sb_region d \<subseteq> request_range (rq_offset rq) (rq_length rq)"
      using po by (auto simp: request_range_def sb_region_def)
    obtain evs1 evs2 where ev: "forward_bytes_extract payload (unat (rq_length rq)) po SB_REGION_LEN =
        (evs1 @ WindowComplete (take SB_REGION_LEN (drop po payload)) # evs2,
         Inr (take SB_REGION_LEN (drop po payload)))" "windows (evs1 @ evs2) = []"
      by (rule forward_bytes_extract_events [OF len])
    show ?thesis
      using assms(2,4) Overlap_Full ev sub po(1)
      by (auto simp: request_proxy_def request_fails_def gate_begin_def Let_def nbd_cmds)
  qed
qed

text \<open>Without a superblock in play the gated pump is the plain pump: a reply whose handle is
  neither gated nor watched has exactly the effect it has without the synchronizer wiring.\<close>

theorem ungated_replies_unchanged:
  assumes "\<forall>error h. parse_reply header = Inr (error, h) \<longrightarrow>
    px_gate p h = None \<and> read_payload_offset h (px_watch p) = None"
  shows "gated_reply_proxy X header stream p = reply_proxy header stream p"
proof (cases "parse_reply header")
  case (Inl e)
  then show ?thesis by (simp add: gated_reply_proxy_def reply_proxy_def)
next
  case (Inr eh)
  then obtain error h where r: "parse_reply header = Inr (error, h)" by (cases eh) auto
  have "px_inflight p h = None \<Longrightarrow> p\<lparr> px_inflight := (px_inflight p)(h := None) \<rparr> = p"
    by (simp add: fun_upd_idem)
  with r assms show ?thesis
    by (auto simp: gated_reply_proxy_def reply_proxy_def gate_check_def forward_bytes.simps [of _ 0] Let_def
        split: option.splits)
qed


subsection \<open>Concrete instances\<close>

text \<open>A volume with data offset 0, a hash that keeps the first byte, one write of the superblock
  block and one read of it.\<close>

definition ex_dev :: Ext where
  "ex_dev = \<lparr> sha256 = take 1, hex_encode = (\<lambda>_. []), hex_decode = (\<lambda>_. None),
     p256_from_sec1 = (\<lambda>_. True), p256_sig_from_slice = (\<lambda>_. True), p256_verify = (\<lambda>_ _ _. True) \<rparr>"

definition ex_block :: "byte \<Rightarrow> bytes" where
  "ex_block b = replicate 4096 b"

definition ex_request :: "byte \<Rightarrow> byte \<Rightarrow> bytes" where
  "ex_request cmd h = [0x25, 0x60, 0x95, 0x13, 0, 0, 0, cmd, 0, 0, 0, 0, 0, 0, 0, h,
     0, 0, 0, 0, 0, 1, 0, 0, 0, 0, 0x10, 0]"

definition ex_reply :: "byte \<Rightarrow> bytes" where
  "ex_reply h = [0x67, 0x44, 0x66, 0x98, 0, 0, 0, 0, 0, 0, 0, 0, 0, 0, 0, h]"

lemma ex_request_parse:
  "parse_request (ex_request 1 7) = Inr \<lparr> rq_cmd_type = NBD_CMD_WRITE, rq_handle = 7,
     rq_offset = 0x10000, rq_length = 4096 \<rparr>"
  "parse_request (ex_request 0 9) = Inr \<lparr> rq_cmd_type = NBD_CMD_READ, rq_handle = 9,
     rq_offset = 0x10000, rq_length = 4096 \<rparr>"
  by (simp_all add: parse_request_def ex_request_def slice_def from_be_bytes_def NBD_REQUEST_MAGIC_def nbd_cmds)

lemma ex_reply_parse:
  "parse_reply (ex_reply 7) = Inr (0, 7)" "parse_reply (ex_reply 9) = Inr (0, 9)"
  by (simp_all add: parse_reply_def ex_reply_def slice_def from_be_bytes_def NBD_SIMPLE_REPLY_MAGIC_def)

lemma ex_overlap: "primary_sb_overlap 0x10000 4096 0 = Overlap_Full 0"
  by (simp add: primary_sb_overlap_def SB_PRIMARY_FS_OFFSET_def SB_REGION_LEN_def saturating_add_def Let_def)

lemma ex_extract: "forward_bytes_extract (ex_block b) 4096 0 SB_REGION_LEN =
    ([WindowComplete (ex_block b), Wrote (ex_block b)], Inr (ex_block b))"
  by (simp add: forward_bytes_extract_def extract_loop.simps ex_block_def CHUNK_LEN_def SB_REGION_LEN_def
      extract_chunk_def copy_into_def Let_def)

lemma ex_commitment: "commitment_of_region ex_dev (ex_block b) = [b]"
  by (simp add: commitment_of_region_def ex_dev_def ex_block_def take_replicate)

definition ex_s0 :: "Proxy \<times> Audit" where
  "ex_s0 = (proxy_new [0], audit_new [0])"

definition ex_s1 :: "Proxy \<times> Audit" where
  "ex_s1 = audited_step ex_dev 0 (KernelRequest (ex_request 0 9) []) ex_s0"

definition ex_s2 :: "Proxy \<times> Audit" where
  "ex_s2 = audited_step ex_dev 0 (KernelRequest (ex_request 1 7) (ex_block 1)) ex_s1"

definition ex_s3 :: "Proxy \<times> Audit" where
  "ex_s3 = fold (audited_step ex_dev 0) [StreamStep, StreamStep, StreamStep, PinStep (Inr ())] ex_s2"


lemma ex_s1_eval:
  "fst ex_s1 = (proxy_new [0])\<lparr> px_inflight := [9 \<mapsto> 4096],
     px_watch := watch_read 9 0 (region_watch_new [0]), px_to_host := [ex_request 0 9] \<rparr>"
  "snd ex_s1 = (audit_new [0])\<lparr> au_out := {9}, au_issue := [9 \<mapsto> 0] \<rparr>"
  by (simp_all add: ex_s1_def ex_s0_def audited_step_def proxy_new_def request_proxy_def
      ex_request_parse audit_request_def ex_overlap forward_frame_def forward_bytes.simps [of _ 0]
      audit_new_def Let_def)

lemma ex_s2_eval:
  "fst ex_s2 = (fst ex_s1)\<lparr> px_gate := [7 \<mapsto> Pin_Pending],
     px_to_host := [ex_request 0 9, ex_request 1 7],
     px_request := RT_Streaming 7 [WindowComplete (ex_block 1), Wrote (ex_block 1)] (Inr (ex_block 1)) \<rparr>"
  "snd ex_s2 = (snd ex_s1)\<lparr> au_out := {7, 9}, au_open := [7 \<mapsto> ([1], None)] \<rparr>"
proof -
  have "take SB_REGION_LEN (ex_block 1) = ex_block 1"
    by (simp add: SB_REGION_LEN_def ex_block_def take_replicate)
  then show "fst ex_s2 = (fst ex_s1)\<lparr> px_gate := [7 \<mapsto> Pin_Pending],
      px_to_host := [ex_request 0 9, ex_request 1 7],
      px_request := RT_Streaming 7 [WindowComplete (ex_block 1), Wrote (ex_block 1)] (Inr (ex_block 1)) \<rparr>"
    "snd ex_s2 = (snd ex_s1)\<lparr> au_out := {7, 9}, au_open := [7 \<mapsto> ([1], None)] \<rparr>"
    by (simp_all add: ex_s2_def audited_step_def ex_s1_eval proxy_new_def request_proxy_def pin_gate_new_def
        ex_request_parse audit_request_def ex_overlap ex_extract gate_begin_def audit_new_def nbd_cmds
        ex_commitment Let_def)
qed

lemma ex_s3_eval:
  "fst ex_s3 = (fst ex_s2)\<lparr> px_gate := [7 \<mapsto> Pin_Ok], px_request := RT_Idle,
     px_watch := watch_commit 7 (begin_pending 7 [1] (px_watch (fst ex_s1))),
     px_to_host := [ex_request 0 9, ex_request 1 7, ex_block 1], px_nudges := 1 \<rparr>"
  "snd ex_s3 = (snd ex_s2)\<lparr> au_open := [7 \<mapsto> ([1], Some 1)], au_writes := [[0], [1]], au_pinned := 1 \<rparr>"
  by (simp_all add: ex_s3_def audited_step_def ex_s2_eval ex_s1_eval proxy_new_def request_stream_def
      audit_stream_def ex_commitment audit_new_def pin_actor_def gate_finish_ok_def Let_def)

lemmas ex_evals = ex_s3_eval ex_s2_eval ex_s1_eval proxy_new_def audit_new_def

lemma ex_fits: "region_fits 0"
  by (simp add: region_fits_def)

lemma proxy_reachable_step:
  assumes "proxy_reachable X d c (fst s) (snd s)" and "proxy_enabled d a s"
  shows "proxy_reachable X d c (fst (audited_step X d a s)) (snd (audited_step X d a s))"
  using reach_step [where init = "(proxy_new c, audit_new c)" and enabled = "proxy_enabled d"
      and step = "audited_step X d" and s = s and a = a] assms by simp

lemma ex_s1_reachable: "proxy_reachable ex_dev 0 [0] (fst ex_s1) (snd ex_s1)"
  unfolding ex_s1_def
  by (rule proxy_reachable_step)
    (simp_all add: ex_s0_def reach_init proxy_enabled_def ex_fits kernel_ok_def ex_request_parse
      audit_new_def nbd_cmds)

lemma ex_s2_reachable: "proxy_reachable ex_dev 0 [0] (fst ex_s2) (snd ex_s2)"
  unfolding ex_s2_def
  by (rule proxy_reachable_step [OF ex_s1_reachable])
    (simp add: proxy_enabled_def ex_fits kernel_ok_def ex_request_parse ex_evals ex_block_def)

lemma ex_s3_reachable: "proxy_reachable ex_dev 0 [0] (fst ex_s3) (snd ex_s3)"
proof -
  have en: "proxy_enabled 0 StreamStep s" "proxy_enabled 0 (PinStep (Inr ())) s" for s
    by (simp_all add: proxy_enabled_def ex_fits kernel_ok_def)
  show ?thesis
    unfolding ex_s3_def fold_simps
    by (intro proxy_reachable_step ex_s2_reachable en)
qed

theorem superblock_ack_follows_pin_witness:
  "au_open (snd ex_s3) 7 = Some ([1], Some 1) \<and>
   delivered (fst ex_s3) (proxy_step ex_dev 0 (HostReply (ex_reply 7) []) (fst ex_s3)) = [(7, ex_reply 7)] \<and>
   1 \<le> au_pinned (snd ex_s3) \<and> au_writes (snd ex_s3) ! 1 = [1]"
proof -
  have o: "au_open (snd ex_s3) 7 = Some ([1], Some 1)"
    by (simp add: ex_evals)
  have d: "delivered (fst ex_s3) (proxy_step ex_dev 0 (HostReply (ex_reply 7) []) (fst ex_s3)) =
      [(7, ex_reply 7)]"
    by (simp add: ex_evals gated_reply_proxy_def ex_reply_parse gate_check_def to_kernel_def delivered_def)
  have "(7, ex_reply 7) \<in>
      set (delivered (fst ex_s3) (proxy_step ex_dev 0 (HostReply (ex_reply 7) []) (fst ex_s3)))"
    by (simp only: d) simp
  from superblock_ack_follows_pin [OF ex_s3_reachable o this] o d show ?thesis by auto
qed

theorem superblock_reads_are_fresh_witness:
  "delivered (fst ex_s3) (proxy_step ex_dev 0 (HostReply (ex_reply 9) (ex_block 1)) (fst ex_s3)) =
     [(9, ex_reply 9 @ ex_block 1)] \<and>
   px_reply (proxy_step ex_dev 0 (HostReply (ex_reply 9) (ex_block 2)) (fst ex_s3)) =
     Rep_Failed StaleRegionRead"
proof -
  have pre: "px_reply (fst ex_s3) = Rep_Running" "au_issue (snd ex_s3) 9 = Some 0"
      "px_inflight (fst ex_s3) 9 = Some 4096" "read_payload_offset 9 (px_watch (fst ex_s3)) = Some 0"
    by (simp_all add: ex_evals read_payload_offset_def watch_commit_def begin_pending_def watch_read_def
        region_watch_new_def Let_def)
  have W: "au_writes (snd ex_s3) = [[0], [1]]"
    by (simp add: ex_evals)
  have blk: "take SB_REGION_LEN (drop 0 (take (unat (4096 :: u32)) (ex_block b))) = ex_block b"
      "sha256 ex_dev (ex_block b) = [b]" "unat (4096 :: u32) \<le> length (ex_block b)" for b
    by (simp_all add: SB_REGION_LEN_def ex_block_def take_replicate ex_dev_def)
  note fresh = superblock_reads_are_fresh [OF ex_s3_reachable pre(1) ex_reply_parse(2) pre(2-4) blk(3)]
  have "\<exists>i. 0 \<le> i \<and> i < length [[0], [1 :: byte]] \<and> [[0], [1 :: byte]] ! i = [1]"
    by (rule exI [of _ 1]) simp
  moreover have "\<not> (\<exists>i. 0 \<le> i \<and> i < length [[0], [1 :: byte]] \<and> [[0], [1 :: byte]] ! i = [2])"
    by (auto simp: nth_Cons split: nat.splits)
  ultimately show ?thesis
    using fresh [of 1] fresh [of 2] unfolding Let_def blk W by (simp add: ex_block_def take_replicate)
qed

theorem superblock_mutations_are_gated_witness:
  "px_gate (request_proxy True 0 (ex_request 1 7) (ex_block 1) (proxy_new [0])) 7 = Some Pin_Pending \<and>
   sb_region 0 \<subseteq> request_range 0x10000 4096"
proof -
  have "request_range 0x10000 4096 \<inter> sb_region 0 \<noteq> {}"
    by (simp add: request_range_def sb_region_def)
  moreover have "px_to_host (request_proxy True 0 (ex_request 1 7) (ex_block 1) (proxy_new [0])) \<noteq> []"
    by (simp add: request_proxy_def ex_request_parse ex_overlap ex_extract nbd_cmds Let_def)
  ultimately show ?thesis
    using superblock_mutations_are_gated [OF ex_fits ex_request_parse(1), of "ex_block 1" "proxy_new [0]"]
    by (simp add: ex_block_def Let_def proxy_new_def)
qed

theorem ungated_replies_unchanged_witness:
  "gated_reply_proxy ex_dev (ex_reply 7) [] (proxy_new [0]) = reply_proxy (ex_reply 7) [] (proxy_new [0])"
  by (rule ungated_replies_unchanged)
    (simp add: proxy_new_def pin_gate_new_def read_payload_offset_def region_watch_new_def)

end
