(* ===== verification/Storage_Client.thy ===== *)
theory Storage_Client
  imports Boot_Session Proxy_Safety
begin

text \<open>
  The storage client as a whole: \<open>boot\<close> hands its result to the device proxy and to the pinner, the
  pin actor runs the retry policy against the oracle's node over a lossy link, the other tasks run
  as before, and other enclaves use the same node in between. An acknowledged superblock write then
  survives a reboot on any volume the host presents.
\<close>

record Device =
  dv_proxy :: Proxy
  dv_audit :: Audit
  dv_pinner :: "Net SyncPinner"

datatype DeviceAction =
    Dev_Io ProxyAction
  | Dev_Pin nat "Net \<Rightarrow> Net \<Rightarrow> nat"
  | Dev_Other PcrKey Request

fun give_up_text :: "PinGiveUp \<Rightarrow> string" where
  "give_up_text Gave_Fatal = ''fatal''"
| "give_up_text Gave_Unavailable = ''unavailable''"
| "give_up_text Gave_No_Reconnector = ''no reconnector''"
| "give_up_text Gave_Reconnects = ''reconnects exhausted''"

text \<open>\<open>run\<close> after a successful boot: the watch starts at the verified commitment, the pinner at the
  verified version.\<close>

definition device_new :: "BootResult \<Rightarrow> (Net \<Rightarrow> PcrKey option \<times> Net) \<Rightarrow> Net \<Rightarrow> Device" where
  "device_new br reconnect net =
     \<lparr> dv_proxy = proxy_new (br_commitment br), dv_audit = audit_new (br_commitment br),
       dv_pinner = into_pinner reconnect (ss_key (br_session br)) (br_version br) net \<rparr>"

definition device_audited :: "'x Ext_scheme \<Rightarrow> u64 \<Rightarrow> ProxyAction \<Rightarrow> Device \<Rightarrow> Device" where
  "device_audited X d a s =
     (case audited_step X d a (dv_proxy s, dv_audit s) of
        (p, g) \<Rightarrow> s\<lparr> dv_proxy := p, dv_audit := g \<rparr>)"

text \<open>The pin actor's turn: the oldest job is pinned, and what the retry policy answers is the outcome
  the gate and the watch see.\<close>

definition device_pin ::
    "'x ChainExt_scheme \<Rightarrow> u64 \<Rightarrow> nat \<Rightarrow> (Net \<Rightarrow> Net \<Rightarrow> nat) \<Rightarrow> Device \<Rightarrow> Device" where
  "device_pin X d now elapsed s =
     (let sp = dv_pinner s in
      case px_jobs (dv_proxy s) of
        [] \<Rightarrow> s
      | job # _ \<Rightarrow>
          if px_pin (dv_proxy s) \<noteq> Pin_Running then s
          else (case pin_with_retries (sync_pinner (client_oracle (net_rpc X (sp_key sp))) elapsed)
                       (pj_commitment job) now sp of
                  (r, sp') \<Rightarrow>
                    device_audited X d (PinStep (map_err give_up_text r)) (s\<lparr> dv_pinner := sp' \<rparr>)))"

definition device_other :: "'x ChainExt_scheme \<Rightarrow> PcrKey \<Rightarrow> Request \<Rightarrow> Device \<Rightarrow> Device" where
  "device_other X session req s =
     (let sp = dv_pinner s; net = sp_client sp;
          node = snd (node_handle_request X (net_clock net) session req (net_node net))
      in s\<lparr> dv_pinner := sp\<lparr> sp_client := net\<lparr> net_node := node \<rparr> \<rparr> \<rparr>)"

text \<open>What can happen: the kernel keeps its contract, the pin actor acts through the pinner only, and
  while this image runs no successor takes its pin over.\<close>

fun device_enabled :: "'x ChainExt_scheme \<Rightarrow> u64 \<Rightarrow> DeviceAction \<Rightarrow> Device \<Rightarrow> bool" where
  "device_enabled X d (Dev_Io a) s \<longleftrightarrow>
     proxy_enabled d a (dv_proxy s, dv_audit s) \<and> (\<forall>outcome. a \<noteq> PinStep outcome)"
| "device_enabled X d (Dev_Pin now elapsed) s \<longleftrightarrow> region_fits d"
| "device_enabled X d (Dev_Other session req) s \<longleftrightarrow>
     session \<noteq> sp_key (dv_pinner s) \<and> \<not> retires X req (sp_key (dv_pinner s))"

fun device_act :: "'x ChainExt_scheme \<Rightarrow> u64 \<Rightarrow> DeviceAction \<Rightarrow> Device \<Rightarrow> Device" where
  "device_act X d (Dev_Io a) s = device_audited X d a s"
| "device_act X d (Dev_Pin now elapsed) s = device_pin X d now elapsed s"
| "device_act X d (Dev_Other session req) s = device_other X session req s"

definition device_step :: "'x ChainExt_scheme \<Rightarrow> u64 \<Rightarrow> DeviceAction \<Rightarrow> Device \<Rightarrow> Device" where
  "device_step X d a s = (if device_enabled X d a s then device_act X d a s else s)"

subsection \<open>The oracle is never behind the acknowledged writes\<close>

definition keeps_node :: "Net SyncPinner \<Rightarrow> bool" where
  "keeps_node sp \<longleftrightarrow> (\<forall>reconnect w. sp_reconnect sp = Some reconnect \<longrightarrow> net_node (snd (reconnect w)) = net_node w)"

definition pin_tracks :: "Device \<Rightarrow> bool" where
  "pin_tracks s \<longleftrightarrow>
     (let sp = dv_pinner s; pin = net_pin (sp_key sp) (sp_client sp); g = dv_audit s in
      (\<exists>i v. au_pinned g \<le> i \<and> i < length (au_writes g) \<and> pin = Some (au_writes g ! i, v)) \<and>
      (px_pin (dv_proxy s) = Pin_Running \<longrightarrow> pin = Some (au_writes g ! au_pinned g, sp_expected sp)))"

definition device_inv :: "'x ChainExt_scheme \<Rightarrow> Device \<Rightarrow> bool" where
  "device_inv X s \<longleftrightarrow> proxy_inv X (dv_proxy s, dv_audit s) \<and> keeps_node (dv_pinner s) \<and> pin_tracks s"

definition device_leq :: "Device \<Rightarrow> Device \<Rightarrow> bool" where
  "device_leq s t \<longleftrightarrow>
     au_pinned (dv_audit s) \<le> au_pinned (dv_audit t) \<and>
     (\<exists>ws. au_writes (dv_audit t) = au_writes (dv_audit s) @ ws) \<and>
     sp_key (dv_pinner t) = sp_key (dv_pinner s)"

lemma px_pin_frame [simp]:
  "px_pin (request_fails e p) = px_pin p" "px_pin (reply_fails e p) = px_pin p"
  "px_pin (to_kernel h frame p) = px_pin p" "px_pin (forward_frame header payload n p) = px_pin p"
  by (simp_all add: request_fails_def reply_fails_def to_kernel_def forward_frame_def Let_def)

lemma px_pin_request: "px_pin (request_proxy sync d header payload p) = px_pin p"
  by (auto simp: request_proxy_def Let_def split: sum.splits SbOverlap.splits)

lemma px_pin_stream: "px_pin (request_stream X p) = px_pin p"
  by (auto simp: request_stream_def Let_def split: RequestTask.splits list.splits StreamEvent.splits sum.splits)

lemma px_pin_reply: "px_pin (gated_reply_proxy X header stream p) = px_pin p"
  by (auto simp: gated_reply_proxy_def Let_def split: sum.splits option.splits prod.splits GateCheck.splits)

lemma px_pin_flush: "px_pin (flush_stashed hs p) = px_pin p"
  by (induction hs p rule: flush_stashed.induct)
    (auto split: prod.splits GateCheck.splits option.splits)

lemma audit_request_frame [simp]:
  "au_pinned (audit_request X d rq payload g) = au_pinned g"
  "au_writes (audit_request X d rq payload g) = au_writes g"
  by (simp_all add: audit_request_def Let_def split: SbOverlap.splits)

lemma audit_stream_frame:
  "au_pinned (audit_stream X p g) = au_pinned g \<and> (\<exists>ws. au_writes (audit_stream X p g) = au_writes g @ ws)"
  by (auto simp: audit_stream_def Let_def split: RequestTask.splits list.splits StreamEvent.splits sum.splits)

lemma audit_frame:
  assumes "\<forall>outcome. a \<noteq> PinStep outcome"
  shows "au_pinned (audit X d a p g) = au_pinned g" "\<exists>ws. au_writes (audit X d a p g) = au_writes g @ ws"
    "px_pin (proxy_step X d a p) = px_pin p"
  using assms audit_stream_frame [of X p g]
  by (cases a; auto simp: settle_def Let_def reply_eof_def px_pin_request px_pin_stream px_pin_reply px_pin_flush
      split: sum.splits)+

lemma head_job_write:
  assumes "proxy_inv X (p, g)" and "px_jobs p = job # jobs"
  shows "Suc (au_pinned g) < length (au_writes g) \<and> au_writes g ! Suc (au_pinned g) = pj_commitment job"
proof -
  have "unpinned p g ! 0 = (pj_handle job, pj_commitment job)" "0 < length (unpinned p g)"
    using assms(2) by (simp_all add: unpinned_def)
  with proxy_invD(4) [OF assms(1)] have "au_open g (pj_handle job) = Some (pj_commitment job, Some (Suc (au_pinned g)))"
    unfolding open_inv_def by (metis add.right_neutral fst_conv snd_conv)
  with proxy_invD(4) [OF assms(1)] show ?thesis
    unfolding open_inv_def by blast
qed

lemma device_audited_inv:
  assumes inv: "proxy_inv X (dv_proxy s, dv_audit s)" and en: "proxy_enabled d a (dv_proxy s, dv_audit s)"
  shows "proxy_inv X (dv_proxy (device_audited X d a s), dv_audit (device_audited X d a s))"
  using audited_step_inv [OF inv en] by (auto simp: device_audited_def split: prod.splits)

lemma other_session_pin:
  assumes "session \<noteq> key" "\<not> retires X req key"
  shows "node_pin key (snd (node_handle_request X now session req node)) = node_pin key node"
proof -
  obtain resp node' where n: "node_handle_request X now session req node = (resp, node')" by force
  from other_session_get [OF n, of key] assms show ?thesis by (simp add: n node_pin_def)
qed

lemma device_io_keeps:
  assumes inv: "device_inv X s" and en: "device_enabled X d (Dev_Io a) s"
  shows "device_inv X (device_audited X d a s) \<and> device_leq s (device_audited X d a s)"
proof -
  have np: "\<forall>outcome. a \<noteq> PinStep outcome" using en by simp
  note fr = audit_frame(1,2) [OF np, of X d "dv_proxy s" "dv_audit s"]
    audit_frame(3) [OF np, of X d "dv_proxy s"]
  obtain ws where ws: "au_writes (audit X d a (dv_proxy s) (dv_audit s)) = au_writes (dv_audit s) @ ws"
    using fr(2) by blast
  have t: "dv_proxy (device_audited X d a s) = proxy_step X d a (dv_proxy s)"
      "dv_audit (device_audited X d a s) = audit X d a (dv_proxy s) (dv_audit s)"
      "dv_pinner (device_audited X d a s) = dv_pinner s"
    by (simp_all add: device_audited_def audited_step_def)
  obtain i v where i: "au_pinned (dv_audit s) \<le> i" "i < length (au_writes (dv_audit s))"
      "net_pin (sp_key (dv_pinner s)) (sp_client (dv_pinner s)) = Some (au_writes (dv_audit s) ! i, v)"
    using inv by (auto simp: device_inv_def pin_tracks_def Let_def)
  have "pin_tracks (device_audited X d a s)"
    using inv i fr(1,3) unfolding device_inv_def pin_tracks_def t ws Let_def
    by (auto simp: nth_append)
  moreover have "proxy_inv X (dv_proxy (device_audited X d a s), dv_audit (device_audited X d a s))"
    using inv en by (intro device_audited_inv) (simp_all add: device_inv_def)
  ultimately show ?thesis
    using inv fr(1) ws by (simp add: device_inv_def device_leq_def t)
qed

lemma device_pin_keeps:
  assumes inv: "device_inv X s" and "region_fits d"
  shows "device_inv X (device_pin X d now elapsed s) \<and> device_leq s (device_pin X d now elapsed s)"
proof (cases "px_jobs (dv_proxy s) = [] \<or> px_pin (dv_proxy s) \<noteq> Pin_Running")
  case True
  then have "device_pin X d now elapsed s = s"
    by (auto simp: device_pin_def Let_def split: list.splits)
  with inv show ?thesis by (simp add: device_leq_def)
next
  case False
  then obtain job jobs where jobs: "px_jobs (dv_proxy s) = job # jobs" and run: "px_pin (dv_proxy s) = Pin_Running"
    by (auto simp: neq_Nil_conv)
  let ?sp = "dv_pinner s" and ?c = "pj_commitment job" and ?g = "dv_audit s"
  let ?key = "sp_key ?sp"
  obtain r sp' where r: "pin_with_retries (sync_pinner (client_oracle (net_rpc X ?key)) elapsed) ?c now ?sp = (r, sp')"
    by force
  have pinv: "proxy_inv X (dv_proxy s, ?g)" and rec: "keeps_node ?sp"
      and pin: "net_pin ?key (sp_client ?sp) = Some (au_writes ?g ! au_pinned ?g, sp_expected ?sp)"
    using inv run by (auto simp: device_inv_def pin_tracks_def Let_def)
  have "\<forall>reconnect w. sp_reconnect ?sp = Some reconnect \<longrightarrow> net_pin ?key (snd (reconnect w)) = net_pin ?key w"
    using rec by (simp add: keeps_node_def net_pin_def)
  note sound = net.pinner_sound [OF refl this r]
  note job = head_job_write [OF pinv jobs]
  let ?o = "map_err give_up_text r" and ?t = "device_pin X d now elapsed s"
  have t: "?t = device_audited X d (PinStep ?o) (s\<lparr> dv_pinner := sp' \<rparr>)"
    using jobs run r by (simp add: device_pin_def)
  have "proxy_inv X (dv_proxy ?t, dv_audit ?t)"
    unfolding t by (rule device_audited_inv) (use pinv assms(2) in \<open>simp_all add: proxy_enabled_def kernel_ok_def\<close>)
  moreover have "dv_pinner ?t = sp'" "au_writes (dv_audit ?t) = au_writes ?g"
      "au_pinned (dv_audit ?t) = au_pinned ?g + (if is_ok r then 1 else 0)"
      "px_pin (dv_proxy ?t) = Pin_Running \<longleftrightarrow> is_ok r"
    using jobs run unfolding t
    by (cases r; simp add: device_audited_def audited_step_def pin_actor_def is_ok_def map_err_def)+
  moreover have "\<exists>i \<ge> au_pinned ?g. i < length (au_writes ?g) \<and> ?c = au_writes ?g ! i"
    using job by (intro exI [of _ "Suc (au_pinned ?g)"]) simp
  ultimately show ?thesis
    using job pin sound rec
    by (auto simp: device_inv_def pin_tracks_def device_leq_def keeps_node_def Let_def)
qed

lemma device_other_keeps:
  assumes inv: "device_inv X s" and en: "device_enabled X d (Dev_Other session req) s"
  shows "device_inv X (device_other X session req s) \<and> device_leq s (device_other X session req s)"
proof -
  have "net_pin (sp_key (dv_pinner s)) (sp_client (dv_pinner (device_other X session req s))) =
      net_pin (sp_key (dv_pinner s)) (sp_client (dv_pinner s))"
    using en other_session_pin [of session "sp_key (dv_pinner s)" X req]
    by (simp add: device_other_def net_pin_def Let_def)
  moreover have "dv_proxy (device_other X session req s) = dv_proxy s" "dv_audit (device_other X session req s) = dv_audit s"
      "sp_key (dv_pinner (device_other X session req s)) = sp_key (dv_pinner s)"
      "sp_expected (dv_pinner (device_other X session req s)) = sp_expected (dv_pinner s)"
      "sp_reconnect (dv_pinner (device_other X session req s)) = sp_reconnect (dv_pinner s)"
    by (simp_all add: device_other_def Let_def)
  ultimately show ?thesis
    using inv by (simp add: device_inv_def device_leq_def pin_tracks_def keeps_node_def Let_def)
qed

lemma device_step_keeps:
  assumes "device_inv X s"
  shows "device_inv X (device_step X d a s) \<and> device_leq s (device_step X d a s)"
  using assms device_io_keeps [OF assms] device_pin_keeps [OF assms] device_other_keeps [OF assms]
  by (cases a) (simp_all add: device_step_def device_leq_def del: device_enabled.simps(1,3))

interpretation dv: forward_steps "device_step X d" "device_inv X" device_leq
  for X :: "'x ChainExt_scheme" and d
proof unfold_locales
  show "device_leq s s" for s by (simp add: device_leq_def)
  show "device_leq s t \<Longrightarrow> device_leq t u \<Longrightarrow> device_leq s u" for s t u
    by (auto simp: device_leq_def)
qed (use device_step_keeps in blast)+

subsection \<open>Properties\<close>

lemma boot_pins:
  assumes "boot X file dial (\<lambda>key. client_oracle (net_rpc X key)) chain_host d host net = (Inr br, host', net')"
  shows "net_pin (ss_key (br_session br)) net' = Some (br_commitment br, br_version br)"
    and "net_pin (ss_key (br_session br)) net \<noteq> None \<Longrightarrow>
      net_pin (ss_key (br_session br)) net' = net_pin (ss_key (br_session br)) net"
proof -
  from assms obtain region where v: "verify_or_register X (client_oracle (net_rpc X (ss_key (br_session br))))
        (ss_key (br_session br)) (ss_role (br_session br)) region (fetch_latest_upgrade_link X chain_host) net =
        (Inr (br_version br), net')"
      and c: "br_commitment br = commitment_of_region X region"
    by (rule boot_Inr)
  show "net_pin (ss_key (br_session br)) net' = Some (br_commitment br, br_version br)"
    using net.verify_or_register_sound(2) [OF v refl] c by simp
  show "net_pin (ss_key (br_session br)) net \<noteq> None \<Longrightarrow>
      net_pin (ss_key (br_session br)) net' = net_pin (ss_key (br_session br)) net"
    using net.verify_or_register_sound(1) [OF v] by auto
qed

lemma device_new_inv:
  assumes "boot X file dial (\<lambda>key. client_oracle (net_rpc X key)) chain_host d host net = (Inr br, host', net')"
    and "\<And>w. net_node (snd (reconnect w)) = net_node w"
  shows "device_inv X (device_new br reconnect net')"
  using boot_pins(1) [OF assms(1)] assms(2) proxy_inv_new [of X "br_commitment br"]
  by (simp add: device_inv_def device_new_def keeps_node_def pin_tracks_def into_pinner_def audit_new_def Let_def)

text \<open>C1. An acknowledged superblock write is never rolled back. A device boots, serves any interleaving of
  kernel requests, host replies, pins over a lossy link and requests of other enclaves, and at some
  point the kernel is told that a superblock write is on disk; it runs on, and stops. Whatever volume
  the host then presents, booting the same identity against the same oracle succeeds only if the
  region on it is the content of that write or of a later one.\<close>

theorem acknowledged_superblock_survives_reboot:
  assumes boot1: "boot X file dial (\<lambda>key. client_oracle (net_rpc X key)) ch d host net = (Inr br, host', net')"
    and reconnects: "\<And>w. net_node (snd (reconnect w)) = net_node w"
    and run1: "s1 = fold (device_step X d) as1 (device_new br reconnect net')"
    and ack: "au_open (dv_audit s1) h = Some (content, ix)"
      "(h, frame) \<in> set (delivered (dv_proxy s1) (proxy_step X d a (dv_proxy s1)))"
    and run2: "s2 = fold (device_step X d) as2 s1"
    and boot2: "boot X file2 dial2 (\<lambda>key. client_oracle (net_rpc X key)) ch2 d2 host2 net2 = (Inr br2, host2', net2')"
      "ss_key (br_session br2) = ss_key (br_session br)" "net_node net2 = net_node (sp_client (dv_pinner s2))"
  shows "\<exists>i j. ix = Some i \<and> au_writes (dv_audit s1) ! i = content \<and>
    (\<exists>later. au_writes (dv_audit s2) = au_writes (dv_audit s1) @ later) \<and>
    i \<le> j \<and> j < length (au_writes (dv_audit s2)) \<and> br_commitment br2 = au_writes (dv_audit s2) ! j"
proof -
  let ?key = "ss_key (br_session br)"
  have inv0: "device_inv X (device_new br reconnect net')"
    by (rule device_new_inv [OF boot1 reconnects])
  have inv1: "device_inv X s1" and fwd1: "device_leq (device_new br reconnect net') s1"
    unfolding run1 using dv.run_inv [OF inv0] dv.run_forward [OF inv0] .
  have inv2: "device_inv X s2" and fwd2: "device_leq s1 s2"
    unfolding run2 using dv.run_inv [OF inv1] dv.run_forward [OF inv1] .
  have pinv: "proxy_inv X (dv_proxy s1, dv_audit s1)"
    using inv1 by (simp add: device_inv_def)
  obtain i where i: "ix = Some i" "i \<le> au_pinned (dv_audit s1)" "au_writes (dv_audit s1) ! i = content"
    using acked_is_pinned [OF pinv ack] by blast
  have key: "sp_key (dv_pinner s2) = ?key"
    using fwd1 fwd2 by (simp add: device_leq_def device_new_def into_pinner_def)
  obtain j v where j: "au_pinned (dv_audit s2) \<le> j" "j < length (au_writes (dv_audit s2))"
      "net_pin ?key (sp_client (dv_pinner s2)) = Some (au_writes (dv_audit s2) ! j, v)"
    using inv2 key by (auto simp: device_inv_def pin_tracks_def Let_def)
  then have "net_pin ?key net2 = Some (au_writes (dv_audit s2) ! j, v)"
    using boot2(3) by (simp add: net_pin_def)
  then have "br_commitment br2 = au_writes (dv_audit s2) ! j"
    using boot_pins [OF boot2(1)] boot2(2) by simp
  moreover have "i \<le> j" "\<exists>later. au_writes (dv_audit s2) = au_writes (dv_audit s1) @ later"
    using fwd2 i(2) j(1) by (simp_all add: device_leq_def)
  ultimately show ?thesis using i j(2) by blast
qed


subsection \<open>A concrete run\<close>

text \<open>A blank volume is registered, the kernel writes its superblock, the write is pinned over a link
  without losses and acknowledged; the volume holding that superblock boots again.\<close>

definition ex_actions :: "DeviceAction list" where
  "ex_actions = [Dev_Io (KernelRequest (ex_request 1 7) (ex_block 1)), Dev_Io StreamStep, Dev_Io StreamStep,
     Dev_Io StreamStep, Dev_Pin 0 (\<lambda>_ _. 5)]"

lemma ex_queued:
  fixes X :: "'x ChainExt_scheme" and br reconnect net
  defines "c0 \<equiv> br_commitment br" and "c1 \<equiv> sha256 X (ex_block 1)"
  shows "fold (device_step X 0) (butlast ex_actions) (device_new br reconnect net) =
    (device_new br reconnect net)
      \<lparr> dv_proxy := (proxy_new c0)\<lparr> px_gate := [7 \<mapsto> Pin_Pending],
          px_watch := begin_pending 7 c1 (region_watch_new c0),
          px_jobs := [\<lparr> pj_handle = 7, pj_commitment = c1 \<rparr>],
          px_to_host := [ex_request 1 7, ex_block 1] \<rparr>,
        dv_audit := (audit_new c0)\<lparr> au_out := {7}, au_writes := [c0, c1],
          au_open := [7 \<mapsto> (c1, Some 1)], au_unsent := [] \<rparr> \<rparr>"
proof -
  have blk: "take SB_REGION_LEN (ex_block 1) = ex_block 1" "length (ex_block 1) = 4096"
    by (simp_all add: SB_REGION_LEN_def ex_block_def take_replicate)
  show ?thesis
    by (simp add: ex_actions_def device_step_def device_new_def device_audited_def audited_step_def
        proxy_enabled_def ex_fits kernel_ok_def ex_request_parse audit_new_def proxy_new_def pin_gate_new_def
        request_proxy_def request_stream_def ex_overlap ex_extract blk gate_begin_def nbd_cmds
        audit_request_def audit_stream_def commitment_of_region_def c0_def c1_def Let_def)
qed

lemma ex_pinned:
  fixes X :: "'x ChainExt_scheme"
  assumes "net_pin (ss_key (br_session br)) net = Some (c0, br_version br)" and "net_fates net = []"
  defines "key \<equiv> ss_key (br_session br)"
  defines "s \<equiv> fold (device_step X 0) ex_actions (device_new br (\<lambda>w. (Some key, w)) net)"
  shows "au_open (dv_audit s) 7 = Some (sha256 X (ex_block 1), Some 1)"
    "au_writes (dv_audit s) = [br_commitment br, sha256 X (ex_block 1)]"
    "delivered (dv_proxy s) (proxy_step X 0 (HostReply (ex_reply 7) []) (dv_proxy s)) = [(7, ex_reply 7)]"
    "net_pin key (sp_client (dv_pinner s)) = Some (sha256 X (ex_block 1), br_version br + 1)"
proof -
  let ?c = "sha256 X (ex_block 1)" and ?sp = "into_pinner (\<lambda>w. (Some key, w)) key (br_version br) net"
  let ?q = "fold (device_step X 0) (butlast ex_actions) (device_new br (\<lambda>w. (Some key, w)) net)"
  obtain sp' where sp': "pin_loop (sync_pinner (client_oracle (net_rpc X key)) (\<lambda>_ _. 5)) ?c 0 None 0 ?sp = (Inr (), sp')"
      "net_pin key (sp_client sp') = Some (?c, br_version br + 1)"
    using pin_loop_live [of ?sp key "br_version br" ?c 0 "\<lambda>_ _. 5" None 0 X] assms
    by (auto simp: into_pinner_def pin_ready_def in_budget_def net_losses_def net_unavailable_def)
  have "ex_actions = butlast ex_actions @ [Dev_Pin 0 (\<lambda>_ _. 5)]"
    by (simp add: ex_actions_def)
  then have "s = device_step X 0 (Dev_Pin 0 (\<lambda>_ _. 5)) ?q"
    unfolding s_def by (metis fold_simps fold_append o_apply)
  also have "\<dots> = device_audited X 0 (PinStep (Inr ())) (?q\<lparr> dv_pinner := sp' \<rparr>)"
    unfolding ex_queued
    using sp'(1)
    by (simp add: device_step_def ex_fits device_pin_def device_new_def proxy_new_def pin_with_retries_def
        into_pinner_def key_def)
  finally have s: "s = device_audited X 0 (PinStep (Inr ())) (?q\<lparr> dv_pinner := sp' \<rparr>)" .
  show "au_open (dv_audit s) 7 = Some (?c, Some 1)" "au_writes (dv_audit s) = [br_commitment br, ?c]"
      "net_pin key (sp_client (dv_pinner s)) = Some (?c, br_version br + 1)"
    unfolding s ex_queued using sp'(2)
    by (simp_all add: device_audited_def audited_step_def proxy_new_def pin_actor_def)
  show "delivered (dv_proxy s) (proxy_step X 0 (HostReply (ex_reply 7) []) (dv_proxy s)) = [(7, ex_reply 7)]"
    unfolding s ex_queued
    by (simp add: device_audited_def audited_step_def proxy_new_def pin_actor_def gate_finish_ok_def
        gated_reply_proxy_def ex_reply_parse gate_check_def to_kernel_def delivered_def)
qed

theorem acknowledged_superblock_survives_reboot_witness:
  "\<exists>br host' net' s1 br2 host2' net2 net2'.
    boot ex_anchors (Some []) ex_dial (\<lambda>key. client_oracle (net_rpc ex_anchors key)) None 0 (ex_host 0) (ex_net []) =
      (Inr br, host', net') \<and>
    s1 = fold (device_step ex_anchors 0) ex_actions (device_new br (\<lambda>w. (Some ex_k2, w)) net') \<and>
    delivered (dv_proxy s1) (proxy_step ex_anchors 0 (HostReply (ex_reply 7) []) (dv_proxy s1)) = [(7, ex_reply 7)] \<and>
    net_node net2 = net_node (sp_client (dv_pinner s1)) \<and>
    boot ex_anchors (Some []) ex_dial (\<lambda>key. client_oracle (net_rpc ex_anchors key)) None 0 (ex_host 1) net2 =
      (Inr br2, host2', net2') \<and>
    br_commitment br2 = sha256 ex_anchors (ex_block 1)"
proof -
  let ?client = "\<lambda>key. client_oracle (net_rpc ex_anchors key)" and ?c = "sha256 ex_anchors (ex_block 1)"
  obtain br host' net' where b: "boot ex_anchors (Some []) ex_dial ?client None 0 (ex_host 0) (ex_net []) = (Inr br, host', net')"
      "ss_key (br_session br) = ex_k2" "br_version br = 0" "net_fates net' = []"
    using ex_boot_blank by blast
  define s1 where "s1 = fold (device_step ex_anchors 0) ex_actions (device_new br (\<lambda>w. (Some ex_k2, w)) net')"
  from boot_pins(1) [OF b(1)] have s1: "au_open (dv_audit s1) 7 = Some (?c, Some 1)"
      "au_writes (dv_audit s1) = [br_commitment br, ?c]"
      "delivered (dv_proxy s1) (proxy_step ex_anchors 0 (HostReply (ex_reply 7) []) (dv_proxy s1)) = [(7, ex_reply 7)]"
      "net_pin ex_k2 (sp_client (dv_pinner s1)) = Some (?c, 1)"
    using ex_pinned [of br net' "br_commitment br" ex_anchors] b(2-4) unfolding s1_def by simp_all
  define net2 where "net2 = \<lparr> net_node = net_node (sp_client (dv_pinner s1)), net_clock = Some 1000, net_fates = [] \<rparr>"
  have "fst (verify_or_register ex_anchors (?client ex_k2) ex_k2 Genesis (ex_block 1) None net2) = Inr 1"
    using s1(4)
    by (auto simp: verify_or_register_def get_checked_def client_defs net_rpc_def net2_def net_pin_def node_pin_def
        node_handle_get_def boot_decision_def commitment_of_region_def Let_def)
  then obtain net2' where "verify_or_register ex_anchors (?client ex_k2) ex_k2 Genesis (replicate 4096 1) None net2 =
      (Inr 1, net2')"
    by (metis ex_block_def prod.collapse)
  from ex_boot_run [of ?client, OF this] obtain br2 host2' where
      b2: "boot ex_anchors (Some []) ex_dial ?client None 0 (ex_host 1) net2 = (Inr br2, host2', net2')"
      "ss_key (br_session br2) = ex_k2"
    by blast
  have d: "(7, ex_reply 7) \<in> set (delivered (dv_proxy s1) (proxy_step ex_anchors 0 (HostReply (ex_reply 7) []) (dv_proxy s1)))"
    by (simp only: s1(3)) simp
  have stop: "s1 = fold (device_step ex_anchors 0) [] s1" by simp
  have "\<exists>i j. Some 1 = Some i \<and> i \<le> j \<and> j < length (au_writes (dv_audit s1)) \<and>
      br_commitment br2 = au_writes (dv_audit s1) ! j"
    using acknowledged_superblock_survives_reboot [OF b(1) _ s1_def s1(1) d stop b2(1)] b(2) b2(2)
    by (auto simp: net2_def)
  then have "br_commitment br2 = ?c"
    using s1(2) by (auto simp: less_Suc_eq)
  with b(1) s1(3) b2(1) show ?thesis
    unfolding s1_def [symmetric] by (intro exI conjI) (auto simp: s1_def net2_def)
qed

end
