(* ===== verification/Membership.thy ===== *)
theory Membership
  imports State_Machine
begin

text \<open>
  Clone-resistant cluster membership, \<open>synchronizer/src/raft/membership.rs\<close> and
  \<open>RaftHandle::admit\<close> in \<open>raft/mod.rs\<close>: a member is the per-boot instance key it proved on its
  channel, a configured name is a slot, and an admission replaces the slot's holder in one change of
  the voter set. An ordered map is its list of entries, an ordered set of names its list.
\<close>

type_synonym RaftNodeId = u64

record MemberRecord =
  mr_name :: string
  mr_pubkey :: bytes

type_synonym Voters = "(RaftNodeId \<times> MemberRecord) list"

definition instance_node_id :: "'x Ext_scheme \<Rightarrow> bytes \<Rightarrow> RaftNodeId" where
  "instance_node_id X pubkey = (let digest = sha256 X pubkey in from_be_bytes (slice 0 8 digest))"

datatype AdmissionError =
    UnknownSlot string
  | IdCollision string
  | CorruptMembership nat string
  | IdMismatch RaftNodeId
  | UnconfiguredVoter string
  | OversizedMembership nat nat

record AdmissionPlan =
  ap_added_id :: RaftNodeId
  ap_added :: MemberRecord
  ap_evicted_id :: "RaftNodeId option"
  ap_new_voter_ids :: "RaftNodeId set"
  ap_already_member :: bool

definition holders :: "Voters \<Rightarrow> string \<Rightarrow> nat" where
  "holders voters name = length (filter (\<lambda>(_, m). mr_name m = name) voters)"

definition slot_holder :: "Voters \<Rightarrow> string \<Rightarrow> RaftNodeId option" where
  "slot_holder voters name = map_option fst (find (\<lambda>(_, m). mr_name m = name) voters)"

definition check_committed :: "'x Ext_scheme \<Rightarrow> string list \<Rightarrow> Voters \<Rightarrow> AdmissionError + unit" where
  "check_committed X configured_names voters =
     (case find (\<lambda>(_, m). mr_name m \<notin> set configured_names) voters of
        Some (_, m) \<Rightarrow> Inl (UnconfiguredVoter (mr_name m))
      | None \<Rightarrow>
     (case find (\<lambda>name. 1 < holders voters name) configured_names of
        Some name \<Rightarrow> Inl (CorruptMembership (holders voters name) name)
      | None \<Rightarrow>
     (case find (\<lambda>(nid, m). nid \<noteq> instance_node_id X (mr_pubkey m)) voters of
        Some (nid, _) \<Rightarrow> Inl (IdMismatch nid)
      | None \<Rightarrow> Inr ())))"

definition plan_admission ::
    "'x Ext_scheme \<Rightarrow> string list \<Rightarrow> Voters \<Rightarrow> string \<Rightarrow> bytes \<Rightarrow> AdmissionError + AdmissionPlan" where
  "plan_admission X configured_names voters candidate_name candidate_pubkey =
     (if candidate_name \<notin> set configured_names then Inl (UnknownSlot candidate_name)
      else and_then (check_committed X configured_names voters) (\<lambda>_.
        let added_id = instance_node_id X candidate_pubkey;
            added = \<lparr> mr_name = candidate_name, mr_pubkey = candidate_pubkey \<rparr>;
            holder = slot_holder voters candidate_name
        in if holder = Some added_id then
             Inr \<lparr> ap_added_id = added_id, ap_added = added, ap_evicted_id = None,
                   ap_new_voter_ids = fst ` set voters, ap_already_member = True \<rparr>
           else (case map_of voters added_id of
               Some collided \<Rightarrow> Inl (IdCollision (mr_name collided))
             | None \<Rightarrow>
                 let ids = fst ` set voters;
                     ids = (case holder of Some evicted \<Rightarrow> ids - {evicted} | None \<Rightarrow> ids);
                     ids = insert added_id ids
                 in if card ids > length configured_names
                    then Inl (OversizedMembership (card ids) (length configured_names))
                    else Inr \<lparr> ap_added_id = added_id, ap_added = added, ap_evicted_id = holder,
                               ap_new_voter_ids = ids, ap_already_member = False \<rparr>)))"

subsection \<open>Executing a plan\<close>

text \<open>The leader's \<open>admit\<close>. The Raft library is the argument \<open>raft\<close>: whether this node leads and the name
  it knows for the leader, and how the two calls that execute a plan end; a \<open>change_membership\<close> that
  succeeds commits exactly the voter set it was given, with the records the cluster knows, and one
  that fails may have committed it all the same (\<open>rf_change_landed\<close>).\<close>

datatype ChangeOutcome = Change_Ok | Change_Failed | Change_NotLeader | Change_TimedOut

record RaftCalls =
  rf_leader :: bool
  rf_leader_name :: "string option"
  rf_add_learner :: ChangeOutcome
  rf_change_membership :: ChangeOutcome
  rf_change_landed :: bool

datatype RaftHandleError =
    Rh_Rejected ValidationError
  | Rh_Raft
  | Rh_NotLinearizable
  | Rh_JoinRefused AdmissionError
  | Rh_NotLeader "string option"
  | Rh_CommitTimeout

definition membership_change_err :: "RaftCalls \<Rightarrow> ChangeOutcome \<Rightarrow> RaftHandleError" where
  "membership_change_err raft outcome =
     (if outcome = Change_NotLeader then Rh_NotLeader (rf_leader_name raft) else Rh_Raft)"

definition commit_voters :: "AdmissionPlan \<Rightarrow> Voters \<Rightarrow> Voters" where
  "commit_voters plan voters =
     filter (\<lambda>(nid, _). nid \<in> ap_new_voter_ids plan) voters @ [(ap_added_id plan, ap_added plan)]"

definition admit ::
    "'x Ext_scheme \<Rightarrow> RaftCalls \<Rightarrow> string list \<Rightarrow> string \<Rightarrow> bytes \<Rightarrow> Voters \<Rightarrow>
      (RaftHandleError + bool) \<times> Voters" where
  "admit X raft configured_names candidate_name candidate_pubkey voters =
     (if \<not> rf_leader raft then (Inl (Rh_NotLeader (rf_leader_name raft)), voters)
      else (case plan_admission X configured_names voters candidate_name candidate_pubkey of
        Inl e \<Rightarrow> (Inl (Rh_JoinRefused e), voters)
      | Inr plan \<Rightarrow>
          if ap_already_member plan then (Inr True, voters)
          else if rf_add_learner raft = Change_TimedOut then (Inl Rh_Raft, voters)
          else if rf_add_learner raft \<noteq> Change_Ok then
            (Inl (membership_change_err raft (rf_add_learner raft)), voters)
          else if rf_change_membership raft \<noteq> Change_Ok then
            (Inl (membership_change_err raft (rf_change_membership raft)),
             if rf_change_landed raft then commit_voters plan voters else voters)
          else (Inr True, commit_voters plan voters)))"

subsection \<open>One instance per slot\<close>

definition members_ok :: "'x Ext_scheme \<Rightarrow> string list \<Rightarrow> Voters \<Rightarrow> bool" where
  "members_ok X configured voters \<longleftrightarrow>
     distinct (map fst voters) \<and> distinct (map (\<lambda>v. mr_name (snd v)) voters) \<and>
     (\<forall>v \<in> set voters. mr_name (snd v) \<in> set configured \<and> fst v = instance_node_id X (mr_pubkey (snd v)))"

lemma holders_le_1:
  assumes "distinct (map (\<lambda>v. mr_name (snd v)) voters)"
  shows "holders voters name \<le> 1"
  using assms
proof (induction voters)
  case (Cons v voters)
  then have "mr_name (snd v) \<notin> (\<lambda>v. mr_name (snd v)) ` set voters" by simp
  then have "holders voters name = 0" if "mr_name (snd v) = name"
    using that by (auto simp: holders_def filter_empty_conv image_iff)
  with Cons show ?case by (auto simp: holders_def split: prod.splits)
qed (simp add: holders_def)

lemma members_checked:
  assumes "members_ok X configured voters"
  shows "check_committed X configured voters = Inr ()"
proof -
  have "find (\<lambda>(_, m). mr_name m \<notin> set configured) voters = None"
      "find (\<lambda>(nid, m). nid \<noteq> instance_node_id X (mr_pubkey m)) voters = None"
    using assms by (force simp: members_ok_def find_None_iff)+
  moreover have "find (\<lambda>name. 1 < holders voters name) configured = None"
    using assms holders_le_1 [of voters] by (auto simp: members_ok_def find_None_iff not_less)
  ultimately show ?thesis by (simp add: check_committed_def)
qed

lemma members_bounded:
  assumes "members_ok X configured voters"
  shows "length voters \<le> length configured"
proof -
  have "length voters = card ((\<lambda>v. mr_name (snd v)) ` set voters)"
    using assms by (metis (no_types, lifting) distinct_card length_map list.set_map members_ok_def)
  also have "\<dots> \<le> card (set configured)"
    using assms by (intro card_mono) (auto simp: members_ok_def)
  also have "\<dots> \<le> length configured" by (rule card_length)
  finally show ?thesis .
qed

text \<open>In a good membership the holder of a slot is the entry with its name.\<close>

lemma slot_holder_iff:
  assumes "members_ok X configured voters"
  shows "slot_holder voters name = Some nid \<longleftrightarrow> (\<exists>m. (nid, m) \<in> set voters \<and> mr_name m = name)"
proof -
  have d: "distinct (map (\<lambda>v. mr_name (snd v)) voters)"
    using assms by (simp add: members_ok_def)
  show ?thesis
    using d unfolding slot_holder_def
    by (induction voters) (force split: if_splits)+
qed

lemma slot_holder_None_iff:
  "slot_holder voters name = None \<longleftrightarrow> (\<forall>v \<in> set voters. mr_name (snd v) \<noteq> name)"
  by (simp add: slot_holder_def find_None_iff case_prod_beta) force

lemma evicted_ids:
  assumes ok: "members_ok X configured voters"
  shows "(case slot_holder voters name of Some evicted \<Rightarrow> fst ` set voters - {evicted} | None \<Rightarrow> fst ` set voters) =
    fst ` {v \<in> set voters. mr_name (snd v) \<noteq> name}"
proof (cases "slot_holder voters name")
  case None
  then have "{v \<in> set voters. mr_name (snd v) \<noteq> name} = set voters"
    by (auto simp: slot_holder_None_iff)
  with None show ?thesis by simp
next
  case (Some evicted)
  then obtain m where m: "(evicted, m) \<in> set voters" "mr_name m = name"
    using slot_holder_iff [OF ok] by blast
  have "fst v = evicted \<longleftrightarrow> mr_name (snd v) = name" if "v \<in> set voters" for v
  proof
    assume "fst v = evicted"
    then have "snd v = m"
      using m(1) that ok by (metis eq_key_imp_eq_value members_ok_def prod.collapse)
    then show "mr_name (snd v) = name" using m(2) by simp
  next
    assume "mr_name (snd v) = name"
    then show "fst v = evicted"
      using slot_holder_iff [OF ok, of name "fst v"] Some that by (metis option.inject prod.collapse)
  qed
  with Some show ?thesis by auto
qed

lemma plan_new:
  assumes ok: "members_ok X configured voters"
    and plan: "plan_admission X configured voters name pubkey = Inr plan" "\<not> ap_already_member plan"
  shows "name \<in> set configured" "ap_added_id plan = instance_node_id X pubkey"
    "ap_added plan = \<lparr> mr_name = name, mr_pubkey = pubkey \<rparr>" "ap_added_id plan \<notin> fst ` set voters"
    "ap_new_voter_ids plan = insert (ap_added_id plan) (fst ` {v \<in> set voters. mr_name (snd v) \<noteq> name})"
proof -
  let ?id = "instance_node_id X pubkey" and ?h = "slot_holder voters name"
  let ?ids = "insert ?id (case ?h of Some evicted \<Rightarrow> fst ` set voters - {evicted} | None \<Rightarrow> fst ` set voters)"
  have p: "name \<in> set configured" "?h \<noteq> Some ?id" "map_of voters ?id = None"
      "plan = \<lparr> ap_added_id = ?id, ap_added = \<lparr> mr_name = name, mr_pubkey = pubkey \<rparr>,
        ap_evicted_id = ?h, ap_new_voter_ids = ?ids, ap_already_member = False \<rparr>"
    using plan members_checked [OF ok]
    by (auto simp: plan_admission_def Let_def split: if_splits option.splits)
  then show "name \<in> set configured" "ap_added_id plan = ?id"
      "ap_added plan = \<lparr> mr_name = name, mr_pubkey = pubkey \<rparr>" "ap_added_id plan \<notin> fst ` set voters"
    by (simp_all add: map_of_eq_None_iff)
  have "(case ?h of Some evicted \<Rightarrow> fst ` set voters - {evicted} | None \<Rightarrow> fst ` set voters) =
      fst ` {v \<in> set voters. mr_name (snd v) \<noteq> name}"
    by (rule evicted_ids [OF ok])
  then show "ap_new_voter_ids plan = insert (ap_added_id plan) (fst ` {v \<in> set voters. mr_name (snd v) \<noteq> name})"
    using p(4) by simp
qed

lemma commit_voters_eq:
  assumes ok: "members_ok X configured voters"
    and plan: "plan_admission X configured voters name pubkey = Inr plan" "\<not> ap_already_member plan"
  shows "commit_voters plan voters = filter (\<lambda>v. mr_name (snd v) \<noteq> name) voters @
    [(instance_node_id X pubkey, \<lparr> mr_name = name, mr_pubkey = pubkey \<rparr>)]"
proof -
  note p = plan_new [OF assms]
  have "fst v \<in> ap_new_voter_ids plan \<longleftrightarrow> mr_name (snd v) \<noteq> name" if "v \<in> set voters" for v
  proof -
    have "fst v \<noteq> ap_added_id plan" using p(4) that by force
    moreover have "v = w" if "w \<in> set voters" "fst w = fst v" for w
      using ok that \<open>v \<in> set voters\<close> by (metis eq_key_imp_eq_value members_ok_def prod.collapse)
    ultimately show ?thesis using p(5) that by auto
  qed
  then show ?thesis
    using p(2,3) by (auto simp: commit_voters_def case_prod_beta intro: filter_cong)
qed

lemma admit_committed:
  assumes "admit X raft configured name pubkey voters = (r, voters')"
  obtains (unchanged) "voters' = voters" "r \<noteq> Inr False"
      "r = Inr True \<Longrightarrow> \<exists>plan. plan_admission X configured voters name pubkey = Inr plan \<and> ap_already_member plan"
      "\<And>e. r = Inl (Rh_JoinRefused e) \<Longrightarrow> plan_admission X configured voters name pubkey = Inl e"
  | (committed) plan where "\<nexists>e. r = Inl (Rh_JoinRefused e)" "plan_admission X configured voters name pubkey = Inr plan"
      "\<not> ap_already_member plan" "voters' = commit_voters plan voters"
proof (cases "rf_leader raft")
  case False
  with assms show thesis by (intro unchanged) (auto simp: admit_def)
next
  case lead: True
  show thesis
  proof (cases "plan_admission X configured voters name pubkey")
    case (Inl e)
    with assms lead show thesis by (intro unchanged) (auto simp: admit_def)
  next
    case (Inr plan)
    note run = assms [unfolded admit_def, simplified lead Inr, simplified]
    show thesis
    proof (cases "ap_already_member plan")
      case True
      with run Inr show thesis by (intro unchanged) auto
    next
      case new: False
      show thesis
      proof (cases "rf_add_learner raft = Change_Ok \<and> (rf_change_membership raft = Change_Ok \<or> rf_change_landed raft)")
        case True
        with run Inr new show thesis
          by (intro committed [of plan]) (auto simp: membership_change_err_def split: if_splits)
      next
        case False
        with run new have "voters' = voters \<and> (\<exists>e. r = Inl e \<and> (\<forall>e'. e \<noteq> Rh_JoinRefused e'))"
          by (simp add: membership_change_err_def split: if_splits) (metis RaftHandleError.distinct)+
        then show thesis by (intro unchanged) auto
      qed
    qed
  qed
qed

lemma commit_members_ok:
  assumes ok: "members_ok X configured voters"
    and plan: "plan_admission X configured voters name pubkey = Inr plan" "\<not> ap_already_member plan"
  shows "members_ok X configured (commit_voters plan voters)"
proof -
  note p = plan_new [OF assms]
  show ?thesis
    using ok p(1,2,4) unfolding commit_voters_eq [OF assms]
    by (auto simp: members_ok_def distinct_map_filter)
qed

lemma card_insert_le_Suc: "card (insert a A) \<le> Suc (card A)"
  by (cases "finite A") (simp_all add: card_insert_if)

lemma others_bounded:
  assumes ok: "members_ok X configured voters" and "name \<in> set configured"
  shows "card (insert nid (fst ` {v \<in> set voters. mr_name (snd v) \<noteq> name})) \<le> length configured"
proof -
  let ?S = "{v \<in> set voters. mr_name (snd v) \<noteq> name}" and ?n = "\<lambda>v :: RaftNodeId \<times> MemberRecord. mr_name (snd v)"
  have "inj_on ?n (set voters)"
    using ok by (simp add: members_ok_def distinct_map)
  then have "inj_on ?n ?S" by (rule inj_on_subset) blast
  then have "card ?S = card (?n ` ?S)" by (rule card_image [symmetric])
  also have "\<dots> \<le> card (set configured - {name})"
    using ok by (intro card_mono) (auto simp: members_ok_def)
  finally have "card ?S < card (set configured)"
    using card_Diff1_less [OF finite_set assms(2)] by linarith
  moreover have "card (fst ` ?S) \<le> card ?S" by (rule card_image_le) simp
  ultimately have "card (insert nid (fst ` ?S)) \<le> card (set configured)"
    using card_insert_le_Suc [of nid "fst ` ?S"] by linarith
  then show ?thesis using card_length [of configured] by linarith
qed

text \<open>In a good membership the defensive refusals never fire.\<close>

lemma refusal_reasons:
  assumes ok: "members_ok X configured voters"
    and e: "plan_admission X configured voters name pubkey = Inl e"
  shows "name \<notin> set configured \<and> e = UnknownSlot name \<or>
    (\<exists>m. (instance_node_id X pubkey, m) \<in> set voters \<and> mr_name m \<noteq> name \<and> e = IdCollision (mr_name m))"
proof (cases "map_of voters (instance_node_id X pubkey)")
  case (Some m)
  then have m: "(instance_node_id X pubkey, m) \<in> set voters" by (rule map_of_SomeD)
  then have "mr_name m = name \<Longrightarrow> slot_holder voters name = Some (instance_node_id X pubkey)"
    using slot_holder_iff [OF ok] by blast
  with Some m e members_checked [OF ok] show ?thesis
    by (auto simp: plan_admission_def Let_def split: if_splits)
next
  case None
  with e members_checked [OF ok] show ?thesis
    using others_bounded [OF ok, of name "instance_node_id X pubkey"]
    by (auto simp: plan_admission_def Let_def evicted_ids [OF ok] split: if_splits)
qed

lemma slot_holder_other:
  assumes "other \<noteq> name" "mr_name m = name"
  shows "slot_holder (filter (\<lambda>v. mr_name (snd v) \<noteq> name) voters @ [(nid, m)]) other = slot_holder voters other"
  using assms by (induction voters) (auto simp: slot_holder_def)

lemma slot_holder_new:
  assumes "mr_name m = name"
  shows "slot_holder (filter (\<lambda>v. mr_name (snd v) \<noteq> name) voters @ [(nid, m)]) name = Some nid"
  using assms by (induction voters) (auto simp: slot_holder_def)

definition admit_step ::
    "'x Ext_scheme \<Rightarrow> string list \<Rightarrow> RaftCalls \<times> string \<times> bytes \<Rightarrow> Voters \<Rightarrow> Voters" where
  "admit_step X configured req voters =
     (case req of (raft, name, pubkey) \<Rightarrow> snd (admit X raft configured name pubkey voters))"

interpretation mem: invariant_steps "admit_step X configured" "members_ok X configured"
  for X :: "'x Ext_scheme" and configured
proof
  fix voters and req :: "RaftCalls \<times> string \<times> bytes"
  assume ok: "members_ok X configured voters"
  obtain raft name pubkey where req: "req = (raft, name, pubkey)" by (metis prod_cases3)
  obtain r voters' where a: "admit X raft configured name pubkey voters = (r, voters')" by force
  from a show "members_ok X configured (admit_step X configured req voters)"
    by (cases rule: admit_committed) (use ok commit_members_ok a in \<open>simp_all add: admit_step_def req\<close>)
qed

text \<open>C12. A cluster never has two voters in one slot. From any good membership, and in particular from an
  empty cluster, every sequence of join requests, however the Raft calls behind them end, leads to
  memberships where each configured name is held by at most one voter, every voter's id is derived
  from the instance key it proved, and there are no more voters than slots. An admission that
  succeeds makes the candidate the slot's holder and leaves every other slot alone, and one that
  fails does the same or changes nothing. A request is refused only for a name that is not
  configured or for an id that another slot's voter already has, and then nothing changes.\<close>

theorem one_instance_per_slot:
  assumes start: "members_ok X configured voters0"
    and run: "voters = fold (admit_step X configured) requests voters0"
    and req: "admit X raft configured name pubkey voters = (r, voters')"
  shows "members_ok X configured voters' \<and> length voters' \<le> length configured \<and>
    (r = Inr True \<longrightarrow> slot_holder voters' name = Some (instance_node_id X pubkey) \<and>
      (\<forall>other. other \<noteq> name \<longrightarrow> slot_holder voters' other = slot_holder voters other)) \<and>
    (r \<noteq> Inr True \<longrightarrow> voters' = voters \<or>
      slot_holder voters' name = Some (instance_node_id X pubkey) \<and>
      (\<forall>other. other \<noteq> name \<longrightarrow> slot_holder voters' other = slot_holder voters other)) \<and>
    (\<forall>e. r = Inl (Rh_JoinRefused e) \<longrightarrow> voters' = voters \<and> (
      name \<notin> set configured \<and> e = UnknownSlot name \<or>
      (\<exists>m. (instance_node_id X pubkey, m) \<in> set voters \<and> mr_name m \<noteq> name \<and> e = IdCollision (mr_name m))))"
proof -
  have ok: "members_ok X configured voters"
    unfolding run by (rule mem.run_inv [OF start])
  from req show ?thesis
  proof (cases rule: admit_committed)
    case unchanged
    have held: "slot_holder voters name = Some (instance_node_id X pubkey)" if "r = Inr True"
      using unchanged(3) [OF that] members_checked [OF ok]
      by (auto simp: plan_admission_def Let_def split: if_splits option.splits)
    have refused: "name \<notin> set configured \<and> e = UnknownSlot name \<or>
        (\<exists>m. (instance_node_id X pubkey, m) \<in> set voters \<and> mr_name m \<noteq> name \<and> e = IdCollision (mr_name m))"
      if "r = Inl (Rh_JoinRefused e)" for e
      using refusal_reasons [OF ok unchanged(4) [OF that]] .
    from unchanged held refused members_bounded [OF ok] ok show ?thesis by auto
  next
    case (committed plan)
    have ok': "members_ok X configured voters'"
      using commit_members_ok [OF ok committed(2,3)] committed(4) by simp
    have v': "voters' = filter (\<lambda>v. mr_name (snd v) \<noteq> name) voters @
        [(instance_node_id X pubkey, \<lparr> mr_name = name, mr_pubkey = pubkey \<rparr>)]"
      using commit_voters_eq [OF ok committed(2,3)] committed(4) by simp
    have "slot_holder voters' other = slot_holder voters other" if "other \<noteq> name" for other
      unfolding v' using that by (rule slot_holder_other) simp
    moreover have "slot_holder voters' name = Some (instance_node_id X pubkey)"
      unfolding v' by (rule slot_holder_new) simp
    ultimately show ?thesis
      using ok' members_bounded [OF ok'] committed(1) by simp
  qed
qed

subsection \<open>A concrete cluster\<close>

text \<open>Three slots; the node in slot \<open>a\<close> restarts with a new instance key and replaces its former self.\<close>

definition ex_cluster_ext :: Ext where
  "ex_cluster_ext = \<lparr> sha256 = (\<lambda>bs. replicate 7 0 @ take 1 bs), hex_encode = (\<lambda>_. []), hex_decode = (\<lambda>_. None),
     p256_from_sec1 = (\<lambda>_. True), p256_sig_from_slice = (\<lambda>_. True), p256_verify = (\<lambda>_ _ _. True) \<rparr>"

definition ex_leader :: RaftCalls where
  "ex_leader = \<lparr> rf_leader = True, rf_leader_name = None, rf_add_learner = Change_Ok,
     rf_change_membership = Change_Ok, rf_change_landed = False \<rparr>"

theorem one_instance_per_slot_witness:
  "let voters = fold (admit_step ex_cluster_ext [''a'', ''b'', ''c'']) [(ex_leader, ''a'', [1]), (ex_leader, ''b'', [2])] [];
       voters' = snd (admit ex_cluster_ext ex_leader [''a'', ''b'', ''c''] ''a'' [3] voters)
   in slot_holder voters ''a'' = Some 1 \<and> slot_holder voters' ''a'' = Some 3 \<and>
      slot_holder voters' ''b'' = Some 2 \<and> length voters' \<le> 3"
proof -
  let ?c = "[''a'', ''b'', ''c'']"
  define voters where "voters = fold (admit_step ex_cluster_ext ?c) [(ex_leader, ''a'', [1]), (ex_leader, ''b'', [2])] []"
  obtain r voters' where a: "admit ex_cluster_ext ex_leader ?c ''a'' [3] voters = (r, voters')" by force
  have "fst (admit ex_cluster_ext ex_leader ?c ''a'' [3] voters) = Inr True"
    unfolding voters_def by code_simp
  then have r: "r = Inr True" using a by simp
  have ids: "slot_holder voters ''a'' = Some 1" "slot_holder voters ''b'' = Some 2" "instance_node_id ex_cluster_ext [3] = 3"
    unfolding voters_def by code_simp+
  have "members_ok ex_cluster_ext ?c []" by (simp add: members_ok_def)
  from one_instance_per_slot [OF this voters_def a] r ids a show ?thesis
    unfolding voters_def [symmetric] by (simp add: Let_def)
qed

end
