(* ===== verification/Raft_Store.thy ===== *)
theory Raft_Store
  imports Wire Membership
begin

text \<open>
  The replicated storage of the synchronizer cluster, \<open>synchronizer/src/raft/store.rs\<close>: the in-memory
  log, and the store that feeds committed entries to the state machine, builds snapshots and
  installs them. Consensus itself is the Raft library's; what it relies on is that every replica
  that applies the same entries, or starts from another's snapshot, ends in the same state.
\<close>

subsection \<open>The log\<close>

text \<open>An ordered map as the list of its entries in key order.\<close>

record LogId =
  li_leader :: "u64 \<times> RaftNodeId"
  li_index :: u64

datatype ReplicatedOp =
    Rep_Register PcrKey Commitment ControlPubkey
  | Rep_Pin PcrKey Version Commitment
  | Rep_Transition PcrKey PcrKey ControlPubkey LinkHash int Commitment
  | Rep_Revoke PcrKey LinkHash

datatype EntryPayload = Entry_Blank | Entry_Normal ReplicatedOp | Entry_Membership Voters

record LogEntry =
  en_log_id :: LogId
  en_payload :: EntryPayload

record LogStoreInner =
  ls_last_purged_log_id :: "LogId option"
  ls_log :: "(u64 \<times> LogEntry) list"
  ls_committed :: "LogId option"
  ls_vote :: "(u64 \<times> RaftNodeId) option"

definition btree_insert :: "u64 \<Rightarrow> 'v \<Rightarrow> (u64 \<times> 'v) list \<Rightarrow> (u64 \<times> 'v) list" where
  "btree_insert k v m = filter (\<lambda>p. fst p < k) m @ (k, v) # filter (\<lambda>p. k < fst p) m"

definition try_get_log_entries :: "u64 \<Rightarrow> u64 \<Rightarrow> LogStoreInner \<Rightarrow> LogEntry list" where
  "try_get_log_entries from until ls = map snd (filter (\<lambda>p. from \<le> fst p \<and> fst p < until) (ls_log ls))"

definition get_log_state :: "LogStoreInner \<Rightarrow> LogId option \<times> LogId option" where
  "get_log_state ls =
     (let last = (if ls_log ls = [] then None else Some (en_log_id (snd (last (ls_log ls)))))
      in (ls_last_purged_log_id ls,
          case last of None \<Rightarrow> ls_last_purged_log_id ls | Some x \<Rightarrow> Some x))"

definition log_append :: "LogEntry list \<Rightarrow> LogStoreInner \<Rightarrow> LogStoreInner" where
  "log_append entries ls =
     ls\<lparr> ls_log := fold (\<lambda>e. btree_insert (li_index (en_log_id e)) e) entries (ls_log ls) \<rparr>"

definition log_truncate :: "LogId \<Rightarrow> LogStoreInner \<Rightarrow> LogStoreInner" where
  "log_truncate log_id ls = ls\<lparr> ls_log := filter (\<lambda>p. fst p < li_index log_id) (ls_log ls) \<rparr>"

text \<open>\<open>purge\<close> asserts that the purged position does not move back, in the order \<open>le\<close> of log ids;
  \<open>None\<close> is the failed assertion.\<close>

definition log_purge :: "(LogId \<Rightarrow> LogId \<Rightarrow> bool) \<Rightarrow> LogId \<Rightarrow> LogStoreInner \<Rightarrow> LogStoreInner option" where
  "log_purge le log_id ls =
     (if (case ls_last_purged_log_id ls of None \<Rightarrow> True | Some p \<Rightarrow> le p log_id)
      then Some (ls\<lparr> ls_last_purged_log_id := Some log_id,
                     ls_log := filter (\<lambda>p. li_index log_id < fst p) (ls_log ls) \<rparr>)
      else None)"

definition save_committed :: "LogId option \<Rightarrow> LogStoreInner \<Rightarrow> LogStoreInner" where
  "save_committed committed ls = ls\<lparr> ls_committed := committed \<rparr>"

definition save_vote :: "u64 \<times> RaftNodeId \<Rightarrow> LogStoreInner \<Rightarrow> LogStoreInner" where
  "save_vote vote ls = ls\<lparr> ls_vote := Some vote \<rparr>"

definition log_sorted :: "LogStoreInner \<Rightarrow> bool" where
  "log_sorted ls \<longleftrightarrow> sorted_wrt (<) (map fst (ls_log ls))"

lemma btree_insert_sorted:
  assumes "sorted_wrt (<) (map fst m)"
  shows "sorted_wrt (<) (map fst (btree_insert k v m))"
proof -
  have "sorted_wrt (<) (map fst (filter P m))" for P
    using assms by (induction m) auto
  then show ?thesis
    by (auto simp: btree_insert_def sorted_wrt_append)
qed

lemma fold_insert_sorted:
  "sorted_wrt (<) (map fst m) \<Longrightarrow>
    sorted_wrt (<) (map fst (fold (\<lambda>e. btree_insert (li_index (en_log_id e)) e) entries m))"
  by (induction entries arbitrary: m) (simp_all add: btree_insert_sorted)

lemma filter_sorted: "sorted_wrt (<) (map fst m) \<Longrightarrow> sorted_wrt (<) (map fst (filter P m))"
  by (induction m) auto

text \<open>Every operation keeps the index order.\<close>

lemma log_ops_sorted:
  assumes "log_sorted ls"
  shows "log_sorted (log_append entries ls)" "log_sorted (log_truncate log_id ls)"
    "log_purge le log_id ls = Some ls' \<Longrightarrow> log_sorted ls'"
  using assms
  by (auto simp: log_sorted_def log_append_def log_truncate_def log_purge_def fold_insert_sorted filter_sorted
      split: if_splits)

subsection \<open>Applying committed entries\<close>

datatype ReplicatedOpResult = Applied KeyState | Rejected ValidationError

definition apply_one :: "ReplicatedOp \<Rightarrow> StateMachine \<Rightarrow> ReplicatedOpResult \<times> StateMachine" where
  "apply_one op sm =
     (let (result, sm') =
        (case op of
           Rep_Register key commitment pubkey \<Rightarrow>
             apply_op (Op_Register key commitment) (observe_attestation key pubkey sm)
         | Rep_Pin key expected_version commitment \<Rightarrow>
             apply_op (Op_Pin key expected_version commitment) sm
         | Rep_Transition old_key new_key new_pubkey link_hash valid_until_ms commitment \<Rightarrow>
             apply_op (Op_Transition old_key new_key link_hash commitment)
               (observe_transition old_key new_key (observe_attestation new_key new_pubkey sm))
         | Rep_Revoke key link_hash \<Rightarrow> apply_op (Op_Revoke key link_hash) sm)
      in (case result of Inr state \<Rightarrow> Applied state | Inl e \<Rightarrow> Rejected e, sm'))"

record SnapshotMeta =
  sn_last_log_id :: "LogId option"
  sn_last_membership :: "LogId option \<times> Voters"
  sn_snapshot_id :: "LogId option \<times> u64"

record StoredSnapshot =
  sd_meta :: SnapshotMeta
  sd_data :: bytes

record StateMachineStore =
  st_sm :: StateMachine
  st_last_applied_log :: "LogId option"
  st_last_membership :: "LogId option \<times> Voters"
  st_snapshot_idx :: u64
  st_current_snapshot :: "StoredSnapshot option"

definition store_new :: StateMachineStore where
  "store_new = \<lparr> st_sm = sm_new, st_last_applied_log = None, st_last_membership = (None, []),
     st_snapshot_idx = 0, st_current_snapshot = None \<rparr>"

definition blank_result :: ReplicatedOpResult where
  "blank_result = Applied \<lparr> ks_commitment = replicate 32 0, ks_version = 0,
     ks_control_pubkey = replicate 65 0 \<rparr>"

text \<open>One entry: its result, the transition it moved (old key, new key and deadline) if any, and the
  new store.\<close>

definition apply_entry ::
    "LogEntry \<Rightarrow> StateMachineStore \<Rightarrow>
      ReplicatedOpResult \<times> (PcrKey \<times> PcrKey \<times> int) list \<times> StateMachineStore" where
  "apply_entry entry st =
     (let st = st\<lparr> st_last_applied_log := Some (en_log_id entry) \<rparr>
      in case en_payload entry of
           Entry_Blank \<Rightarrow> (blank_result, [], st)
         | Entry_Normal op \<Rightarrow>
             (case apply_one op (st_sm st) of
                (result, sm) \<Rightarrow>
                  (result,
                   case (op, result) of
                     (Rep_Transition old_key new_key _ _ valid_until_ms _, Applied _) \<Rightarrow>
                       [(old_key, new_key, valid_until_ms)]
                   | _ \<Rightarrow> [],
                   st\<lparr> st_sm := sm \<rparr>))
         | Entry_Membership mem \<Rightarrow>
             (blank_result, [], st\<lparr> st_last_membership := (Some (en_log_id entry), mem) \<rparr>))"

fun store_apply ::
    "LogEntry list \<Rightarrow> StateMachineStore \<Rightarrow>
      ReplicatedOpResult list \<times> (PcrKey \<times> PcrKey \<times> int) list \<times> StateMachineStore" where
  "store_apply [] st = ([], [], st)"
| "store_apply (entry # entries) st =
     (case apply_entry entry st of
        (result, moved, st1) \<Rightarrow>
          (case store_apply entries st1 of
             (results, moved', st2) \<Rightarrow> (result # results, moved @ moved', st2)))"

text \<open>The late-commit check: what the leader reports of the transitions it just applied.\<close>

definition check_transition_deadlines ::
    "bool \<Rightarrow> u64 option \<Rightarrow> (PcrKey \<times> PcrKey \<times> int) list \<Rightarrow> (PcrKey \<times> PcrKey \<times> int) list" where
  "check_transition_deadlines is_leader trusted_now transitions =
     (if transitions = [] \<or> \<not> is_leader then []
      else (case trusted_now of
        None \<Rightarrow> []
      | Some now_ms \<Rightarrow>
          filter (\<lambda>(_, _, valid_until_ms). past_valid_until now_ms valid_until_ms) transitions))"

subsection \<open>Snapshots\<close>

datatype StoreError = Store_ReadStateMachine | Store_ReadSnapshot

definition build_snapshot ::
    "(StateMachineSnapshot \<Rightarrow> bytes option) \<Rightarrow> StateMachineStore \<Rightarrow>
      (StoreError + StoredSnapshot) \<times> StateMachineStore" where
  "build_snapshot into_writer st =
     (case into_writer (snapshot (st_sm st)) of
        None \<Rightarrow> (Inl Store_ReadStateMachine, st)
      | Some data \<Rightarrow>
          let idx = st_snapshot_idx st + 1;
              meta = \<lparr> sn_last_log_id = st_last_applied_log st, sn_last_membership = st_last_membership st,
                       sn_snapshot_id = (st_last_applied_log st, idx) \<rparr>;
              snap = \<lparr> sd_meta = meta, sd_data = data \<rparr>
          in (Inr snap, st\<lparr> st_snapshot_idx := idx, st_current_snapshot := Some snap \<rparr>))"

definition install_snapshot ::
    "(bytes \<Rightarrow> StateMachineSnapshot option) \<Rightarrow> SnapshotMeta \<Rightarrow> bytes \<Rightarrow> StateMachineStore \<Rightarrow>
      (StoreError + unit) \<times> StateMachineStore" where
  "install_snapshot from_reader meta data st =
     (case from_reader data of
        None \<Rightarrow> (Inl Store_ReadSnapshot, st)
      | Some restored \<Rightarrow>
          (Inr (), st\<lparr> st_sm := restore_from_snapshot restored (st_sm st),
                       st_last_applied_log := sn_last_log_id meta,
                       st_last_membership := sn_last_membership meta,
                       st_current_snapshot := Some \<lparr> sd_meta = meta, sd_data = data \<rparr> \<rparr>))"

definition get_current_snapshot :: "StateMachineStore \<Rightarrow> StoredSnapshot option" where
  "get_current_snapshot st = st_current_snapshot st"

definition applied_state :: "StateMachineStore \<Rightarrow> LogId option \<times> LogId option \<times> Voters" where
  "applied_state st = (st_last_applied_log st, st_last_membership st)"

subsection \<open>Replicas agree\<close>

text \<open>An entry is a few inputs of the state machine, so what holds of all its runs holds of every
  replica.\<close>

fun op_inputs :: "ReplicatedOp \<Rightarrow> SmInput list" where
  "op_inputs (Rep_Register key c pk) = [In_Attest key pk, In_Op (Op_Register key c)]"
| "op_inputs (Rep_Pin key v c) = [In_Op (Op_Pin key v c)]"
| "op_inputs (Rep_Transition old new pk h t c) =
     [In_Attest new pk, In_Authorize old new, In_Op (Op_Transition old new h c)]"
| "op_inputs (Rep_Revoke key h) = [In_Op (Op_Revoke key h)]"

definition entry_inputs :: "LogEntry \<Rightarrow> SmInput list" where
  "entry_inputs entry = (case en_payload entry of Entry_Normal op \<Rightarrow> op_inputs op | _ \<Rightarrow> [])"

lemma apply_one_inputs: "snd (apply_one op sm) = sm_run (op_inputs op) sm"
  by (cases op) (simp_all add: apply_one_def split: prod.splits)

lemma apply_entry_inputs: "st_sm (snd (snd (apply_entry entry st))) = sm_run (entry_inputs entry) (st_sm st)"
  using apply_one_inputs
  by (simp add: apply_entry_def entry_inputs_def Let_def split: EntryPayload.splits prod.splits) (metis snd_conv)

lemma store_apply_inputs:
  "st_sm (snd (snd (store_apply entries st))) = sm_run (concat (map entry_inputs entries)) (st_sm st)"
proof (induction entries arbitrary: st)
  case (Cons entry entries)
  obtain r m st1 where e: "apply_entry entry st = (r, m, st1)" by (metis prod_cases3)
  have "st_sm st1 = sm_run (entry_inputs entry) (st_sm st)"
    using apply_entry_inputs [of entry st] e by simp
  with Cons [of st1] e show ?case by (simp add: case_prod_beta)
qed simp

text \<open>What entries depend on and what they change.\<close>

definition replica_view :: "StateMachineStore \<Rightarrow> StateMachine \<times> LogId option \<times> LogId option \<times> Voters" where
  "replica_view st = (st_sm st, applied_state st)"

lemma apply_entry_view:
  assumes "replica_view a = replica_view b"
  shows "fst (apply_entry e a) = fst (apply_entry e b)"
    "fst (snd (apply_entry e a)) = fst (snd (apply_entry e b))"
    "replica_view (snd (snd (apply_entry e a))) = replica_view (snd (snd (apply_entry e b)))"
  using assms
  by (simp_all add: replica_view_def applied_state_def apply_entry_def Let_def split: EntryPayload.splits prod.splits)

lemma store_apply_view:
  assumes "replica_view a = replica_view b"
  shows "fst (store_apply es a) = fst (store_apply es b) \<and>
    fst (snd (store_apply es a)) = fst (snd (store_apply es b)) \<and>
    replica_view (snd (snd (store_apply es a))) = replica_view (snd (snd (store_apply es b)))"
  using assms
proof (induction es arbitrary: a b)
  case (Cons e es)
  obtain r m a' where a: "apply_entry e a = (r, m, a')" by (metis prod_cases3)
  obtain r' m' b' where b: "apply_entry e b = (r', m', b')" by (metis prod_cases3)
  have "r = r'" "m = m'" "replica_view a' = replica_view b'"
    using apply_entry_view [OF Cons.prems, of e] a b by simp_all
  with Cons.IH [of a' b'] a b show ?case by (simp add: case_prod_beta)
qed simp

lemma store_apply_append:
  assumes "store_apply es1 st = (rs1, ts1, st1)" and "store_apply es2 st1 = (rs2, ts2, st2)"
  shows "store_apply (es1 @ es2) st = (rs1 @ rs2, ts1 @ ts2, st2)"
  using assms by (induction es1 arbitrary: st rs1 ts1) (auto split: prod.splits)

text \<open>C14. A replica that catches up from a snapshot answers like one that saw the whole log. A replica
  applies the head of a log and builds a snapshot; another replica, in whatever state, installs it
  and applies the tail. Given a codec that reads back what it wrote, the installation succeeds, and
  the second replica returns the same results, reports the same transitions and ends with the same
  state machine, position and membership as a replica that applied the whole log.\<close>

theorem replicas_converge:
  assumes codec: "\<And>s bs. into_writer s = Some bs \<Longrightarrow> from_reader bs = Some s"
    and head: "store_apply es1 st = (rs1, ts1, st1)"
    and built: "build_snapshot into_writer st1 = (Inr snap, st1')"
    and installed: "install_snapshot from_reader (sd_meta snap) (sd_data snap) behind = (r, caught_up)"
    and tail: "store_apply es2 caught_up = (rs2, ts2, replica)"
  shows "r = Inr () \<and> (\<exists>whole. store_apply (es1 @ es2) st = (rs1 @ rs2, ts1 @ ts2, whole) \<and>
    replica_view replica = replica_view whole)"
proof -
  obtain data where data: "into_writer (snapshot (st_sm st1)) = Some data" "sd_data snap = data"
      "sn_last_log_id (sd_meta snap) = st_last_applied_log st1"
      "sn_last_membership (sd_meta snap) = st_last_membership st1"
    using built by (auto simp: build_snapshot_def Let_def split: option.splits)
  have ok: "r = Inr ()" and view: "replica_view caught_up = replica_view st1"
    using installed codec [OF data(1)] data(2-) sm_ckpt.restore_snap
    by (auto simp: install_snapshot_def replica_view_def applied_state_def)
  obtain rs ts whole where w: "store_apply es2 st1 = (rs, ts, whole)" by (metis prod_cases3)
  have "rs = rs2" "ts = ts2" "replica_view replica = replica_view whole"
    using store_apply_view [OF view, of es2] tail w by simp_all
  with ok store_apply_append [OF head w] show ?thesis by auto
qed

subsection \<open>A concrete log\<close>

definition ex_entry :: "u64 \<Rightarrow> ReplicatedOp \<Rightarrow> LogEntry" where
  "ex_entry i op = \<lparr> en_log_id = \<lparr> li_leader = (1, 1), li_index = i \<rparr>, en_payload = Entry_Normal op \<rparr>"

text \<open>A codec for the one snapshot of the example.\<close>

definition ex_head :: StateMachineStore where
  "ex_head = snd (snd (store_apply [ex_entry 1 (Rep_Register [1] [10] [5])] store_new))"

theorem replicas_converge_witness:
  "\<exists>snap st1' caught_up rs ts replica whole.
    build_snapshot (\<lambda>s. if s = snapshot (st_sm ex_head) then Some [7] else None) ex_head = (Inr snap, st1') \<and>
    install_snapshot (\<lambda>bs. if bs = [7] then Some (snapshot (st_sm ex_head)) else None) (sd_meta snap) (sd_data snap)
      store_new = (Inr (), caught_up) \<and>
    store_apply [ex_entry 2 (Rep_Pin [1] 0 [11])] caught_up = (rs, ts, replica) \<and>
    store_apply [ex_entry 1 (Rep_Register [1] [10] [5]), ex_entry 2 (Rep_Pin [1] 0 [11])] store_new = whole \<and>
    replica_view replica = replica_view (snd (snd whole))"
proof -
  let ?w = "\<lambda>s. if s = snapshot (st_sm ex_head) then Some [7 :: byte] else None"
  let ?r = "\<lambda>bs :: bytes. if bs = [7] then Some (snapshot (st_sm ex_head)) else None"
  obtain rs1 ts1 where head: "store_apply [ex_entry 1 (Rep_Register [1] [10] [5])] store_new = (rs1, ts1, ex_head)"
    by (metis ex_head_def prod.collapse)
  obtain snap st1' where built: "build_snapshot ?w ex_head = (Inr snap, st1')"
    by (simp add: build_snapshot_def Let_def)
  obtain r caught_up where i: "install_snapshot ?r (sd_meta snap) (sd_data snap) store_new = (r, caught_up)" by force
  obtain rs ts replica where t: "store_apply [ex_entry 2 (Rep_Pin [1] 0 [11])] caught_up = (rs, ts, replica)"
    by (metis prod_cases3)
  have codec: "?r bs = Some s" if "?w s = Some bs" for s bs
    using that by (auto split: if_splits)
  from replicas_converge [where into_writer = ?w and from_reader = ?r, OF codec head built i t] built i t
  show ?thesis by auto
qed

end
