(* ===== verification/Raft_Serve.thy ===== *)
theory Raft_Serve
  imports Node Raft_Store
begin

text \<open>
  Serving client requests on the cluster's leader, \<open>synchronizer/src/raft/serve.rs\<close> and the calls of
  \<open>RaftHandle\<close> it makes. The Raft library is the fate of each call: a write commits, with everything
  the leader had logged before it, or no quorum answers in time and it stays in the log, or it is
  refused, which may leave it in the log too when this node just lost its leadership; a read is
  confirmed by a quorum or not. A write left in the log may commit later or be discarded by a new
  leader.
\<close>

datatype WriteFate = Write_Committed | Write_TimedOut | Write_Refused bool

datatype ReadFate = Read_Confirmed | Read_TimedOut | Read_Refused

record RaftHandle =
  rh_sm :: StateMachine
  rh_pending :: "ReplicatedOp list"

definition commit_ops :: "ReplicatedOp list \<Rightarrow> StateMachine \<Rightarrow> StateMachine" where
  "commit_ops ops sm = fold (\<lambda>op sm. snd (apply_one op sm)) ops sm"

definition client_write ::
    "WriteFate \<Rightarrow> ReplicatedOp \<Rightarrow> RaftHandle \<Rightarrow> (RaftHandleError + KeyState) \<times> RaftHandle" where
  "client_write fate op rh =
     (case fate of
        Write_Committed \<Rightarrow>
          (case apply_one op (commit_ops (rh_pending rh) (rh_sm rh)) of
             (data, sm) \<Rightarrow>
               (case data of Applied state \<Rightarrow> Inr state | Rejected e \<Rightarrow> Inl (Rh_Rejected e),
                \<lparr> rh_sm = sm, rh_pending = [] \<rparr>))
      | Write_Refused logged \<Rightarrow>
          (Inl Rh_Raft, if logged then rh\<lparr> rh_pending := rh_pending rh @ [op] \<rparr> else rh)
      | Write_TimedOut \<Rightarrow> (Inl Rh_CommitTimeout, rh\<lparr> rh_pending := rh_pending rh @ [op] \<rparr>))"

definition linearizable_get :: "ReadFate \<Rightarrow> PcrKey \<Rightarrow> RaftHandle \<Rightarrow> RaftHandleError + KeyState option" where
  "linearizable_get fate key rh =
     (case fate of
        Read_Confirmed \<Rightarrow> Inr (sm_get (rh_sm rh) key)
      | Read_Refused \<Rightarrow> Inl Rh_NotLinearizable
      | Read_TimedOut \<Rightarrow> Inl Rh_CommitTimeout)"

text \<open>What the cluster does on its own: the first entries of the leader's uncommitted log commit, or a
  new leader discards them.\<close>

definition late_commit :: "nat \<Rightarrow> RaftHandle \<Rightarrow> RaftHandle" where
  "late_commit n rh =
     \<lparr> rh_sm = commit_ops (take n (rh_pending rh)) (rh_sm rh), rh_pending = drop n (rh_pending rh) \<rparr>"

definition discard_pending :: "nat \<Rightarrow> RaftHandle \<Rightarrow> RaftHandle" where
  "discard_pending n rh = rh\<lparr> rh_pending := take n (rh_pending rh) \<rparr>"

subsection \<open>The handlers\<close>

record Answered =
  an_response :: Response
  an_timed_out :: bool

definition answered :: "Response \<Rightarrow> Answered" where
  "answered response = \<lparr> an_response = response, an_timed_out = False \<rparr>"

definition deadline_elapsed :: Answered where
  "deadline_elapsed = \<lparr> an_response = Resp_Err Rpc_Unavailable, an_timed_out = True \<rparr>"

definition serve_err :: "RpcError \<Rightarrow> Answered" where
  "serve_err error = answered (Resp_Err error)"

definition serve_get :: "ReadFate \<Rightarrow> PcrKey \<Rightarrow> PcrKey \<Rightarrow> RaftHandle \<Rightarrow> Answered \<times> RaftHandle" where
  "serve_get fate session_key key rh =
     (if key \<noteq> session_key then serve_err Rpc_Unauthorized
      else (case linearizable_get fate key rh of
        Inr (Some state) \<Rightarrow> answered (GetOk (ks_commitment state) (ks_version state))
      | Inr None \<Rightarrow> serve_err Rpc_NotFound
      | Inl Rh_CommitTimeout \<Rightarrow> deadline_elapsed
      | Inl _ \<Rightarrow> serve_err Rpc_Unavailable), rh)"

definition serve_register ::
    "WriteFate \<Rightarrow> PcrKey \<Rightarrow> PcrKey \<Rightarrow> Commitment \<Rightarrow> ControlPubkey \<Rightarrow> RaftHandle \<Rightarrow> Answered \<times> RaftHandle" where
  "serve_register fate session_key key commitment pubkey rh =
     (if key \<noteq> session_key then (serve_err Rpc_Unauthorized, rh)
      else (case client_write fate (Rep_Register key commitment pubkey) rh of
        (r, rh') \<Rightarrow>
          (case r of
             Inr _ \<Rightarrow> answered RegisterOk
           | Inl (Rh_Rejected e) \<Rightarrow> serve_err (rpc_error_from e)
           | Inl Rh_CommitTimeout \<Rightarrow> deadline_elapsed
           | Inl _ \<Rightarrow> serve_err Rpc_Unavailable, rh')))"

definition serve_pin ::
    "WriteFate \<Rightarrow> PcrKey \<Rightarrow> PcrKey \<Rightarrow> Version \<Rightarrow> Commitment \<Rightarrow> RaftHandle \<Rightarrow> Answered \<times> RaftHandle" where
  "serve_pin fate session_key key expected_version commitment rh =
     (if key \<noteq> session_key then (serve_err Rpc_Unauthorized, rh)
      else (case client_write fate (Rep_Pin key expected_version commitment) rh of
        (r, rh') \<Rightarrow>
          (case r of
             Inr state \<Rightarrow> answered (PinOk (ks_version state))
           | Inl (Rh_Rejected e) \<Rightarrow> serve_err (rpc_error_from e)
           | Inl Rh_CommitTimeout \<Rightarrow> deadline_elapsed
           | Inl _ \<Rightarrow> serve_err Rpc_Unavailable, rh')))"

definition serve_transition ::
    "'x ChainExt_scheme \<Rightarrow> WriteFate \<Rightarrow> u64 option \<Rightarrow> PcrKey \<Rightarrow> ControlPubkey \<Rightarrow> ChainLink \<Rightarrow> Commitment \<Rightarrow>
      bool \<Rightarrow> RaftHandle \<Rightarrow> Answered \<times> RaftHandle" where
  "serve_transition X fate trusted_now session_key pubkey link commitment debug_mode rh =
     (case decode_transition_link X link of
        Inl _ \<Rightarrow> (serve_err Rpc_TransitionRejected, rh)
      | Inr decoded \<Rightarrow>
     (case sm_get (rh_sm rh) (dt_old_key decoded) of
        None \<Rightarrow> (serve_err Rpc_TransitionRejected, rh)
      | Some old \<Rightarrow>
     (case trusted_now of
        None \<Rightarrow> (serve_err Rpc_Unavailable, rh)
      | Some now_ms \<Rightarrow>
     (case verify_transition_link X link decoded session_key (ks_control_pubkey old) debug_mode now_ms of
        Inl _ \<Rightarrow> (serve_err Rpc_TransitionRejected, rh)
      | Inr verified \<Rightarrow>
          (case client_write fate (Rep_Transition (vt_old_key verified) (vt_new_key verified) pubkey
                   (vt_link_hash verified) (vt_valid_until_ms verified) commitment) rh of
             (r, rh') \<Rightarrow>
               (case r of
                  Inr state \<Rightarrow> answered (TransitionOk (ks_version state))
                | Inl (Rh_Rejected KeyNotCurrent) \<Rightarrow> serve_err Rpc_TransitionRejected
                | Inl (Rh_Rejected e) \<Rightarrow> serve_err (rpc_error_from e)
                | Inl Rh_CommitTimeout \<Rightarrow> deadline_elapsed
                | Inl _ \<Rightarrow> serve_err Rpc_Unavailable, rh'))))))"

definition serve_revoke ::
    "'x ChainExt_scheme \<Rightarrow> WriteFate \<Rightarrow> PcrKey \<Rightarrow> ChainLink \<Rightarrow> RaftHandle \<Rightarrow> Answered \<times> RaftHandle" where
  "serve_revoke X fate session_key link rh =
     (case sm_get (rh_sm rh) session_key of
        None \<Rightarrow> (serve_err Rpc_RevocationRejected, rh)
      | Some state \<Rightarrow>
     (case verify_revocation_link X link (ks_control_pubkey state) of
        Inl _ \<Rightarrow> (serve_err Rpc_RevocationRejected, rh)
      | Inr verified \<Rightarrow>
          (case client_write fate (Rep_Revoke session_key (vr_link_hash verified)) rh of
             (r, rh') \<Rightarrow>
               (case r of
                  Inr _ \<Rightarrow> answered RevokeOk
                | Inl (Rh_Rejected _) \<Rightarrow> serve_err Rpc_RevocationRejected
                | Inl Rh_CommitTimeout \<Rightarrow> deadline_elapsed
                | Inl _ \<Rightarrow> serve_err Rpc_Unavailable, rh'))))"

text \<open>The request with the fates of the Raft calls it may make.\<close>

fun handle_on_leader ::
    "'x ChainExt_scheme \<Rightarrow> ReadFate \<Rightarrow> WriteFate \<Rightarrow> u64 option \<Rightarrow> PcrKey \<Rightarrow> ControlPubkey \<Rightarrow> Request \<Rightarrow> bool \<Rightarrow>
      RaftHandle \<Rightarrow> Answered \<times> RaftHandle" where
  "handle_on_leader X rf wr now session_key pubkey (Req_Get key) debug_mode rh =
     serve_get rf session_key key rh"
| "handle_on_leader X rf wr now session_key pubkey (Req_Register key commitment) debug_mode rh =
     serve_register wr session_key key commitment pubkey rh"
| "handle_on_leader X rf wr now session_key pubkey (Req_Pin key expected_version commitment) debug_mode rh =
     serve_pin wr session_key key expected_version commitment rh"
| "handle_on_leader X rf wr now session_key pubkey (Req_Transition link commitment) debug_mode rh =
     serve_transition X wr now session_key pubkey link commitment debug_mode rh"
| "handle_on_leader X rf wr now session_key pubkey (Req_Revoke link) debug_mode rh =
     serve_revoke X wr session_key link rh"

subsection \<open>The cluster behaves like one node\<close>

text \<open>What clients can tell apart: pins, retired keys and revocations.\<close>

definition same_head :: "StateMachine \<Rightarrow> StateMachine \<Rightarrow> bool" where
  "same_head a b \<longleftrightarrow> sm_state a = sm_state b \<and> sm_retired a = sm_retired b \<and>
     sm_revoked_links a = sm_revoked_links b"

lemma op_head:
  assumes "same_head a b"
  shows "sm_attested b k = Some pk \<Longrightarrow>
      fst (apply_op (Op_Register k c) (observe_attestation k pk a)) = fst (apply_op (Op_Register k c) b) \<and>
      same_head (snd (apply_op (Op_Register k c) (observe_attestation k pk a))) (snd (apply_op (Op_Register k c) b))"
    "fst (apply_op (Op_Pin k v c) a) = fst (apply_op (Op_Pin k v c) b) \<and>
      same_head (snd (apply_op (Op_Pin k v c) a)) (snd (apply_op (Op_Pin k v c) b))"
    "fst (apply_op (Op_Revoke k h) a) = fst (apply_op (Op_Revoke k h) b) \<and>
      same_head (snd (apply_op (Op_Revoke k h) a)) (snd (apply_op (Op_Revoke k h) b))"
    "sm_attested b n = Some pk \<Longrightarrow>
      fst (apply_op (Op_Transition k n h c) (observe_transition k n (observe_attestation n pk a))) =
        fst (apply_op (Op_Transition k n h c) (observe_transition k n b)) \<and>
      same_head (snd (apply_op (Op_Transition k n h c) (observe_transition k n (observe_attestation n pk a))))
        (snd (apply_op (Op_Transition k n h c) (observe_transition k n b)))"
  using assms
  by (auto simp: same_head_def op_defs is_revoked_def Let_def split: option.splits)

lemma apply_one_op:
  "apply_one op sm = (case (case op of
       Rep_Register key commitment pubkey \<Rightarrow> apply_op (Op_Register key commitment) (observe_attestation key pubkey sm)
     | Rep_Pin key expected_version commitment \<Rightarrow> apply_op (Op_Pin key expected_version commitment) sm
     | Rep_Transition old_key new_key new_pubkey link_hash valid_until_ms commitment \<Rightarrow>
         apply_op (Op_Transition old_key new_key link_hash commitment)
           (observe_transition old_key new_key (observe_attestation new_key new_pubkey sm))
     | Rep_Revoke key link_hash \<Rightarrow> apply_op (Op_Revoke key link_hash) sm) of
       (r, sm') \<Rightarrow> (case_sum Rejected Applied r, sm'))"
  by (simp add: apply_one_def case_prod_beta)

lemma write_outcome:
  assumes w: "client_write wr op rh = (r, rh')" "rh_pending rh = []"
    and one: "apply_one op (rh_sm rh) = (case_sum Rejected Applied nr, sm')" and head: "same_head sm' nsm'"
  obtains (committed) "wr = Write_Committed" "r = case_sum (Inl \<circ> Rh_Rejected) Inr nr" "same_head (rh_sm rh') nsm'"
      "rh_pending rh' = []"
  | (unknown) "wr \<noteq> Write_Committed" "r = Inl Rh_Raft \<or> r = Inl Rh_CommitTimeout" "rh_sm rh' = rh_sm rh"
      "rh_pending rh' = [] \<or> length (rh_pending rh') = 1 \<and> same_head (rh_sm (late_commit 1 rh')) nsm'"
proof (cases wr)
  case Write_Committed
  with w one head show thesis
    by (intro committed) (auto simp: client_write_def commit_ops_def split: sum.splits)
next
  case Write_TimedOut
  with w one head show thesis
    by (intro unknown) (auto simp: client_write_def late_commit_def commit_ops_def)
next
  case (Write_Refused logged)
  with w one head show thesis
    by (intro unknown) (auto simp: client_write_def late_commit_def commit_ops_def split: if_splits)
qed

text \<open>The two ways a request on the leader can end, beside what the single node does.\<close>

definition same_outcome :: "Answered \<Rightarrow> RaftHandle \<Rightarrow> Response \<Rightarrow> Node \<Rightarrow> bool" where
  "same_outcome a rh' resp node' \<longleftrightarrow> a = answered resp \<and> same_head (rh_sm rh') (node_inner node') \<and>
     rh_pending rh' = []"

definition unknown_outcome :: "Answered \<Rightarrow> RaftHandle \<Rightarrow> RaftHandle \<Rightarrow> Node \<Rightarrow> bool" where
  "unknown_outcome a rh rh' node' \<longleftrightarrow> an_response a = Resp_Err Rpc_Unavailable \<and> rh_sm rh' = rh_sm rh \<and>
     (rh_pending rh' = [] \<or>
      length (rh_pending rh') = 1 \<and> same_head (rh_sm (late_commit 1 rh')) (node_inner node'))"

lemmas outcome_defs = same_outcome_def unknown_outcome_def answered_def serve_err_def deadline_elapsed_def

lemma write_refines:
  assumes w: "client_write wr op rh = (r, rh')" "rh_pending rh = []"
    and one: "apply_one op (rh_sm rh) = (case_sum Rejected Applied nr, sm')" and head: "same_head sm' nsm'"
    and answer: "\<And>x. ans (Inr x) = answered (resp (Inr x))" "\<And>e. ans (Inl (Rh_Rejected e)) = answered (resp (Inl e))"
      "ans (Inl Rh_Raft) = serve_err Rpc_Unavailable" "ans (Inl Rh_CommitTimeout) = deadline_elapsed"
  shows "(wr = Write_Committed \<longrightarrow> same_outcome (ans r) rh' (resp nr) (node\<lparr> node_inner := nsm' \<rparr>)) \<and>
    (wr \<noteq> Write_Committed \<longrightarrow> unknown_outcome (ans r) rh rh' (node\<lparr> node_inner := nsm' \<rparr>))"
  using w one head
proof (cases rule: write_outcome)
  case committed
  with answer show ?thesis by (cases nr) (simp_all add: same_outcome_def)
next
  case unknown
  with answer show ?thesis by (auto simp: unknown_outcome_def serve_err_def answered_def deadline_elapsed_def)
qed

text \<open>One lemma per handler: what it does beside the single node's.\<close>

lemma register_refines:
  assumes head: "same_head (rh_sm rh) (node_inner node)" "rh_pending rh = []"
    and pk: "sm_attested (node_inner node) session = Some pk"
    and leader: "serve_register wr session key c pk rh = (a, rh')"
    and single: "node_handle_register session key c node = (resp, node')"
  shows "(wr = Write_Committed \<longrightarrow> same_outcome a rh' resp node') \<and>
    (same_outcome a rh' resp node' \<or> unknown_outcome a rh rh' node')"
proof (cases "key = session")
  case False
  with assms show ?thesis by (auto simp: serve_register_def node_handle_register_def outcome_defs)
next
  case True
  obtain r rh1 where w: "client_write wr (Rep_Register key c pk) rh = (r, rh1)" by force
  obtain nr nsm where n: "apply_op (Op_Register key c) (node_inner node) = (nr, nsm)" by force
  obtain sm' where one: "apply_one (Rep_Register key c pk) (rh_sm rh) = (case_sum Rejected Applied nr, sm')"
      and "same_head sm' nsm"
    using op_head(1) [OF head(1), of key pk c] pk n True
    by (cases "apply_op (Op_Register key c) (observe_attestation key pk (rh_sm rh))")
      (simp add: apply_one_op del: apply_op.simps)
  let ?ans = "\<lambda>r. case r of Inr _ \<Rightarrow> answered RegisterOk | Inl (Rh_Rejected e) \<Rightarrow> serve_err (rpc_error_from e)
      | Inl Rh_CommitTimeout \<Rightarrow> deadline_elapsed | Inl _ \<Rightarrow> serve_err Rpc_Unavailable"
  let ?resp = "\<lambda>r. case r of Inr _ \<Rightarrow> RegisterOk | Inl e \<Rightarrow> Resp_Err (rpc_error_from e)"
  have "a = ?ans r" "rh' = rh1" "resp = ?resp nr" "node' = node\<lparr> node_inner := nsm \<rparr>"
    using leader single w n True
    by (auto simp: serve_register_def node_handle_register_def simp del: apply_op.simps split: sum.splits)
  moreover note write_refines [OF w head(2) one \<open>same_head sm' nsm\<close>, of ?ans ?resp node]
  ultimately show ?thesis by (auto simp: serve_err_def)
qed

lemma pin_refines:
  assumes head: "same_head (rh_sm rh) (node_inner node)" "rh_pending rh = []"
    and leader: "serve_pin wr session key v c rh = (a, rh')"
    and single: "node_handle_pin session key v c node = (resp, node')"
  shows "(wr = Write_Committed \<longrightarrow> same_outcome a rh' resp node') \<and>
    (same_outcome a rh' resp node' \<or> unknown_outcome a rh rh' node')"
proof (cases "key = session")
  case False
  with assms show ?thesis by (auto simp: serve_pin_def node_handle_pin_def outcome_defs)
next
  case True
  obtain r rh1 where w: "client_write wr (Rep_Pin key v c) rh = (r, rh1)" by force
  obtain nr nsm where n: "apply_op (Op_Pin key v c) (node_inner node) = (nr, nsm)" by force
  obtain sm' where one: "apply_one (Rep_Pin key v c) (rh_sm rh) = (case_sum Rejected Applied nr, sm')"
      and "same_head sm' nsm"
    using op_head(2) [OF head(1), of key v c] n
    by (cases "apply_op (Op_Pin key v c) (rh_sm rh)") (simp add: apply_one_op del: apply_op.simps)
  let ?ans = "\<lambda>r. case r of Inr st \<Rightarrow> answered (PinOk (ks_version st))
      | Inl (Rh_Rejected e) \<Rightarrow> serve_err (rpc_error_from e)
      | Inl Rh_CommitTimeout \<Rightarrow> deadline_elapsed | Inl _ \<Rightarrow> serve_err Rpc_Unavailable"
  let ?resp = "\<lambda>r. case r of Inr st \<Rightarrow> PinOk (ks_version st) | Inl e \<Rightarrow> Resp_Err (rpc_error_from e)"
  have "a = ?ans r" "rh' = rh1" "resp = ?resp nr" "node' = node\<lparr> node_inner := nsm \<rparr>"
    using leader single w n True
    by (auto simp: serve_pin_def node_handle_pin_def simp del: apply_op.simps split: sum.splits)
  moreover note write_refines [OF w head(2) one \<open>same_head sm' nsm\<close>, of ?ans ?resp node]
  ultimately show ?thesis by (auto simp: serve_err_def)
qed

lemma same_head_get: "same_head a b \<Longrightarrow> sm_get a k = sm_get b k"
  by (simp add: same_head_def sm_get_def)

lemma revoke_refines:
  assumes head: "same_head (rh_sm rh) (node_inner node)" "rh_pending rh = []"
    and leader: "serve_revoke X wr session link rh = (a, rh')"
    and single: "node_handle_revoke X session link node = (resp, node')"
  shows "(wr = Write_Committed \<longrightarrow> same_outcome a rh' resp node') \<and>
    (same_outcome a rh' resp node' \<or> unknown_outcome a rh rh' node')"
proof (cases "\<exists>st v. sm_get (rh_sm rh) session = Some st \<and> verify_revocation_link X link (ks_control_pubkey st) = Inr v")
  case False
  with assms same_head_get [OF head(1), of session] show ?thesis
    by (auto simp: serve_revoke_def node_handle_revoke_def outcome_defs split: option.splits sum.splits)
next
  case True
  then obtain st v where st: "sm_get (rh_sm rh) session = Some st"
      "verify_revocation_link X link (ks_control_pubkey st) = Inr v" by blast
  let ?h = "vr_link_hash v"
  obtain r rh1 where w: "client_write wr (Rep_Revoke session ?h) rh = (r, rh1)" by force
  obtain nr nsm where n: "apply_op (Op_Revoke session ?h) (node_inner node) = (nr, nsm)" by force
  obtain sm' where one: "apply_one (Rep_Revoke session ?h) (rh_sm rh) = (case_sum Rejected Applied nr, sm')"
      and "same_head sm' nsm"
    using op_head(3) [OF head(1), of session ?h] n
    by (cases "apply_op (Op_Revoke session ?h) (rh_sm rh)") (simp add: apply_one_op del: apply_op.simps)
  let ?ans = "\<lambda>r. case r of Inr _ \<Rightarrow> answered RevokeOk
      | Inl (Rh_Rejected e) \<Rightarrow> serve_err Rpc_RevocationRejected
      | Inl Rh_CommitTimeout \<Rightarrow> deadline_elapsed | Inl _ \<Rightarrow> serve_err Rpc_Unavailable"
  let ?resp = "\<lambda>r. case r of Inr _ \<Rightarrow> RevokeOk | Inl (e :: ValidationError) \<Rightarrow> Resp_Err Rpc_RevocationRejected"
  have "a = ?ans r" "rh' = rh1" "resp = ?resp nr" "node' = node\<lparr> node_inner := nsm \<rparr>"
    using leader single w n st same_head_get [OF head(1), of session]
    by (auto simp: serve_revoke_def node_handle_revoke_def simp del: apply_op.simps split: sum.splits)
  moreover note write_refines [OF w head(2) one \<open>same_head sm' nsm\<close>, of ?ans ?resp node]
  ultimately show ?thesis by (auto simp: serve_err_def)
qed

lemma transition_refines:
  assumes head: "same_head (rh_sm rh) (node_inner node)" "rh_pending rh = []"
    and pk: "sm_attested (node_inner node) session = Some pk" and now: "now = Some now_ms"
    and leader: "serve_transition X wr now session pk link c (node_debug_mode node) rh = (a, rh')"
    and single: "node_handle_transition X now session link c node = (resp, node')"
  shows "(wr = Write_Committed \<longrightarrow> same_outcome a rh' resp node') \<and>
    (same_outcome a rh' resp node' \<or> unknown_outcome a rh rh' node')"
proof (cases "\<exists>d old v. decode_transition_link X link = Inr d \<and> sm_get (rh_sm rh) (dt_old_key d) = Some old \<and>
    verify_transition_link X link d session (ks_control_pubkey old) (node_debug_mode node) now_ms = Inr v")
  case False
  with assms same_head_get [OF head(1)] show ?thesis
    by (auto simp: serve_transition_def node_handle_transition_def outcome_defs split: option.splits sum.splits)
next
  case True
  then obtain d old v where pre: "decode_transition_link X link = Inr d" "sm_get (rh_sm rh) (dt_old_key d) = Some old"
      "verify_transition_link X link d session (ks_control_pubkey old) (node_debug_mode node) now_ms = Inr v" by blast
  have key: "vt_new_key v = session"
    using pre(3) by (auto simp: verify_transition_link_Inr)
  let ?op = "Op_Transition (vt_old_key v) session (vt_link_hash v) c"
  let ?rop = "Rep_Transition (vt_old_key v) session pk (vt_link_hash v) (vt_valid_until_ms v) c"
  obtain r rh1 where w: "client_write wr ?rop rh = (r, rh1)" by force
  obtain nr nsm where n: "apply_op ?op (observe_transition (vt_old_key v) session (node_inner node)) = (nr, nsm)" by force
  obtain sm' where one: "apply_one ?rop (rh_sm rh) = (case_sum Rejected Applied nr, sm')" and "same_head sm' nsm"
    using op_head(4) [OF head(1) pk, of "vt_old_key v" "vt_link_hash v" c] n
    by (cases "apply_op ?op (observe_transition (vt_old_key v) session (observe_attestation session pk (rh_sm rh)))")
      (simp add: apply_one_op del: apply_op.simps)
  let ?ans = "\<lambda>r. case r of Inr st \<Rightarrow> answered (TransitionOk (ks_version st))
      | Inl (Rh_Rejected KeyNotCurrent) \<Rightarrow> serve_err Rpc_TransitionRejected
      | Inl (Rh_Rejected e) \<Rightarrow> serve_err (rpc_error_from e)
      | Inl Rh_CommitTimeout \<Rightarrow> deadline_elapsed | Inl _ \<Rightarrow> serve_err Rpc_Unavailable"
  let ?resp = "\<lambda>r. case r of Inr st \<Rightarrow> TransitionOk (ks_version st)
      | Inl KeyNotCurrent \<Rightarrow> Resp_Err Rpc_TransitionRejected | Inl e \<Rightarrow> Resp_Err (rpc_error_from e)"
  have "a = ?ans r" "rh' = rh1"
    using leader w pre now key by (auto simp: serve_transition_def)
  moreover have "resp = ?resp nr" "node' = node\<lparr> node_inner := nsm \<rparr>"
    using single n pre now key same_head_get [OF head(1), of "dt_old_key d"]
    by (auto simp: node_handle_transition_def Let_def simp del: apply_op.simps split: sum.splits ValidationError.splits)
  moreover have "?ans (Inl (Rh_Rejected e)) = answered (?resp (Inl e))" for e
    by (cases e) (simp_all add: serve_err_def)
  moreover note write_refines [OF w head(2) one \<open>same_head sm' nsm\<close>, of ?ans ?resp node]
  ultimately show ?thesis by auto
qed

lemma get_refines:
  assumes "same_head (rh_sm rh) (node_inner node)" "rh_pending rh = []"
    and "serve_get rd session key rh = (a, rh')" and "node_handle_get session key node = (resp, node')"
  shows "(rd = Read_Confirmed \<longrightarrow> same_outcome a rh' resp node') \<and>
    (same_outcome a rh' resp node' \<or> unknown_outcome a rh rh' node')"
  using assms same_head_get [of "rh_sm rh" "node_inner node" key]
  by (cases rd) (auto simp: serve_get_def node_handle_get_def linearizable_get_def outcome_defs
    split: if_splits option.splits)

text \<open>Without trusted time the two read their inputs in a different order: the node asks for the time first, the
  leader after it has decoded the link and looked the predecessor up.\<close>

lemma timeless_transition:
  assumes "serve_transition X wr None session pk link c debug_mode rh = (a, rh')"
    and "node_handle_transition X None session link c node = (resp, node')"
  shows "resp = Resp_Err Rpc_Unavailable \<and> node' = node \<and> rh' = rh \<and>
    a = serve_err (if \<exists>d old. decode_transition_link X link = Inr d \<and> sm_get (rh_sm rh) (dt_old_key d) = Some old
      then Rpc_Unavailable else Rpc_TransitionRejected)"
  using assms by (auto simp: serve_transition_def node_handle_transition_def split: sum.splits option.splits)

text \<open>C7. The cluster's leader serves what the single node serves. Let a leader with nothing pending and a single node
  agree on pins, retirements and revocations, with the session attested at the node. For every request other than a
  Transition without trusted time: when Raft confirms the call, the leader gives the node's answer and the two agree
  again; when it does not, the leader either still gives the node's answer (the request was refused before any call) or
  answers \<open>Unavailable\<close>, having changed nothing it has applied, and what the log then holds is at most this one
  operation, whose later commit makes the leader agree with the node that has served the request. A Transition without
  trusted time changes neither of them, and there the answers differ: the node always answers \<open>Unavailable\<close>, the
  leader does so only if the link decodes and its predecessor is registered, and otherwise answers
  \<open>TransitionRejected\<close>.\<close>

theorem replicated_serving_refines_node:
  assumes head: "same_head (rh_sm rh) (node_inner node)" "rh_pending rh = []"
    and pk: "sm_attested (node_inner node) session = Some pk"
    and leader: "handle_on_leader X rd wr now session pk req (node_debug_mode node) rh = (a, rh')"
    and single: "node_handle_request X now session req node = (resp, node')"
  shows "case (req, now) of
      (Req_Transition link c, None) \<Rightarrow> resp = Resp_Err Rpc_Unavailable \<and> node' = node \<and> rh' = rh \<and>
        a = serve_err (if \<exists>d old. decode_transition_link X link = Inr d \<and> sm_get (rh_sm rh) (dt_old_key d) = Some old
          then Rpc_Unavailable else Rpc_TransitionRejected)
    | _ \<Rightarrow> (rd = Read_Confirmed \<and> wr = Write_Committed \<longrightarrow> same_outcome a rh' resp node') \<and>
        (same_outcome a rh' resp node' \<or> unknown_outcome a rh rh' node')"
proof (cases req)
  case (Req_Get key)
  with get_refines [OF head] leader single show ?thesis by simp
next
  case (Req_Register key c)
  with register_refines [OF head pk] leader single show ?thesis by simp
next
  case (Req_Pin key v c)
  with pin_refines [OF head] leader single show ?thesis by simp
next
  case (Req_Transition link c)
  show ?thesis
  proof (cases now)
    case None
    with timeless_transition [of X wr session pk link c _ rh a rh' node resp node'] Req_Transition leader single
    show ?thesis by simp
  next
    case (Some now_ms)
    with transition_refines [OF head pk Some, of X wr link c a rh' resp node'] Req_Transition leader single
    show ?thesis by simp
  qed
next
  case (Req_Revoke link)
  with revoke_refines [OF head, of X wr session link a rh' resp node'] leader single show ?thesis by simp
qed

subsection \<open>Runs of the cluster\<close>

text \<open>Everything that happens to a cluster: requests of all sessions with the fates of their calls, late
  commits and discards.\<close>

datatype ClusterInput =
    Ci_Request ReadFate WriteFate "u64 option" PcrKey ControlPubkey Request bool
  | Ci_Commit nat
  | Ci_Discard nat

fun cluster_step :: "'x ChainExt_scheme \<Rightarrow> ClusterInput \<Rightarrow> RaftHandle \<Rightarrow> RaftHandle" where
  "cluster_step X (Ci_Request rd wr now session pk req debug_mode) rh =
     snd (handle_on_leader X rd wr now session pk req debug_mode rh)"
| "cluster_step X (Ci_Commit n) rh = late_commit n rh"
| "cluster_step X (Ci_Discard n) rh = discard_pending n rh"

lemma commit_ops_inputs: "commit_ops ops sm = sm_run (concat (map op_inputs ops)) sm"
  by (induction ops arbitrary: sm) (simp_all add: commit_ops_def apply_one_inputs)

lemma op_inputs_le_3: "length (op_inputs op) \<le> 3"
  by (cases op) simp_all

lemma ops_inputs_bounded: "length (concat (map op_inputs ops)) \<le> 3 * length ops"
  by (induction ops) (use op_inputs_le_3 in \<open>auto intro: add_mono\<close>)

text \<open>A step commits operations taken from the log or just asked for, and each at most once.\<close>

definition log_bounded :: "nat \<Rightarrow> RaftHandle \<Rightarrow> RaftHandle \<Rightarrow> bool" where
  "log_bounded n rh rh' \<longleftrightarrow> (\<exists>ops. rh_sm rh' = commit_ops ops (rh_sm rh) \<and>
     length ops + length (rh_pending rh') \<le> length (rh_pending rh) + n)"

lemma commit_ops_append: "commit_ops (a @ b) sm = commit_ops b (commit_ops a sm)"
  by (simp add: commit_ops_def)

lemma log_bounded_refl [simp]: "log_bounded n rh rh"
  unfolding log_bounded_def by (rule exI [of _ "[]"]) (simp add: commit_ops_def)

lemma log_bounded_trans:
  assumes "log_bounded m a b" "log_bounded n b c"
  shows "log_bounded (m + n) a c"
proof -
  from assms obtain o1 o2 where
    "rh_sm b = commit_ops o1 (rh_sm a)" "length o1 + length (rh_pending b) \<le> length (rh_pending a) + m"
    "rh_sm c = commit_ops o2 (rh_sm b)" "length o2 + length (rh_pending c) \<le> length (rh_pending b) + n"
    by (auto simp: log_bounded_def)
  then show ?thesis
    unfolding log_bounded_def by (intro exI [of _ "o1 @ o2"]) (simp add: commit_ops_append)
qed

lemma client_write_bounded:
  assumes "client_write wr op rh = (r, rh')"
  shows "log_bounded 1 rh rh'"
proof (cases wr)
  case Write_Committed
  with assms have "rh_sm rh' = commit_ops (rh_pending rh @ [op]) (rh_sm rh)" "rh_pending rh' = []"
    by (auto simp: client_write_def commit_ops_append commit_ops_def split: prod.splits)
  then show ?thesis
    unfolding log_bounded_def by (intro exI [of _ "rh_pending rh @ [op]"]) simp
next
  case Write_TimedOut
  with assms show ?thesis
    unfolding log_bounded_def by (intro exI [of _ "[]"]) (auto simp: client_write_def commit_ops_def)
next
  case (Write_Refused logged)
  with assms show ?thesis
    unfolding log_bounded_def by (intro exI [of _ "[]"]) (auto simp: client_write_def commit_ops_def split: if_splits)
qed

lemma handle_on_leader_bounded: "log_bounded 1 rh (snd (handle_on_leader X rd wr now s pk req dbg rh))"
proof -
  have "snd (handle_on_leader X rd wr now s pk req dbg rh) = rh \<or>
      (\<exists>op. snd (handle_on_leader X rd wr now s pk req dbg rh) = snd (client_write wr op rh))"
    by (cases req) (auto simp: serve_get_def serve_register_def serve_pin_def serve_transition_def
      serve_revoke_def case_prod_beta split: option.splits sum.splits)
  then show ?thesis
    using client_write_bounded by (metis log_bounded_refl prod.collapse)
qed

lemma cluster_step_bounded: "log_bounded 1 rh (cluster_step X i rh)"
proof (cases i)
  case (Ci_Commit n)
  then show ?thesis
    unfolding log_bounded_def
    by (intro exI [of _ "take n (rh_pending rh)"]) (auto simp: late_commit_def)
next
  case (Ci_Discard n)
  then show ?thesis
    unfolding log_bounded_def by (intro exI [of _ "[]"]) (simp add: discard_pending_def commit_ops_def)
qed (use handle_on_leader_bounded in simp)

lemma cluster_run_bounded: "log_bounded (length is) rh (fold (cluster_step X) is rh)"
proof (induction "is" arbitrary: rh)
  case (Cons i "is")
  from log_bounded_trans [OF cluster_step_bounded [of rh X i] Cons] show ?case by simp
qed simp

text \<open>What a \<open>PinOk\<close> of the leader says.\<close>

lemma leader_pin_ok:
  assumes "serve_pin wr s k v c rh = (a, rh')" and "an_response a = PinOk v'"
  obtains sm st where "sm = commit_ops (rh_pending rh) (rh_sm rh)" "apply_op (Op_Pin k v c) sm = (Inr st, rh_sm rh')"
    "v' = ks_version st" "rh_pending rh' = []" "wr = Write_Committed" "k = s"
proof -
  let ?sm = "commit_ops (rh_pending rh) (rh_sm rh)"
  have "wr = Write_Committed" "k = s"
    using assms by (cases wr; auto simp: serve_pin_def client_write_def serve_err_def deadline_elapsed_def
      answered_def split: if_splits)+
  moreover obtain r sm' where "apply_op (Op_Pin k v c) ?sm = (r, sm')" by force
  ultimately show thesis
    using assms that by (cases r) (auto simp: serve_pin_def client_write_def apply_one_op serve_err_def
      answered_def simp del: apply_op.simps)
qed

text \<open>C6. The cluster's pins do not fork. From any good state, with writes of earlier requests possibly
  still in the log: once the leader has answered \<open>PinOk\<close> to a Pin against version \<open>v\<close>, no Pin of that key
  against \<open>v\<close> is ever answered \<open>PinOk\<close> again, whatever requests, timeouts, late commits and discarded
  writes happen in between (fewer than \<open>2 ^ 62\<close> of them, as the version is a 64-bit counter). A pin
  that timed out counts as well: when it commits late, it is the one that spends the version.\<close>

theorem cluster_pins_do_not_fork:
  assumes inv: "sm_inv (rh_sm rh)"
    and first: "handle_on_leader X rd wr now k pk (Req_Pin k v c) dbg rh = (a, rh1)" "an_response a = PinOk v'"
    and short: "length is < 2 ^ 62"
    and later: "handle_on_leader X rd' wr' now' s pk' (Req_Pin k v c') dbg' (fold (cluster_step X) is rh1) = (b, rh2)"
  shows "an_response b \<noteq> PinOk v''"
proof
  assume b: "an_response b = PinOk v''"
  let ?rh = "fold (cluster_step X) is rh1"
  from first obtain sm st where sm: "sm = commit_ops (rh_pending rh) (rh_sm rh)"
      "apply_op (Op_Pin k v c) sm = (Inr st, rh_sm rh1)" "rh_pending rh1 = []"
    by (auto elim: leader_pin_ok)
  from later b obtain st' where st': "apply_op (Op_Pin k v c') (commit_ops (rh_pending ?rh) (rh_sm ?rh)) = (Inr st', rh_sm rh2)"
    by (auto elim: leader_pin_ok)
  from cluster_run_bounded [of "is" rh1 X] obtain ops where ops: "rh_sm ?rh = commit_ops ops (rh_sm rh1)"
      "length ops + length (rh_pending ?rh) \<le> length is"
    using sm(3) by (auto simp: log_bounded_def)
  let ?is = "concat (map op_inputs (ops @ rh_pending ?rh))"
  have "commit_ops (rh_pending ?rh) (rh_sm ?rh) = sm_run ?is (rh_sm rh1)"
    unfolding ops(1) commit_ops_append [symmetric] by (rule commit_ops_inputs)
  moreover have "length ?is < 2 ^ 64 - 1"
    using ops_inputs_bounded [of "ops @ rh_pending ?rh"] ops(2) short by simp
  moreover have "sm_inv sm"
    unfolding sm(1) commit_ops_inputs by (rule sm.run_inv [OF inv])
  ultimately show False
    using pinned_version_is_spent [OF _ sm(2), of ?is c'] st' by (simp del: apply_op.simps)
qed

subsection \<open>A concrete leader\<close>

text \<open>A leader in the state of the example node.\<close>

definition ex_rh :: RaftHandle where
  "ex_rh = \<lparr> rh_sm = node_inner ex_node, rh_pending = [] \<rparr>"

theorem replicated_serving_refines_node_witness:
  "let serve = (\<lambda>now link. handle_on_leader ex_chain Read_Confirmed Write_Committed now ex_k2 [6]
         (Req_Transition link [10]) False ex_rh);
       revocation = rl_link (ex_signed Revocation RevocationPayloadDomain [4])
   in fst (serve (Some 1000) ex_upgrade_link) = answered (TransitionOk 0) \<and>
      rh_pending (snd (serve (Some 1000) ex_upgrade_link)) = [] \<and>
      serve None revocation = (serve_err Rpc_TransitionRejected, ex_rh) \<and>
      node_handle_request ex_chain None ex_k2 (Req_Transition revocation [10]) ex_node = (Resp_Err Rpc_Unavailable, ex_node)"
proof -
  let ?serve = "\<lambda>now link. handle_on_leader ex_chain Read_Confirmed Write_Committed now ex_k2 [6]
    (Req_Transition link [10]) False ex_rh"
  let ?revocation = "rl_link (ex_signed Revocation RevocationPayloadDomain [4])"
  have start: "same_head (rh_sm ex_rh) (node_inner ex_node)" "rh_pending ex_rh = []"
      "sm_attested (node_inner ex_node) ex_k2 = Some [6]" "node_debug_mode ex_node = False"
    by (simp_all add: ex_rh_def same_head_def ex_node_eval)
  obtain a rh' where l: "?serve (Some 1000) ex_upgrade_link = (a, rh')" by force
  obtain resp node' where n: "node_handle_request ex_chain (Some 1000) ex_k2 (Req_Transition ex_upgrade_link [10]) ex_node =
      (resp, node')" by force
  have "same_outcome a rh' resp node'"
    using replicated_serving_refines_node [OF start(1-3) _ n, of Read_Confirmed Write_Committed a rh'] start(4) l by simp
  moreover have "resp = TransitionOk 0" using ex_node_transition n by simp
  moreover obtain b rh2 where l2: "?serve None ?revocation = (b, rh2)" by force
  moreover obtain resp2 node2 where n2: "node_handle_request ex_chain None ex_k2 (Req_Transition ?revocation [10]) ex_node =
      (resp2, node2)" by force
  moreover have "decode_transition_link ex_chain ?revocation = Inl (TL_NotAnUpgradeLink Revocation)" by code_simp
  then have "resp2 = Resp_Err Rpc_Unavailable \<and> node2 = ex_node \<and> rh2 = ex_rh \<and> b = serve_err Rpc_TransitionRejected"
    using replicated_serving_refines_node [OF start(1-3) _ n2, of Read_Confirmed Write_Committed b rh2] start(4) l2 by simp
  ultimately show ?thesis
    unfolding Let_def l l2 n2 by (simp add: same_outcome_def)
qed

theorem cluster_pins_do_not_fork_witness:
  "let pin = (\<lambda>wr c rh. handle_on_leader ex_chain Read_Confirmed wr None ex_k1 [5] (Req_Pin ex_k1 0 c) False rh);
       (a, rh1) = pin Write_Committed [11] ex_rh;
       rh2 = fold (cluster_step ex_chain)
         [Ci_Request Read_Confirmed Write_TimedOut None ex_k1 [5] (Req_Pin ex_k1 0 [12]) False, Ci_Commit 1] rh1
   in an_response a = PinOk 1 \<and> an_response (fst (pin Write_Committed [13] rh2)) \<noteq> PinOk 1"
proof -
  let ?pin = "\<lambda>wr c rh. handle_on_leader ex_chain Read_Confirmed wr None ex_k1 [5] (Req_Pin ex_k1 0 c) False rh"
  let ?is = "[Ci_Request Read_Confirmed Write_TimedOut None ex_k1 [5] (Req_Pin ex_k1 0 [12]) False, Ci_Commit 1]"
  obtain a rh1 where f: "?pin Write_Committed [11] ex_rh = (a, rh1)" by force
  obtain b rh3 where l: "?pin Write_Committed [13] (fold (cluster_step ex_chain) ?is rh1) = (b, rh3)" by force
  have inv: "sm_inv (rh_sm ex_rh)"
    using ex_node_inv by (simp add: ex_rh_def node_inv_def)
  have a: "an_response a = PinOk 1"
    using f by (auto simp: serve_pin_def client_write_def commit_ops_def apply_one_op apply_pin_def ex_rh_def
      ex_node_eval answered_def Let_def)
  have "length ?is < 2 ^ 62" by simp
  from cluster_pins_do_not_fork [OF inv f a this l] a f l show ?thesis
    unfolding Let_def by (simp del: handle_on_leader.simps cluster_step.simps)
qed

end
