(* ===== verification/Raft_Forward.thy ===== *)
theory Raft_Forward
  imports Raft_Serve
begin

text \<open>
  Routing a client request to the leader, \<open>synchronizer/src/raft/forward.rs\<close>, and the leader's side of
  a forwarded request (\<open>serve_forwarded\<close> in \<open>raft/network.rs\<close>). What the mesh and the election do to
  each pass of the retry loop is an input: who leads, whether the call arrives, whether its reply
  comes back, and how the leader's Raft calls end.
\<close>

definition FORWARD_MAX_RETRIES :: nat where
  "FORWARD_MAX_RETRIES = 60"

definition is_retryable :: "Answered \<Rightarrow> bool" where
  "is_retryable a \<longleftrightarrow> \<not> an_timed_out a \<and> an_response a = Resp_Err Rpc_Unavailable"

record LeaderCalls =
  lc_read :: ReadFate
  lc_write :: WriteFate
  lc_now :: "u64 option"
  lc_debug_mode :: bool

text \<open>The forwarder's request as the leader serves it: \<open>installed\<close> says whether the serve path is set up,
  \<open>peer_pubkey\<close> is the instance key the mesh channel attested.\<close>

definition serve_forwarded ::
    "'x ChainExt_scheme \<Rightarrow> bool \<Rightarrow> Voters \<Rightarrow> bytes \<Rightarrow> LeaderCalls \<Rightarrow> PcrKey \<Rightarrow> ControlPubkey \<Rightarrow> Request \<Rightarrow>
      RaftHandle \<Rightarrow> Answered \<times> RaftHandle" where
  "serve_forwarded X installed voters peer_pubkey calls session_key pubkey req rh =
     (if \<not> installed then (answered (Resp_Err Rpc_Unavailable), rh)
      else if instance_node_id X peer_pubkey \<notin> fst ` set voters then (answered (Resp_Err Rpc_Unavailable), rh)
      else handle_on_leader X (lc_read calls) (lc_write calls) (lc_now calls) session_key pubkey req
             (lc_debug_mode calls) rh)"

datatype Forwarded = Fwd_Answer Answered | Fwd_Failed | Fwd_TimedOut

text \<open>A reply arrives as it was sent, is lost to a transport or codec failure, or comes after the call's
  timeout; a call that never reaches the leader fails or times out.\<close>

datatype ReplyFate = Reply_Delivered | Reply_Lost | Reply_Late

datatype CallFate =
    Call_Lost
  | Call_Late
  | Call_Served bool Voters LeaderCalls ReplyFate

definition forward_to ::
    "'x ChainExt_scheme \<Rightarrow> bytes \<Rightarrow> CallFate \<Rightarrow> PcrKey \<Rightarrow> ControlPubkey \<Rightarrow> Request \<Rightarrow> RaftHandle \<Rightarrow>
      Forwarded \<times> RaftHandle" where
  "forward_to X self_pubkey fate session_key pubkey req rh =
     (case fate of
        Call_Lost \<Rightarrow> (Fwd_Failed, rh)
      | Call_Late \<Rightarrow> (Fwd_TimedOut, rh)
      | Call_Served installed voters calls reply \<Rightarrow>
          (case serve_forwarded X installed voters self_pubkey calls session_key pubkey req rh of
             (a, rh') \<Rightarrow>
               (case reply of
                  Reply_Delivered \<Rightarrow> Fwd_Answer a
                | Reply_Lost \<Rightarrow> Fwd_Failed
                | Reply_Late \<Rightarrow> Fwd_TimedOut, rh')))"

text \<open>One pass of the loop. Before it, entries left in the log by earlier passes may have committed or
  been discarded.\<close>

datatype RouteView = This_Leads LeaderCalls | Leader_Known CallFate | No_Leader

record Pass =
  ps_commit :: nat
  ps_keep :: nat
  ps_view :: RouteView

definition route_pass ::
    "'x ChainExt_scheme \<Rightarrow> bytes \<Rightarrow> Pass \<Rightarrow> PcrKey \<Rightarrow> ControlPubkey \<Rightarrow> Request \<Rightarrow> RaftHandle \<Rightarrow>
      Answered option \<times> RaftHandle" where
  "route_pass X self_pubkey pass session_key pubkey req rh =
     (let rh = discard_pending (ps_keep pass) (late_commit (ps_commit pass) rh)
      in case ps_view pass of
           This_Leads calls \<Rightarrow>
             (case handle_on_leader X (lc_read calls) (lc_write calls) (lc_now calls) session_key pubkey req
                     (lc_debug_mode calls) rh of
                (a, rh') \<Rightarrow> (if is_retryable a then None else Some a, rh'))
         | Leader_Known fate \<Rightarrow>
             (case forward_to X self_pubkey fate session_key pubkey req rh of
                (fwd, rh') \<Rightarrow>
                  (case fwd of
                     Fwd_Answer a \<Rightarrow> if is_retryable a then None else Some a
                   | Fwd_Failed \<Rightarrow> None
                   | Fwd_TimedOut \<Rightarrow> Some deadline_elapsed, rh'))
         | No_Leader \<Rightarrow> (None, rh))"

fun route_passes ::
    "'x ChainExt_scheme \<Rightarrow> bytes \<Rightarrow> PcrKey \<Rightarrow> ControlPubkey \<Rightarrow> Request \<Rightarrow> Pass list \<Rightarrow> RaftHandle \<Rightarrow>
      Answered option \<times> RaftHandle" where
  "route_passes X self_pubkey session_key pubkey req [] rh = (None, rh)"
| "route_passes X self_pubkey session_key pubkey req (pass # passes) rh =
     (case route_pass X self_pubkey pass session_key pubkey req rh of
        (Some a, rh') \<Rightarrow> (Some a, rh')
      | (None, rh') \<Rightarrow> route_passes X self_pubkey session_key pubkey req passes rh')"

definition route_with_retries ::
    "'x ChainExt_scheme \<Rightarrow> bytes \<Rightarrow> PcrKey \<Rightarrow> ControlPubkey \<Rightarrow> Request \<Rightarrow> (nat \<Rightarrow> Pass) \<Rightarrow> RaftHandle \<Rightarrow>
      Answered \<times> RaftHandle" where
  "route_with_retries X self_pubkey session_key pubkey req env rh =
     (case route_passes X self_pubkey session_key pubkey req (map env [0..<FORWARD_MAX_RETRIES]) rh of
        (Some a, rh') \<Rightarrow> (a, rh')
      | (None, rh') \<Rightarrow> (answered (Resp_Err Rpc_Unavailable), rh'))"

text \<open>The overall deadline: \<open>None\<close> when it does not strike, \<open>Some (n, started)\<close> when it strikes after \<open>n\<close>
  passes, with the next one already under way when \<open>started\<close>.\<close>

definition route_client_request ::
    "'x ChainExt_scheme \<Rightarrow> bytes \<Rightarrow> (nat \<times> bool) option \<Rightarrow> PcrKey \<Rightarrow> ControlPubkey \<Rightarrow> Request \<Rightarrow>
      (nat \<Rightarrow> Pass) \<Rightarrow> RaftHandle \<Rightarrow> Answered \<times> RaftHandle" where
  "route_client_request X self_pubkey deadline session_key pubkey req env rh =
     (case deadline of
        None \<Rightarrow> route_with_retries X self_pubkey session_key pubkey req env rh
      | Some (n, started) \<Rightarrow>
          let passes = map env [0..<min n FORWARD_MAX_RETRIES]
          in (case route_passes X self_pubkey session_key pubkey req passes rh of
                (Some a, rh') \<Rightarrow> (a, rh')
              | (None, rh') \<Rightarrow>
                  (deadline_elapsed,
                   if started \<and> n < FORWARD_MAX_RETRIES
                   then snd (route_pass X self_pubkey (env n) session_key pubkey req rh') else rh')))"

subsection \<open>Repeating a write\<close>

text \<open>The operation a request can put into the log.\<close>

definition request_op :: "'x ChainExt_scheme \<Rightarrow> PcrKey \<Rightarrow> ControlPubkey \<Rightarrow> Request \<Rightarrow> ReplicatedOp option" where
  "request_op X session pk req =
     (case req of
        Req_Get key \<Rightarrow> None
      | Req_Register key c \<Rightarrow> Some (Rep_Register key c pk)
      | Req_Pin key v c \<Rightarrow> Some (Rep_Pin key v c)
      | Req_Transition link c \<Rightarrow>
          (case decode_upgrade X (cl_payload link) of
             Inl _ \<Rightarrow> None
           | Inr u \<Rightarrow> Some (Rep_Transition (pin_key (sha256 X) (up_from u)) session pk (sha256 X (cl_payload link))
               (timestamp_millis (up_valid_until u)) c))
      | Req_Revoke link \<Rightarrow>
          (case decode_revocation X (cl_payload link) of
             Inl _ \<Rightarrow> None
           | Inr p \<Rightarrow> Some (Rep_Revoke session (rp_revokes_link p))))"

text \<open>Acknowledged writes.\<close>

fun is_ack :: "Response \<Rightarrow> bool" where
  "is_ack RegisterOk = True"
| "is_ack (PinOk _) = True"
| "is_ack (TransitionOk _) = True"
| "is_ack RevokeOk = True"
| "is_ack _ = False"

lemma handle_on_leader_cases:
  assumes "handle_on_leader X rd wr now s pk req dbg rh = (a, rh')"
  obtains (no_write) "rh' = rh" "\<not> is_ack (an_response a)"
  | (wrote) op r where "request_op X s pk req = Some op" "client_write wr op rh = (r, rh')"
      "is_ack (an_response a) \<Longrightarrow> \<exists>st. r = Inr st"
proof (cases req)
  case (Req_Get k)
  with assms show thesis
    by (intro no_write) (auto simp: serve_get_def serve_err_def answered_def deadline_elapsed_def
      linearizable_get_def split: if_splits option.splits ReadFate.splits)
next
  case (Req_Register k c)
  obtain r rh1 where w: "client_write wr (Rep_Register k c pk) rh = (r, rh1)" by force
  show thesis
  proof (cases "k = s")
    case True
    with assms w Req_Register show thesis
      by (intro wrote [of "Rep_Register k c pk" r])
        (auto simp: serve_register_def serve_err_def answered_def deadline_elapsed_def request_op_def
          split: sum.splits RaftHandleError.splits)
  qed (use assms Req_Register no_write in \<open>auto simp: serve_register_def serve_err_def answered_def\<close>)
next
  case (Req_Pin k v c)
  obtain r rh1 where w: "client_write wr (Rep_Pin k v c) rh = (r, rh1)" by force
  show thesis
  proof (cases "k = s")
    case True
    with assms w Req_Pin show thesis
      by (intro wrote [of "Rep_Pin k v c" r])
        (auto simp: serve_pin_def serve_err_def answered_def deadline_elapsed_def request_op_def
          split: sum.splits RaftHandleError.splits)
  qed (use assms Req_Pin no_write in \<open>auto simp: serve_pin_def serve_err_def answered_def\<close>)
next
  case (Req_Transition link c)
  show thesis
  proof (cases "\<exists>d old now_ms v. decode_transition_link X link = Inr d \<and> sm_get (rh_sm rh) (dt_old_key d) = Some old \<and>
      now = Some now_ms \<and> verify_transition_link X link d s (ks_control_pubkey old) dbg now_ms = Inr v")
    case False
    with assms Req_Transition show thesis
      by (intro no_write) (auto simp: serve_transition_def serve_err_def answered_def split: option.splits sum.splits)
  next
    case True
    then obtain d old now_ms v where pre: "decode_transition_link X link = Inr d"
        "sm_get (rh_sm rh) (dt_old_key d) = Some old" "now = Some now_ms"
        "verify_transition_link X link d s (ks_control_pubkey old) dbg now_ms = Inr v" by blast
    let ?op = "Rep_Transition (vt_old_key v) (vt_new_key v) pk (vt_link_hash v) (vt_valid_until_ms v) c"
    obtain r rh1 where w: "client_write wr ?op rh = (r, rh1)" by force
    have "request_op X s pk req = Some ?op"
      using pre(1,4) Req_Transition
      by (auto simp: request_op_def decode_transition_link_Inr verify_transition_link_Inr)
    with assms pre w Req_Transition show thesis
      by (intro wrote [of ?op r])
        (auto simp: serve_transition_def serve_err_def answered_def deadline_elapsed_def
          split: sum.splits RaftHandleError.splits ValidationError.splits)
  qed
next
  case (Req_Revoke link)
  show thesis
  proof (cases "\<exists>st v. sm_get (rh_sm rh) s = Some st \<and> verify_revocation_link X link (ks_control_pubkey st) = Inr v")
    case False
    with assms Req_Revoke show thesis
      by (intro no_write) (auto simp: serve_revoke_def serve_err_def answered_def split: option.splits sum.splits)
  next
    case True
    then obtain st v where pre: "sm_get (rh_sm rh) s = Some st"
        "verify_revocation_link X link (ks_control_pubkey st) = Inr v" by blast
    obtain r rh1 where w: "client_write wr (Rep_Revoke s (vr_link_hash v)) rh = (r, rh1)" by force
    have "request_op X s pk req = Some (Rep_Revoke s (vr_link_hash v))"
      using pre(2) Req_Revoke by (auto simp: request_op_def verify_revocation_link_Inr)
    with assms pre w Req_Revoke show thesis
      by (intro wrote [of "Rep_Revoke s (vr_link_hash v)" r])
        (auto simp: serve_revoke_def serve_err_def answered_def deadline_elapsed_def
          split: sum.splits RaftHandleError.splits)
  qed
qed

text \<open>Applying an operation again changes nothing: a repeated pin meets a moved version, a repeated
  registration or transition a key that is there or gone, and a repeated revocation adds what is in
  the set.\<close>

lemma apply_one_idem: "snd (apply_one op (snd (apply_one op sm))) = snd (apply_one op sm)"
proof (cases op)
  case (Rep_Pin k v c)
  then show ?thesis
    by (cases "sm_state sm k") (auto simp: apply_one_op apply_pin_def Let_def)
qed (auto simp: apply_one_op op_defs is_revoked_def Let_def split: option.splits)

lemma commit_ops_Nil [simp]: "commit_ops [] sm = sm"
  by (simp add: commit_ops_def)

lemma commit_ops_replicate: "commit_ops (replicate n op) sm = (if n = 0 then sm else snd (apply_one op sm))"
proof (induction n arbitrary: sm)
  case (Suc n)
  then show ?case by (cases n) (simp_all add: commit_ops_def apply_one_idem)
qed (simp add: commit_ops_def)

text \<open>The states a cluster can be in while one operation is tried over and over.\<close>

definition tried :: "ReplicatedOp option \<Rightarrow> StateMachine \<Rightarrow> RaftHandle \<Rightarrow> bool" where
  "tried opt sm rh \<longleftrightarrow> (case opt of
     None \<Rightarrow> rh_sm rh = sm \<and> rh_pending rh = []
   | Some op \<Rightarrow> (rh_sm rh = sm \<or> rh_sm rh = snd (apply_one op sm)) \<and> (\<exists>n. rh_pending rh = replicate n op))"

definition applied_once :: "ReplicatedOp option \<Rightarrow> StateMachine \<Rightarrow> StateMachine" where
  "applied_once opt sm = (case opt of None \<Rightarrow> sm | Some op \<Rightarrow> snd (apply_one op sm))"

lemma late_commit_tried:
  assumes "tried opt sm rh"
  shows "tried opt sm (late_commit n rh)"
  using assms
  by (auto simp: tried_def late_commit_def commit_ops_replicate apply_one_idem take_replicate drop_replicate
    split: option.splits if_splits)

lemma discard_tried: "tried opt sm rh \<Longrightarrow> tried opt sm (discard_pending n rh)"
  by (auto simp: tried_def discard_pending_def take_replicate split: option.splits)

lemma client_write_tried:
  assumes t: "tried (Some op) sm rh" and w: "client_write wr op rh = (r, rh')"
  shows "tried (Some op) sm rh'" and "r = Inr st \<Longrightarrow> rh_sm rh' = snd (apply_one op sm)"
proof -
  obtain n where n: "rh_pending rh = replicate n op" and sm: "rh_sm rh = sm \<or> rh_sm rh = snd (apply_one op sm)"
    using t by (auto simp: tried_def)
  have once: "snd (apply_one op (commit_ops (rh_pending rh) (rh_sm rh))) = snd (apply_one op sm)"
    using sm by (auto simp: n commit_ops_replicate apply_one_idem)
  have more: "replicate n op @ [op] = replicate (Suc n) op"
    by (simp add: replicate_append_same)
  show "tried (Some op) sm rh'"
  proof (cases wr)
    case Write_Committed
    with w once have "rh_sm rh' = snd (apply_one op sm)" "rh_pending rh' = replicate 0 op"
      by (auto simp: client_write_def split: prod.splits)
    then show ?thesis unfolding tried_def by auto
  next
    case Write_TimedOut
    with w have "rh_sm rh' = rh_sm rh" "rh_pending rh' = replicate (Suc n) op"
      using more by (auto simp: client_write_def n)
    with sm show ?thesis by (simp add: tried_def) (metis replicate_Suc)
  next
    case (Write_Refused logged)
    with w have "rh_sm rh' = rh_sm rh" "rh_pending rh' = replicate (if logged then Suc n else n) op"
      using more by (auto simp: client_write_def n)
    with sm show ?thesis by (auto simp: tried_def)
  qed
  show "rh_sm rh' = snd (apply_one op sm)" if "r = Inr st"
    using w once that by (cases wr) (auto simp: client_write_def split: prod.splits if_splits)
qed

lemma handle_on_leader_tried:
  assumes t: "tried (request_op X s pk req) sm rh"
    and h: "handle_on_leader X rd wr now s pk req dbg rh = (a, rh')"
  shows "tried (request_op X s pk req) sm rh' \<and>
    (is_ack (an_response a) \<longrightarrow> rh_sm rh' = applied_once (request_op X s pk req) sm)"
  using h
proof (cases rule: handle_on_leader_cases)
  case no_write
  with t show ?thesis by simp
next
  case (wrote op r)
  with client_write_tried [of op sm rh wr r rh'] t show ?thesis
    by (auto simp: applied_once_def)
qed

lemma route_pass_tried:
  assumes t: "tried (request_op X s pk req) sm rh" and r: "route_pass X me pass s pk req rh = (o_a, rh')"
  shows "tried (request_op X s pk req) sm rh' \<and>
    (\<forall>a. o_a = Some a \<longrightarrow> is_ack (an_response a) \<longrightarrow> rh_sm rh' = applied_once (request_op X s pk req) sm)"
proof -
  let ?rh = "discard_pending (ps_keep pass) (late_commit (ps_commit pass) rh)"
  have t': "tried (request_op X s pk req) sm ?rh"
    by (rule discard_tried [OF late_commit_tried [OF t]])
  note h = handle_on_leader_tried [OF t']
  show ?thesis
  proof (cases "ps_view pass")
    case (This_Leads calls)
    with r h show ?thesis
      by (auto simp: route_pass_def Let_def simp del: handle_on_leader.simps split: prod.splits if_splits)
  next
    case (Leader_Known fate)
    show ?thesis
    proof (cases fate)
      case (Call_Served installed voters calls reply)
      obtain a rh1 where sv: "serve_forwarded X installed voters me calls s pk req ?rh = (a, rh1)" by force
      then have "tried (request_op X s pk req) sm rh1 \<and>
          (is_ack (an_response a) \<longrightarrow> rh_sm rh1 = applied_once (request_op X s pk req) sm)"
        using h t' by (auto simp: serve_forwarded_def answered_def simp del: handle_on_leader.simps split: if_splits)
      with r Leader_Known Call_Served sv show ?thesis
        by (cases reply) (auto simp: route_pass_def forward_to_def deadline_elapsed_def Let_def split: if_splits)
    qed (use r Leader_Known t' in \<open>auto simp: route_pass_def forward_to_def deadline_elapsed_def Let_def\<close>)
  qed (use r t' in \<open>auto simp: route_pass_def Let_def\<close>)
qed

lemma route_passes_tried:
  assumes "tried (request_op X s pk req) sm rh" and "route_passes X me s pk req passes rh = (o_a, rh')"
  shows "tried (request_op X s pk req) sm rh' \<and>
    (\<forall>a. o_a = Some a \<longrightarrow> is_ack (an_response a) \<longrightarrow> rh_sm rh' = applied_once (request_op X s pk req) sm)"
  using assms
proof (induction passes arbitrary: rh)
  case (Cons pass passes)
  obtain o_b rh1 where p: "route_pass X me pass s pk req rh = (o_b, rh1)" by force
  note rp = route_pass_tried [OF Cons.prems(1) p]
  show ?case
  proof (cases o_b)
    case None
    with Cons.IH [of rh1] Cons.prems(2) rp p show ?thesis by simp
  next
    case (Some b)
    with Cons.prems(2) rp p show ?thesis by auto
  qed
qed simp

text \<open>C8. A routed request takes effect at most once. A node sends a client's request to the leader up to
  sixty times while elections, lost calls, lost replies, timeouts, uncommitted writes and the overall
  deadline get in the way. However that goes, and whatever part of what is left in the log commits
  afterwards, the cluster's state is the one before the request or the one after applying it once;
  a Get changes nothing; and a request that was acknowledged has been applied.\<close>

theorem routed_request_applies_at_most_once:
  assumes clean: "rh_pending rh = []"
    and route: "route_client_request X me deadline s pk req env rh = (a, rh')"
  shows "rh_sm (late_commit n rh') \<in> {rh_sm rh, applied_once (request_op X s pk req) (rh_sm rh)} \<and>
    (is_ack (an_response a) \<longrightarrow> rh_sm rh' = applied_once (request_op X s pk req) (rh_sm rh))"
proof -
  let ?op = "request_op X s pk req"
  have t: "tried ?op (rh_sm rh) rh"
    using clean by (auto simp: tried_def intro: exI [of _ 0] split: option.splits)
  have "tried ?op (rh_sm rh) rh' \<and> (is_ack (an_response a) \<longrightarrow> rh_sm rh' = applied_once ?op (rh_sm rh))"
  proof (cases deadline)
    case None
    obtain o_a rh1 where p: "route_passes X me s pk req (map env [0..<FORWARD_MAX_RETRIES]) rh = (o_a, rh1)" by force
    with route_passes_tried [OF t p] route None show ?thesis
      by (auto simp: route_client_request_def route_with_retries_def answered_def split: option.splits)
  next
    case (Some d)
    obtain k started where d: "d = (k, started)" by force
    obtain o_a rh1 where p: "route_passes X me s pk req (map env [0..<min k FORWARD_MAX_RETRIES]) rh = (o_a, rh1)" by force
    obtain o_b rh2 where l: "route_pass X me (env k) s pk req rh1 = (o_b, rh2)" by force
    note pt = route_passes_tried [OF t p]
    from route_pass_tried [OF conjunct1 [OF pt] l] pt route Some d p l show ?thesis
      by (auto simp: route_client_request_def Let_def deadline_elapsed_def split: option.splits if_splits)
  qed
  then show ?thesis
    using late_commit_tried [of ?op "rh_sm rh" rh' n]
    by (auto simp: tried_def applied_once_def split: option.splits)
qed

subsection \<open>A concrete route\<close>

text \<open>A follower finds no leader, then forwards a Pin to a leader that loses its leadership with the entry
  in the log, then leads itself and submits the Pin again: the second copy meets the first.\<close>

definition ex_calls :: "WriteFate \<Rightarrow> LeaderCalls" where
  "ex_calls wr = \<lparr> lc_read = Read_Confirmed, lc_write = wr, lc_now = None, lc_debug_mode = False \<rparr>"

definition ex_passes :: "nat \<Rightarrow> Pass" where
  "ex_passes i =
     (if i = 0 then \<lparr> ps_commit = 0, ps_keep = 0, ps_view = No_Leader \<rparr>
      else if i = 1 then \<lparr> ps_commit = 0, ps_keep = 1, ps_view = Leader_Known
        (Call_Served True [(instance_node_id ex_chain [7], \<lparr> mr_name = ''b'', mr_pubkey = [7] \<rparr>)]
           (ex_calls (Write_Refused True)) Reply_Delivered) \<rparr>
      else \<lparr> ps_commit = 0, ps_keep = 1, ps_view = This_Leads (ex_calls Write_Committed) \<rparr>)"

lemma ex_route:
  "let (a, rh') = route_client_request ex_chain [7] (Some (3, False)) ex_k1 [5] (Req_Pin ex_k1 0 [11]) ex_passes ex_rh
   in an_response a = Resp_Err Rpc_VersionConflict \<and>
      map_option (\<lambda>st. (ks_commitment st, ks_version st)) (sm_get (rh_sm rh') ex_k1) = Some ([11], 1)"
  by (simp add: route_client_request_def FORWARD_MAX_RETRIES_def upt_rec ex_passes_def route_pass_def
    discard_pending_def late_commit_def forward_to_def serve_forwarded_def ex_calls_def serve_pin_def
    client_write_def serve_err_def answered_def is_retryable_def ex_rh_def ex_node_eval commit_ops_def
    apply_one_op apply_pin_def sm_get_def Let_def)

theorem routed_request_applies_at_most_once_witness:
  "\<exists>a rh'. route_client_request ex_chain [7] (Some (3, False)) ex_k1 [5] (Req_Pin ex_k1 0 [11]) ex_passes ex_rh = (a, rh') \<and>
     an_response a = Resp_Err Rpc_VersionConflict \<and>
     rh_sm (late_commit 0 rh') = applied_once (request_op ex_chain ex_k1 [5] (Req_Pin ex_k1 0 [11])) (rh_sm ex_rh)"
proof -
  obtain a rh' where r: "route_client_request ex_chain [7] (Some (3, False)) ex_k1 [5] (Req_Pin ex_k1 0 [11]) ex_passes ex_rh =
      (a, rh')" by force
  have e: "an_response a = Resp_Err Rpc_VersionConflict" "rh_sm (late_commit 0 rh') \<noteq> rh_sm ex_rh"
    using ex_route unfolding r Let_def prod.case
    by (auto simp: late_commit_def ex_rh_def ex_node_eval sm_get_def)
  have "rh_pending ex_rh = []" by (simp add: ex_rh_def)
  from routed_request_applies_at_most_once [OF this r, of 0] e r show ?thesis by blast
qed

end
