(* ===== verification/Raft_Join.thy ===== *)
theory Raft_Join
  imports Membership "HOL-Library.AList"
begin

text \<open>
  Forming and joining a cluster, \<open>synchronizer/src/raft/join.rs\<close>, and the answer to a join request
  (\<open>serve_join\<close> in \<open>raft/network.rs\<close>). A membership is the list of its voters, empty before a node has
  seen a cluster. What a discovery pass meets is an input of the pass: its own membership at each
  point the code reads it, the peers' replies (\<open>None\<close> for no reply), the instance keys the mesh has
  attested, and the outcome of openraft's \<open>initialize\<close>. The configured names are listed in the order
  of the set, ascending.
\<close>

datatype JoinReply =
    Join_Admitted
  | Join_Refused AdmissionError
  | Join_NotLeader "string option"
  | Join_Unavailable
  | Join_NoCluster

definition serve_join ::
    "'x Ext_scheme \<Rightarrow> bool \<Rightarrow> RaftCalls \<Rightarrow> string list \<Rightarrow> bytes \<Rightarrow> string \<Rightarrow> Voters \<Rightarrow> JoinReply \<times> Voters" where
  "serve_join X installed raft configured_names peer_pubkey slot_name voters =
     (if \<not> installed then (Join_Unavailable, voters)
      else if voters = [] then (Join_NoCluster, voters)
      else (case admit X raft configured_names slot_name peer_pubkey voters of
        (r, voters') \<Rightarrow>
          (case r of
             Inr _ \<Rightarrow> Join_Admitted
           | Inl (Rh_JoinRefused e) \<Rightarrow> Join_Refused e
           | Inl (Rh_NotLeader hint) \<Rightarrow> Join_NotLeader hint
           | Inl _ \<Rightarrow> Join_Unavailable, voters')))"

definition MIN_INITIAL_CLUSTER_MEMBERS :: nat where
  "MIN_INITIAL_CLUSTER_MEMBERS = 3"

definition peer_names :: "string list \<Rightarrow> string \<Rightarrow> string list" where
  "peer_names configured_names self_name = filter (\<lambda>n. n \<noteq> self_name) configured_names"

definition is_smallest_name :: "string list \<Rightarrow> string \<Rightarrow> bool" where
  "is_smallest_name configured_names self_name =
     (case configured_names of [] \<Rightarrow> False | n # _ \<Rightarrow> n = self_name)"

datatype InitOutcome = Init_Ok | Init_NotAllowed | Init_Failed

definition initialize_cluster :: "InitOutcome \<Rightarrow> RaftHandleError + unit" where
  "initialize_cluster outcome =
     (case outcome of Init_Ok \<Rightarrow> Inr () | Init_NotAllowed \<Rightarrow> Inr () | Init_Failed \<Rightarrow> Inl Rh_Raft)"

text \<open>The members a call of openraft's \<open>initialize\<close> was made with, if any, beside each result.\<close>

definition initial_members :: "'x Ext_scheme \<Rightarrow> MemberRecord list \<Rightarrow> Voters" where
  "initial_members X records = fold (\<lambda>r. AList.update (instance_node_id X (mr_pubkey r)) r) records []"

definition do_initialize :: "'x Ext_scheme \<Rightarrow> InitOutcome \<Rightarrow> MemberRecord list \<Rightarrow> bool \<times> Voters option" where
  "do_initialize X outcome records =
     (let members = initial_members X records
      in if length members < MIN_INITIAL_CLUSTER_MEMBERS then (False, None)
         else (is_ok (initialize_cluster outcome), Some members))"

fun peer_records :: "(string \<Rightarrow> bytes option) \<Rightarrow> string list \<Rightarrow> MemberRecord list option" where
  "peer_records pubkeys [] = Some []"
| "peer_records pubkeys (peer # peers) =
     (case pubkeys peer of
        None \<Rightarrow> None
      | Some pk \<Rightarrow> map_option (Cons \<lparr> mr_name = peer, mr_pubkey = pk \<rparr>) (peer_records pubkeys peers))"

record DiscoverPass =
  dp_at_start :: Voters
  dp_replies :: "string \<Rightarrow> JoinReply option"
  dp_after_probes :: Voters
  dp_at_init :: Voters
  dp_pubkeys :: "string \<Rightarrow> bytes option"
  dp_initialize :: InitOutcome

definition try_initialize_fresh ::
    "'x Ext_scheme \<Rightarrow> string list \<Rightarrow> MemberRecord \<Rightarrow> DiscoverPass \<Rightarrow> bool \<times> Voters option" where
  "try_initialize_fresh X configured_names self pass =
     (if dp_at_init pass \<noteq> [] then (True, None)
      else (case peer_records (dp_pubkeys pass) (peer_names configured_names (mr_name self)) of
        None \<Rightarrow> (False, None)
      | Some records \<Rightarrow> do_initialize X (dp_initialize pass) (self # records)))"

datatype DiscoverStep = Discover_Voter | Discover_Again | Discover_Sleep

definition observes_cluster :: "JoinReply option \<Rightarrow> bool" where
  "observes_cluster reply =
     (case reply of
        Some Join_Admitted \<Rightarrow> True
      | Some (Join_NotLeader _) \<Rightarrow> True
      | Some Join_Unavailable \<Rightarrow> True
      | Some (Join_Refused _) \<Rightarrow> True
      | Some Join_NoCluster \<Rightarrow> False
      | None \<Rightarrow> False)"

definition discover_pass ::
    "'x Ext_scheme \<Rightarrow> string list \<Rightarrow> MemberRecord \<Rightarrow> DiscoverPass \<Rightarrow> DiscoverStep \<times> Voters option" where
  "discover_pass X configured_names self pass =
     (if instance_node_id X (mr_pubkey self) \<in> fst ` set (dp_at_start pass) then (Discover_Voter, None)
      else
        let peers = peer_names configured_names (mr_name self);
            replies = map (dp_replies pass) peers;
            observed = (list_ex observes_cluster replies \<or> dp_after_probes pass \<noteq> []);
            reporting = length (filter (\<lambda>r. r = Some Join_NoCluster) replies)
        in if observed then (Discover_Sleep, None)
           else if is_smallest_name configured_names (mr_name self) \<and> reporting = length peers then
             (case try_initialize_fresh X configured_names self pass of
                (True, call) \<Rightarrow> (Discover_Again, call)
              | (False, call) \<Rightarrow> (Discover_Sleep, call))
           else (Discover_Sleep, None))"

text \<open>The loop: over the passes, in order, until this node is a voter. It gives the calls of \<open>initialize\<close>
  made on the way and whether the loop has ended.\<close>

fun discover_and_join ::
    "'x Ext_scheme \<Rightarrow> string list \<Rightarrow> MemberRecord \<Rightarrow> DiscoverPass list \<Rightarrow> bool \<times> Voters list" where
  "discover_and_join X configured_names self [] = (False, [])"
| "discover_and_join X configured_names self (pass # passes) =
     (case discover_pass X configured_names self pass of
        (Discover_Voter, _) \<Rightarrow> (True, [])
      | (_, call) \<Rightarrow>
          (case discover_and_join X configured_names self passes of
             (ended, calls) \<Rightarrow> (ended, (case call of None \<Rightarrow> [] | Some members \<Rightarrow> [members]) @ calls)))"

text \<open>\<open>watch_for_eviction\<close>: what the watch makes of one reading of the metrics. \<open>known\<close> is every member of
  the configuration, learners included.\<close>

definition evicted :: "RaftNodeId \<Rightarrow> RaftNodeId set \<Rightarrow> RaftNodeId set \<Rightarrow> bool" where
  "evicted self_id voter_ids known \<longleftrightarrow> voter_ids \<noteq> {} \<and> \<not> (self_id \<in> voter_ids \<or> self_id \<in> known)"

subsection \<open>When a cluster is formed\<close>

lemma peer_records_Some:
  "peer_records pubkeys peers = Some records \<longleftrightarrow>
     map mr_name records = peers \<and> (\<forall>r \<in> set records. pubkeys (mr_name r) = Some (mr_pubkey r))"
proof (induction peers arbitrary: records)
  case (Cons peer peers)
  show ?case
    by (cases records) (auto simp: Cons split: option.splits)
qed auto

text \<open>The members keyed by their instance ids.\<close>

lemma members_map:
  shows "distinct (map fst (initial_members X rs))"
    and "(nid, r) \<in> set (initial_members X rs) \<Longrightarrow> r \<in> set rs \<and> nid = instance_node_id X (mr_pubkey r)"
    and "fst ` set (initial_members X rs) = (\<lambda>r. instance_node_id X (mr_pubkey r)) ` set rs"
proof -
  show d: "distinct (map fst (initial_members X rs))" for rs
    unfolding initial_members_def by (induction rs rule: rev_induct) (simp_all add: distinct_update)
  have "map_of (initial_members X rs) nid = Some r \<Longrightarrow> r \<in> set rs \<and> nid = instance_node_id X (mr_pubkey r)"
    unfolding initial_members_def by (induction rs rule: rev_induct) (auto simp: update_conv' split: if_splits)
  then show "(nid, r) \<in> set (initial_members X rs) \<Longrightarrow> r \<in> set rs \<and> nid = instance_node_id X (mr_pubkey r)"
    using d by simp
  show "fst ` set (initial_members X rs) = (\<lambda>r. instance_node_id X (mr_pubkey r)) ` set rs"
    unfolding initial_members_def by (induction rs rule: rev_induct) (auto simp: dom_update)
qed

lemma fresh_members_ok:
  assumes names: "distinct (map mr_name rs)" "mr_name ` set rs \<subseteq> set configured"
  shows "members_ok X configured (initial_members X rs)"
proof -
  let ?members = "initial_members X rs"
  note m = members_map(1) [of X rs] members_map(2) [where X = X and rs = rs]
  have "inj_on (\<lambda>v. mr_name (snd v)) (set ?members)"
  proof (rule inj_onI)
    fix v w assume v: "v \<in> set ?members" "w \<in> set ?members" "mr_name (snd v) = mr_name (snd w)"
    have at: "snd v \<in> set rs" "fst v = instance_node_id X (mr_pubkey (snd v))"
        "snd w \<in> set rs" "fst w = instance_node_id X (mr_pubkey (snd w))"
      using m(2) [of "fst v" "snd v"] m(2) [of "fst w" "snd w"] v by simp_all
    then have "snd v = snd w"
      using v(3) names(1) by (auto simp: distinct_map inj_on_def)
    with at show "v = w" by (simp add: prod_eq_iff)
  qed
  then have "distinct (map (\<lambda>v. mr_name (snd v)) ?members)"
    using m(1) by (simp add: distinct_map)
  with m(1,2) names(2) show ?thesis by (fastforce simp: members_ok_def)
qed

lemma discover_initializes:
  assumes "discover_pass X configured self pass = (step, Some members)"
  obtains records where "is_smallest_name configured (mr_name self)"
    "\<And>p. p \<in> set configured \<Longrightarrow> p \<noteq> mr_name self \<Longrightarrow> dp_replies pass p = Some Join_NoCluster"
    "dp_after_probes pass = []" "dp_at_init pass = []"
    "peer_records (dp_pubkeys pass) (peer_names configured (mr_name self)) = Some records"
    "members = initial_members X (self # records)"
    "MIN_INITIAL_CLUSTER_MEMBERS \<le> length members"
proof -
  let ?peers = "peer_names configured (mr_name self)"
  have i: "dp_after_probes pass = []" "is_smallest_name configured (mr_name self)"
      "length (filter (\<lambda>r. r = Some Join_NoCluster) (map (dp_replies pass) ?peers)) = length ?peers"
      "snd (try_initialize_fresh X configured self pass) = Some members"
    using assms by (auto simp: discover_pass_def Let_def split: if_splits prod.splits bool.splits)
  have "filter (\<lambda>r. r = Some Join_NoCluster) (map (dp_replies pass) ?peers) = map (dp_replies pass) ?peers"
    using i(3) by (metis filter_True length_filter_less length_map nat_neq_iff)
  then have no: "dp_replies pass p = Some Join_NoCluster" if "p \<in> set configured" "p \<noteq> mr_name self" for p
    using that by (auto simp: peer_names_def filter_id_conv)
  obtain records where "dp_at_init pass = []" "peer_records (dp_pubkeys pass) ?peers = Some records"
      "members = initial_members X (self # records)" "MIN_INITIAL_CLUSTER_MEMBERS \<le> length members"
    using i(4) by (auto simp: try_initialize_fresh_def do_initialize_def Let_def not_less split: if_splits option.splits)
  with i(1,2) no show thesis by (intro that)
qed

text \<open>C13. A fresh cluster is formed only where none lives, and it is well formed. Suppose every reply a
  discovery pass gets is what its peer answers from the membership it has (or is missing). Then a
  pass calls \<open>initialize\<close> only on the node with the smallest configured name, only if every other
  configured node has no cluster and neither has this one; the members are this node and the
  configured peers under the instance keys their channels attested, at least three different ones,
  and they form a membership with one instance per slot. So a node that restarts beside a live
  cluster, or cannot reach a peer, never starts a second one.\<close>

theorem fresh_cluster_only_when_none_lives:
  assumes names: "distinct configured"
    and replies: "\<And>p r. dp_replies pass p = Some r \<Longrightarrow>
      \<exists>installed raft pk. r = fst (serve_join X installed raft configured pk (mr_name self) (views p))"
    and call: "discover_pass X configured self pass = (step, Some members)"
  shows "is_smallest_name configured (mr_name self) \<and>
    (\<forall>p \<in> set configured. p \<noteq> mr_name self \<longrightarrow> views p = []) \<and> dp_after_probes pass = [] \<and>
    members_ok X configured members \<and> 3 \<le> length members \<and>
    (\<forall>v \<in> set members. snd v = self \<or> mr_name (snd v) \<noteq> mr_name self \<and>
      dp_pubkeys pass (mr_name (snd v)) = Some (mr_pubkey (snd v)))"
  using call
proof (cases rule: discover_initializes)
  case (1 records)
  let ?peers = "peer_names configured (mr_name self)"
  have rec: "map mr_name records = ?peers" "\<forall>r \<in> set records. dp_pubkeys pass (mr_name r) = Some (mr_pubkey r)"
    using 1(5) by (simp_all add: peer_records_Some)
  have views: "views p = []" if p: "p \<in> set configured" "p \<noteq> mr_name self" for p
  proof -
    obtain installed raft pk where
      "Join_NoCluster = fst (serve_join X installed raft configured pk (mr_name self) (views p))"
      using replies [OF 1(2) [OF p]] by blast
    then show ?thesis
      by (auto simp: serve_join_def split: if_splits prod.splits sum.splits RaftHandleError.splits)
  qed
  have self: "mr_name self \<in> set configured"
    using 1(1) by (auto simp: is_smallest_name_def split: list.splits)
  have peers: "mr_name ` set records = set configured - {mr_name self}"
    unfolding set_map [symmetric] rec(1) by (auto simp: peer_names_def)
  have "distinct (map mr_name records)"
    unfolding rec(1) using names by (simp add: peer_names_def)
  with peers self have "distinct (map mr_name (self # records))" "mr_name ` set (self # records) \<subseteq> set configured"
    by auto
  then have "members_ok X configured members"
    unfolding 1(6) by (rule fresh_members_ok)
  moreover have "snd v = self \<or> mr_name (snd v) \<noteq> mr_name self \<and> dp_pubkeys pass (mr_name (snd v)) = Some (mr_pubkey (snd v))"
    if "v \<in> set members" for v
  proof -
    from that have "snd v \<in> set (self # records)"
      using members_map(2) [of "fst v" "snd v" X "self # records"] by (simp add: 1(6))
    moreover have "mr_name r \<noteq> mr_name self" if "r \<in> set records" for r
      using that peers by blast
    ultimately show ?thesis using rec(2) by auto
  qed
  ultimately show ?thesis
    using 1(1,3,7) views by (simp add: MIN_INITIAL_CLUSTER_MEMBERS_def)
qed

subsection \<open>A first provisioning\<close>

definition ex_first_pass :: DiscoverPass where
  "ex_first_pass = \<lparr> dp_at_start = [], dp_replies = (\<lambda>_. Some Join_NoCluster), dp_after_probes = [], dp_at_init = [],
     dp_pubkeys = (\<lambda>p. if p = ''b'' then Some [2] else if p = ''c'' then Some [3] else None),
     dp_initialize = Init_Ok \<rparr>"

theorem fresh_cluster_only_when_none_lives_witness:
  "\<exists>members. discover_pass ex_cluster_ext [''a'', ''b'', ''c''] \<lparr> mr_name = ''a'', mr_pubkey = [1] \<rparr> ex_first_pass =
     (Discover_Again, Some members) \<and> members_ok ex_cluster_ext [''a'', ''b'', ''c''] members \<and> length members = 3"
proof -
  let ?c = "[''a'', ''b'', ''c'']" and ?me = "\<lparr> mr_name = ''a'', mr_pubkey = [1 :: byte] \<rparr>"
  let ?m = "initial_members ex_cluster_ext [?me, \<lparr> mr_name = ''b'', mr_pubkey = [2] \<rparr>, \<lparr> mr_name = ''c'', mr_pubkey = [3] \<rparr>]"
  have len: "length ?m = 3" by code_simp
  have d: "discover_pass ex_cluster_ext ?c ?me ex_first_pass = (Discover_Again, Some ?m)"
    using len
    by (simp add: discover_pass_def ex_first_pass_def peer_names_def observes_cluster_def is_smallest_name_def
      try_initialize_fresh_def do_initialize_def initialize_cluster_def MIN_INITIAL_CLUSTER_MEMBERS_def Let_def)
  have "\<exists>installed raft pk. r = fst (serve_join ex_cluster_ext installed raft ?c pk (mr_name ?me) [])"
    if "dp_replies ex_first_pass p = Some r" for p r
    using that by (auto simp: ex_first_pass_def serve_join_def intro!: exI [of _ True])
  from fresh_cluster_only_when_none_lives [where views = "\<lambda>_. []", OF _ this d] d len show ?thesis by auto
qed

end
