(* ===== verification/Rust_Text.thy ===== *)
theory Rust_Text
  imports Prelude
begin

text \<open>
  What the sources use of Rust's strings and of the address parsers of its standard library. A
  \<open>str\<close> is the list of its Unicode scalar values. \<open>IpAddr::from_str\<close> is the recursive-descent
  parser of \<open>core::net\<close>: it reads a dotted quad, else an IPv6 address, and must use up its input.
\<close>

type_synonym scalar = int

type_synonym utext = "scalar list"

definition str :: "string \<Rightarrow> utext" where
  "str s = map of_char s"

definition is_whitespace :: "scalar \<Rightarrow> bool" where
  "is_whitespace c \<longleftrightarrow> 9 \<le> c \<and> c \<le> 13 \<or> c = 32 \<or> c = 0x85 \<or> c = 0xA0 \<or> c = 0x1680 \<or>
     0x2000 \<le> c \<and> c \<le> 0x200A \<or> c = 0x2028 \<or> c = 0x2029 \<or> c = 0x202F \<or> c = 0x205F \<or> c = 0x3000"

definition trim :: "utext \<Rightarrow> utext" where
  "trim s = rev (dropWhile is_whitespace (rev (dropWhile is_whitespace s)))"

definition trim_start :: "utext \<Rightarrow> utext" where
  "trim_start s = dropWhile is_whitespace s"

definition trim_end :: "utext \<Rightarrow> utext" where
  "trim_end s = rev (dropWhile is_whitespace (rev s))"

definition utf8_len :: "scalar \<Rightarrow> nat" where
  "utf8_len c = (if c < 0x80 then 1 else if c < 0x800 then 2 else if c < 0x10000 then 3 else 4)"

definition str_len :: "utext \<Rightarrow> nat" where
  "str_len s = sum_list (map utf8_len s)"

definition to_ascii_lowercase :: "utext \<Rightarrow> utext" where
  "to_ascii_lowercase s = map (\<lambda>c. if 65 \<le> c \<and> c \<le> 90 then c + 32 else c) s"

definition is_ascii_alphanumeric :: "scalar \<Rightarrow> bool" where
  "is_ascii_alphanumeric c \<longleftrightarrow> 48 \<le> c \<and> c \<le> 57 \<or> 65 \<le> c \<and> c \<le> 90 \<or> 97 \<le> c \<and> c \<le> 122"

fun split_on :: "scalar \<Rightarrow> utext \<Rightarrow> utext list" where
  "split_on c [] = [[]]"
| "split_on c (x # s) =
     (if x = c then [] # split_on c s
      else case split_on c s of [] \<Rightarrow> [[x]] | l # ls \<Rightarrow> (x # l) # ls)"

definition rsplit_once :: "scalar \<Rightarrow> utext \<Rightarrow> (utext \<times> utext) option" where
  "rsplit_once c s =
     (if c \<in> set s
      then Some (rev (tl (dropWhile (\<lambda>x. x \<noteq> c) (rev s))), rev (takeWhile (\<lambda>x. x \<noteq> c) (rev s)))
      else None)"

definition split_once :: "scalar \<Rightarrow> utext \<Rightarrow> (utext \<times> utext) option" where
  "split_once c s =
     (if c \<in> set s then Some (takeWhile (\<lambda>x. x \<noteq> c) s, tl (dropWhile (\<lambda>x. x \<noteq> c) s)) else None)"

text \<open>\<open>lines\<close>: a line that ends in a line feed loses it and a carriage return before it; what follows the
  last line feed is a line if there is any of it.\<close>

definition strip_cr :: "utext \<Rightarrow> utext" where
  "strip_cr l = (if l \<noteq> [] \<and> last l = 13 then butlast l else l)"

definition text_lines :: "utext \<Rightarrow> utext list" where
  "text_lines s =
     (let pieces = split_on 10 s; rest = last pieces
      in map strip_cr (butlast pieces) @ (if rest = [] then [] else [rest]))"

text \<open>\<open>from_str\<close> of the unsigned integers: an optional plus sign and decimal digits.\<close>

definition digit_value :: "int \<Rightarrow> scalar \<Rightarrow> int option" where
  "digit_value radix c =
     (let d = (if 48 \<le> c \<and> c \<le> 57 then c - 48
               else if 97 \<le> c \<and> c \<le> 122 then c - 87
               else if 65 \<le> c \<and> c \<le> 90 then c - 55 else radix)
      in if d < radix then Some d else None)"

definition is_digit :: "int \<Rightarrow> scalar \<Rightarrow> bool" where
  "is_digit radix c \<longleftrightarrow> digit_value radix c \<noteq> None"

definition digits_value :: "int \<Rightarrow> utext \<Rightarrow> int" where
  "digits_value radix ds = foldl (\<lambda>n c. n * radix + the (digit_value radix c)) 0 ds"

definition parse_unsigned :: "int \<Rightarrow> utext \<Rightarrow> int option" where
  "parse_unsigned bound s =
     (let ds = (case s of c # t \<Rightarrow> if c = 43 then t else s | [] \<Rightarrow> s)
      in if ds = [] \<or> \<not> list_all (is_digit 10) ds \<or> digits_value 10 ds \<ge> bound then None
         else Some (digits_value 10 ds))"

definition parse_u32 :: "utext \<Rightarrow> u32 option" where
  "parse_u32 s = map_option of_int (parse_unsigned (2 ^ 32) s)"

definition parse_u16 :: "utext \<Rightarrow> int option" where
  "parse_u16 s = parse_unsigned 65536 s"

subsection \<open>Addresses\<close>

type_synonym Ipv4Addr = "32 word"

datatype IpAddr = V4 Ipv4Addr | V6

text \<open>\<open>read_number\<close> with a digit limit: all the digits there are, at most \<open>max_digits\<close> of them, a value
  that fits, and no superfluous leading zero where those are not allowed.\<close>

definition read_number :: "int \<Rightarrow> nat \<Rightarrow> bool \<Rightarrow> int \<Rightarrow> utext \<Rightarrow> (int \<times> utext) option" where
  "read_number radix max_digits allow_zero_prefix bound s =
     (let ds = takeWhile (is_digit radix) s;
          n = digits_value radix ds
      in if ds = [] \<or> max_digits < length ds \<or> bound \<le> n \<or>
            \<not> allow_zero_prefix \<and> hd ds = 48 \<and> 1 < length ds then None
         else Some (n, drop (length ds) s))"

definition read_separator :: "scalar \<Rightarrow> nat \<Rightarrow> (utext \<Rightarrow> ('a \<times> utext) option) \<Rightarrow> utext \<Rightarrow> ('a \<times> utext) option" where
  "read_separator sep i p s =
     (if i = 0 then p s
      else case s of [] \<Rightarrow> None | c # t \<Rightarrow> if c = sep then p t else None)"

fun read_octets :: "nat \<Rightarrow> nat \<Rightarrow> utext \<Rightarrow> (int list \<times> utext) option" where
  "read_octets i 0 s = Some ([], s)"
| "read_octets i (Suc n) s =
     (case read_separator 46 i (read_number 10 3 False 256) s of
        None \<Rightarrow> None
      | Some (a, r) \<Rightarrow> map_option (\<lambda>(as, r). (a # as, r)) (read_octets (Suc i) n r))"

definition ipv4_of_octets :: "int list \<Rightarrow> Ipv4Addr" where
  "ipv4_of_octets os = of_int (foldl (\<lambda>n a. n * 256 + a) 0 os)"

definition read_ipv4_addr :: "utext \<Rightarrow> (Ipv4Addr \<times> utext) option" where
  "read_ipv4_addr s = map_option (\<lambda>(os, r). (ipv4_of_octets os, r)) (read_octets 0 4 s)"

text \<open>\<open>read_groups\<close>: with \<open>n\<close> slots left, at slot \<open>i\<close>. The number of groups read, whether the last two are a
  dotted quad, and the rest.\<close>

fun read_groups :: "nat \<Rightarrow> nat \<Rightarrow> utext \<Rightarrow> nat \<times> bool \<times> utext" where
  "read_groups i 0 s = (i, False, s)"
| "read_groups i (Suc n) s =
     (case (if 0 < n then read_separator 58 i read_ipv4_addr s else None) of
        Some (_, r) \<Rightarrow> (i + 2, True, r)
      | None \<Rightarrow>
          (case read_separator 58 i (read_number 16 4 True 65536) s of
             Some (_, r) \<Rightarrow> read_groups (Suc i) n r
           | None \<Rightarrow> (i, False, s)))"

definition read_ipv6_addr :: "utext \<Rightarrow> utext option" where
  "read_ipv6_addr s =
     (case read_groups 0 8 s of
        (head_size, head_ipv4, r) \<Rightarrow>
          if head_size = 8 then Some r
          else if head_ipv4 then None
          else if take 2 r = [58, 58] then
            (case read_groups 0 (8 - (head_size + 1)) (drop 2 r) of (_, _, r') \<Rightarrow> Some r')
          else None)"

definition parse_ipv4_addr :: "utext \<Rightarrow> Ipv4Addr option" where
  "parse_ipv4_addr s = (case read_ipv4_addr s of Some (a, r) \<Rightarrow> if r = [] then Some a else None | None \<Rightarrow> None)"

definition parse_ip_addr :: "utext \<Rightarrow> IpAddr option" where
  "parse_ip_addr s =
     (case read_ipv4_addr s of
        Some (a, r) \<Rightarrow> if r = [] then Some (V4 a) else None
      | None \<Rightarrow> (case read_ipv6_addr s of Some r \<Rightarrow> if r = [] then Some V6 else None | None \<Rightarrow> None))"

lemma parse_ip_addr_V4: "parse_ip_addr s = Some (V4 a) \<longleftrightarrow> parse_ipv4_addr s = Some a"
  by (auto simp: parse_ip_addr_def parse_ipv4_addr_def split: option.splits if_splits)

lemma parser_examples:
  "parse_ip_addr (str ''10.99.0.1'') = Some (V4 0x0A630001)" "parse_ip_addr (str ''1.2.3.04'') = None"
  "parse_ip_addr (str ''1.2.3.256'') = None" "parse_ip_addr (str ''1.2.3'') = None"
  "parse_ip_addr (str ''::1'') = Some V6" "parse_ip_addr (str ''::ffff:1.2.3.4'') = Some V6"
  "parse_ip_addr (str ''1:2:3:4:5:6:7:8'') = Some V6" "parse_ip_addr (str ''1:2:3:4:5:6:7::'') = Some V6"
  "parse_ip_addr (str ''1::2::3'') = None" "parse_ip_addr (str ''1.2.3.4::'') = None"
  "parse_u16 (str ''+443'') = Some 443" "parse_u16 (str ''65536'') = None" "parse_u16 (str '''') = None"
  by code_simp+

subsection \<open>Strings\<close>

lemma trim_trim [simp]: "trim (trim s) = trim s"
proof -
  let ?P = is_whitespace and ?d = "dropWhile is_whitespace s"
  have t: "trim s = rev (dropWhile ?P (rev ?d))" by (simp add: trim_def)
  have "dropWhile ?P (trim s) = trim s"
  proof (cases "trim s")
    case (Cons c cs)
    have "rev ?d = takeWhile ?P (rev ?d) @ rev (trim s)"
      by (simp add: t)
    then have "?d = trim s @ rev (takeWhile ?P (rev ?d))"
      by (metis rev_append rev_rev_ident)
    with Cons have "hd ?d = c" "?d \<noteq> []" by (metis append_Cons list.sel(1), metis append_Cons list.distinct(1))
    then have "\<not> ?P c" using hd_dropWhile [of ?P s] by simp
    with Cons show ?thesis by simp
  qed simp
  then show ?thesis
    by (simp add: trim_def [of "trim s"]) (simp add: t)
qed

lemma concat_split_on: "x \<in> set s \<Longrightarrow> x \<noteq> c \<Longrightarrow> \<exists>l \<in> set (split_on c s). x \<in> set l"
  by (induction s) (auto split: list.splits)

subsection \<open>UTF-8\<close>

text \<open>\<open>utf8_head\<close> looks at the first character of a byte string: whether it is well formed, and how many
  bytes it has, or, if it is not, how many bytes one replacement character stands for.\<close>

definition is_continuation :: "byte \<Rightarrow> bool" where
  "is_continuation b \<longleftrightarrow> 0x80 \<le> b \<and> b \<le> 0xBF"

definition second_ok :: "byte \<Rightarrow> byte \<Rightarrow> bool" where
  "second_ok b c \<longleftrightarrow> is_continuation c \<and> (b = 0xE0 \<longrightarrow> 0xA0 \<le> c) \<and> (b = 0xED \<longrightarrow> c \<le> 0x9F) \<and>
     (b = 0xF0 \<longrightarrow> 0x90 \<le> c) \<and> (b = 0xF4 \<longrightarrow> c \<le> 0x8F)"

fun utf8_head :: "bytes \<Rightarrow> bool \<times> nat" where
  "utf8_head [] = (False, 1)"
| "utf8_head (b # bs) =
     (if b < 0x80 then (True, 1)
      else if 0xC2 \<le> b \<and> b \<le> 0xDF then
        (case bs of c # _ \<Rightarrow> if is_continuation c then (True, 2) else (False, 1) | [] \<Rightarrow> (False, 1))
      else if 0xE0 \<le> b \<and> b \<le> 0xF4 then
        (case bs of
           c # cs \<Rightarrow>
             if \<not> second_ok b c then (False, 1)
             else
               let need = (if b < 0xF0 then 1 else 2); found = length (takeWhile is_continuation (take need cs))
               in (found = need, 2 + found)
         | [] \<Rightarrow> (False, 1))
      else (False, 1))"

fun from_utf8_lossy :: "bytes \<Rightarrow> bytes" where
  "from_utf8_lossy [] = []"
| "from_utf8_lossy (b # bs) =
     (case utf8_head (b # bs) of (valid, n) \<Rightarrow>
        (if valid then take n (b # bs) else [0xEF, 0xBF, 0xBD]) @ from_utf8_lossy (drop (n - 1) bs))"

fun valid_utf8 :: "bytes \<Rightarrow> bool" where
  "valid_utf8 [] \<longleftrightarrow> True"
| "valid_utf8 (b # bs) \<longleftrightarrow>
     (case utf8_head (b # bs) of (valid, n) \<Rightarrow> valid \<and> valid_utf8 (drop (n - 1) bs))"

lemma utf8_head_pos: "utf8_head bs = (valid, n) \<Longrightarrow> 0 < n"
  by (cases bs) (auto simp: Let_def split: if_splits list.splits)

lemma from_utf8_lossy_valid: "valid_utf8 bs \<Longrightarrow> from_utf8_lossy bs = bs"
proof (induction bs rule: valid_utf8.induct)
  case (2 b bs)
  obtain valid n where head: "utf8_head (b # bs) = (valid, n)" by force
  obtain m where "n = Suc m" using utf8_head_pos [OF head] by (cases n) auto
  then show ?case
    using 2 head by (simp del: utf8_head.simps)
qed simp

end
