(* ===== verification/Egress.thy ===== *)
theory Egress
  imports Rust_Text
begin

text \<open>
  Egress control: the allowlist schema shared by the command line, the backend and the in-enclave
  daemon (\<open>enclavia-protocol/src/egress_config.rs\<close>), and the daemon's decision on each connection
  (\<open>enclavia-egress/src/policy.rs\<close>, \<open>lib.rs\<close>). JSON decoding and the CIDR type of the \<open>ipnet\<close> crate
  are the functions of \<open>EgressExt\<close>. Log lines are left out, as is the text of errors of the number
  parser.
\<close>

type_synonym port = u16

datatype Protocol = Tcp | Udp

datatype RawPort = Port_Num port | Port_Str utext

datatype PortMatcher = Port_Any | Port_Single port

record RawEgressEntry =
  re_host :: utext
  re_port :: RawPort
  re_protocol :: Protocol

datatype DnsMode = Dns_Allowlist | Dns_Open

record RawAllowlist =
  ra_version :: u32
  ra_resolvers :: "utext list"
  ra_egress :: "RawEgressEntry list"
  ra_dns :: DnsMode

text \<open>\<open>ipnet::Ipv4Net\<close> is an address and a prefix length.\<close>

type_synonym Ipv4Net = "Ipv4Addr \<times> nat"

record EgressExt =
  net_parse :: "utext \<Rightarrow> Ipv4Net option"
  net_contains :: "Ipv4Net \<Rightarrow> Ipv4Addr \<Rightarrow> bool"
  allowlist_from_slice :: "bytes \<Rightarrow> RawAllowlist option"

datatype HostMatcher = Host_Literal Ipv4Addr | Host_Cidr Ipv4Net

record AllowlistEntry =
  ae_host :: HostMatcher
  ae_port :: PortMatcher
  ae_protocol :: Protocol
  ae_trusted_source_only :: bool

record HostnameEntry =
  he_host :: utext
  he_port :: PortMatcher
  he_protocol :: Protocol

record AllowlistConfig =
  ac_entries :: "AllowlistEntry list"
  ac_resolvers :: "Ipv4Addr list"
  ac_hostnames :: "HostnameEntry list"
  ac_dns :: DnsMode

datatype HostnameReason =
    Empty_Hostname | Too_Long | Dot_At_End | Empty_Label | Label_Too_Long | Hyphen_At_End | Bad_Characters

datatype AllowlistLoadError =
    Load_Io
  | Load_Json
  | UnsupportedVersion u32
  | UdpNotSupported utext RawPort
  | BadPort RawPort
  | DnsOpenWithoutResolvers
  | Load_InvalidHostname utext HostnameReason

definition WILDCARD :: utext where
  "WILDCARD = str ''*''"

definition SCHEMA_VERSION :: u32 where
  "SCHEMA_VERSION = 1"

definition to_matcher :: "RawPort \<Rightarrow> AllowlistLoadError + PortMatcher" where
  "to_matcher p =
     (case p of
        Port_Num n \<Rightarrow> if n = 0 then Inl (BadPort p) else Inr (Port_Single n)
      | Port_Str s \<Rightarrow> if s = WILDCARD then Inr Port_Any else Inl (BadPort p))"

definition port_matches :: "PortMatcher \<Rightarrow> port \<Rightarrow> bool" where
  "port_matches m port = (case m of Port_Any \<Rightarrow> True | Port_Single p \<Rightarrow> p = port)"

definition host_contains :: "'x EgressExt_scheme \<Rightarrow> HostMatcher \<Rightarrow> Ipv4Addr \<Rightarrow> bool" where
  "host_contains X m ip = (case m of Host_Literal a \<Rightarrow> a = ip | Host_Cidr net \<Rightarrow> net_contains X net ip)"

definition dns_mode_from_str :: "utext \<Rightarrow> DnsMode option" where
  "dns_mode_from_str s =
     (let t = to_ascii_lowercase (trim s)
      in if t = str ''allowlist'' then Some Dns_Allowlist else if t = str ''open'' then Some Dns_Open else None)"

definition new_v1 :: RawAllowlist where
  "new_v1 = \<lparr> ra_version = SCHEMA_VERSION, ra_resolvers = [], ra_egress = [], ra_dns = Dns_Allowlist \<rparr>"

definition config_empty :: AllowlistConfig where
  "config_empty = \<lparr> ac_entries = [], ac_resolvers = [], ac_hostnames = [], ac_dns = Dns_Allowlist \<rparr>"

definition validate_label :: "utext \<Rightarrow> HostnameReason + unit" where
  "validate_label label =
     (if label = [] then Inl Empty_Label
      else if str_len label > 63 then Inl Label_Too_Long
      else if hd label = 45 \<or> last label = 45 then Inl Hyphen_At_End
      else ensure (list_all (\<lambda>c. is_ascii_alphanumeric c \<or> c = 45) label) Bad_Characters)"

definition validate_hostname :: "utext \<Rightarrow> HostnameReason + unit" where
  "validate_hostname host =
     (if host = [] then Inl Empty_Hostname
      else if str_len host > 253 then Inl Too_Long
      else if hd host = 46 \<or> last host = 46 then Inl Dot_At_End
      else and_then (traverse validate_label (split_on 46 host)) (\<lambda>_. Inr ()))"

text \<open>One round of the classification loop: the entry, the hostname or nothing it adds.\<close>

datatype Classified = As_Entry AllowlistEntry | As_Hostname HostnameEntry | Dropped

definition classify_entry :: "'x EgressExt_scheme \<Rightarrow> RawEgressEntry \<Rightarrow> AllowlistLoadError + Classified" where
  "classify_entry X e =
     (if re_protocol e = Udp then Inl (UdpNotSupported (trim (re_host e)) (re_port e))
      else and_then (to_matcher (re_port e)) (\<lambda>port.
        let host = trim (re_host e)
        in case net_parse X host of
             Some net \<Rightarrow> Inr (As_Entry \<lparr> ae_host = Host_Cidr net, ae_port = port, ae_protocol = re_protocol e,
                                       ae_trusted_source_only = False \<rparr>)
           | None \<Rightarrow>
               (case parse_ip_addr host of
                  Some (V4 v4) \<Rightarrow>
                    Inr (As_Entry \<lparr> ae_host = Host_Literal v4, ae_port = port, ae_protocol = re_protocol e,
                                    ae_trusted_source_only = False \<rparr>)
                | Some V6 \<Rightarrow> Inr Dropped
                | None \<Rightarrow>
                    (case validate_hostname host of
                       Inl reason \<Rightarrow> Inl (Load_InvalidHostname host reason)
                     | Inr _ \<Rightarrow> Inr (As_Hostname \<lparr> he_host = to_ascii_lowercase host, he_port = port,
                                                   he_protocol = re_protocol e \<rparr>)))))"

fun entries_of :: "Classified list \<Rightarrow> AllowlistEntry list" where
  "entries_of [] = []"
| "entries_of (As_Entry e # cs) = e # entries_of cs"
| "entries_of (_ # cs) = entries_of cs"

fun hostnames_of :: "Classified list \<Rightarrow> HostnameEntry list" where
  "hostnames_of [] = []"
| "hostnames_of (As_Hostname h # cs) = h # hostnames_of cs"
| "hostnames_of (_ # cs) = hostnames_of cs"

fun resolvers_of :: "utext list \<Rightarrow> Ipv4Addr list" where
  "resolvers_of [] = []"
| "resolvers_of (r # rs) =
     (case parse_ip_addr (trim r) of Some (V4 v4) \<Rightarrow> v4 # resolvers_of rs | _ \<Rightarrow> resolvers_of rs)"

definition from_raw :: "'x EgressExt_scheme \<Rightarrow> RawAllowlist \<Rightarrow> AllowlistLoadError + AllowlistConfig" where
  "from_raw X raw =
     (if ra_version raw \<noteq> 1 then Inl (UnsupportedVersion (ra_version raw))
      else and_then (traverse (classify_entry X) (ra_egress raw)) (\<lambda>classified.
        let resolvers = resolvers_of (ra_resolvers raw)
        in if ra_dns raw = Dns_Open \<and> resolvers = [] then Inl DnsOpenWithoutResolvers
           else Inr \<lparr> ac_entries = entries_of classified, ac_resolvers = resolvers,
                      ac_hostnames = hostnames_of classified, ac_dns = ra_dns raw \<rparr>))"

definition from_bytes :: "'x EgressExt_scheme \<Rightarrow> bytes \<Rightarrow> AllowlistLoadError + AllowlistConfig" where
  "from_bytes X bs = and_then (ok_or Load_Json (allowlist_from_slice X bs)) (from_raw X)"

datatype FileRead = File_NotFound | File_Error | File_Bytes bytes

definition is_ascii_whitespace :: "byte \<Rightarrow> bool" where
  "is_ascii_whitespace b \<longleftrightarrow> b = 32 \<or> b = 9 \<or> b = 10 \<or> b = 12 \<or> b = 13"

definition load_or_empty :: "'x EgressExt_scheme \<Rightarrow> FileRead \<Rightarrow> AllowlistLoadError + AllowlistConfig" where
  "load_or_empty X file =
     (case file of
        File_NotFound \<Rightarrow> Inr config_empty
      | File_Error \<Rightarrow> Inl Load_Io
      | File_Bytes bs \<Rightarrow> if list_all is_ascii_whitespace bs then Inr config_empty else from_bytes X bs)"

definition allows_tcp :: "'x EgressExt_scheme \<Rightarrow> AllowlistConfig \<Rightarrow> Ipv4Addr \<Rightarrow> port \<Rightarrow> bool \<Rightarrow> bool" where
  "allows_tcp X cfg ip port trusted_src =
     list_ex (\<lambda>e. ae_protocol e = Tcp \<and> port_matches (ae_port e) port \<and> host_contains X (ae_host e) ip \<and>
       (\<not> ae_trusted_source_only e \<or> trusted_src)) (ac_entries cfg)"

definition tcp_hostnames_for_port :: "AllowlistConfig \<Rightarrow> port \<Rightarrow> HostnameEntry list" where
  "tcp_hostnames_for_port cfg port =
     filter (\<lambda>h. he_protocol h = Tcp \<and> port_matches (he_port h) port) (ac_hostnames cfg)"

definition push_entry :: "AllowlistEntry \<Rightarrow> AllowlistConfig \<Rightarrow> AllowlistConfig" where
  "push_entry entry cfg = cfg\<lparr> ac_entries := ac_entries cfg @ [entry] \<rparr>"

definition inject_resolver_entries :: "AllowlistConfig \<Rightarrow> AllowlistConfig" where
  "inject_resolver_entries cfg =
     fold (\<lambda>resolver. push_entry \<lparr> ae_host = Host_Literal resolver, ae_port = Port_Single 53, ae_protocol = Tcp,
                                  ae_trusted_source_only = True \<rparr>) (ac_resolvers cfg) cfg"

subsection \<open>The connection policy\<close>

datatype PolicyDecision = Allow | Deny

text \<open>The resolver's answers during one connection attempt: \<open>None\<close> for a failed or timed-out query.\<close>

type_synonym Answers = "utext \<Rightarrow> Ipv4Addr list option"

fun any_hostname :: "Answers \<Rightarrow> Ipv4Addr \<Rightarrow> HostnameEntry list \<Rightarrow> PolicyDecision" where
  "any_hostname resolve target [] = Deny"
| "any_hostname resolve target (entry # entries) =
     (case resolve (he_host entry) of
        Some ips \<Rightarrow> if target \<in> set ips then Allow else any_hostname resolve target entries
      | None \<Rightarrow> any_hostname resolve target entries)"

definition allow_tcp ::
    "'x EgressExt_scheme \<Rightarrow> AllowlistConfig \<Rightarrow> Ipv4Addr \<Rightarrow> Answers \<Rightarrow> Ipv4Addr \<Rightarrow> Ipv4Addr \<times> port \<Rightarrow> PolicyDecision" where
  "allow_tcp X cfg trusted_src resolve src dst =
     (if allows_tcp X cfg (fst dst) (snd dst) (src = trusted_src) then Allow
      else any_hostname resolve (fst dst) (tcp_hostnames_for_port cfg (snd dst)))"

text \<open>What the daemon puts on the wire for a flow: nothing, or the frame that opens the relay to exactly
  the flow's destination. The transport and the frame write may fail.\<close>

datatype ForwardError = Denied "Ipv4Addr \<times> port" | Transport_Failed | Frame_Failed | Splice_Failed

datatype OpenFrame = Open_Tcp Ipv4Addr port

record FlowFate =
  ff_connect :: bool
  ff_frame :: bool
  ff_splice :: bool

definition forward_flow ::
    "'x EgressExt_scheme \<Rightarrow> AllowlistConfig \<Rightarrow> Ipv4Addr \<Rightarrow> Answers \<Rightarrow> FlowFate \<Rightarrow> Ipv4Addr \<Rightarrow> Ipv4Addr \<times> port \<Rightarrow>
      (ForwardError + unit) \<times> OpenFrame list" where
  "forward_flow X cfg trusted_src resolve fate src dst =
     (case allow_tcp X cfg trusted_src resolve src dst of
        Deny \<Rightarrow> (Inl (Denied dst), [])
      | Allow \<Rightarrow>
          if \<not> ff_connect fate then (Inl Transport_Failed, [])
          else if \<not> ff_frame fate then (Inl Frame_Failed, [])
          else (if ff_splice fate then Inr () else Inl Splice_Failed, [Open_Tcp (fst dst) (snd dst)]))"

subsection \<open>Assembling an allowlist\<close>

datatype AllowlistFlagError =
    BadEntryShape utext
  | MissingPort utext
  | InvalidPort utext
  | PortZero utext
  | UnsupportedProtocol utext utext
  | EmptyHost utext
  | IpV6Host utext
  | Flag_InvalidHostname utext utext HostnameReason
  | InvalidResolver utext
  | InvalidDnsMode utext
  | Validation AllowlistLoadError

definition split_protocol :: "utext \<Rightarrow> utext \<Rightarrow> AllowlistFlagError + utext \<times> Protocol" where
  "split_protocol spec trimmed =
     (case rsplit_once 47 trimmed of
        Some (head, tail) \<Rightarrow>
          if 58 \<notin> set tail then
            (if to_ascii_lowercase tail = str ''tcp'' then Inr (head, Tcp)
             else if to_ascii_lowercase tail = str ''udp'' then Inr (head, Udp)
             else Inl (UnsupportedProtocol spec tail))
          else Inr (trimmed, Tcp)
      | None \<Rightarrow> Inr (trimmed, Tcp))"

definition parse_cli_port :: "utext \<Rightarrow> utext \<Rightarrow> AllowlistFlagError + RawPort" where
  "parse_cli_port spec port_str =
     (if trim port_str = WILDCARD then Inr (Port_Str WILDCARD)
      else (case parse_u16 (trim port_str) of
        None \<Rightarrow> Inl (InvalidPort spec)
      | Some n \<Rightarrow> if n = 0 then Inl (PortZero spec) else Inr (Port_Num (of_int n))))"

definition check_cli_host :: "'x EgressExt_scheme \<Rightarrow> utext \<Rightarrow> utext \<Rightarrow> AllowlistFlagError + unit" where
  "check_cli_host X spec host =
     (if net_parse X host = None \<and> parse_ipv4_addr host = None then
        (if parse_ip_addr host = Some V6 then Inl (IpV6Host spec)
         else map_err (Flag_InvalidHostname spec host) (validate_hostname host))
      else Inr ())"

definition parse_cli_entry :: "'x EgressExt_scheme \<Rightarrow> utext \<Rightarrow> AllowlistFlagError + RawEgressEntry" where
  "parse_cli_entry X spec =
     (let trimmed = trim spec
      in if trimmed = [] then Inl (BadEntryShape spec)
         else and_then (split_protocol spec trimmed) (\<lambda>(head, protocol).
         and_then (ok_or (MissingPort spec) (rsplit_once 58 head)) (\<lambda>(host, port_str).
         let host = trim host
         in if host = [] then Inl (EmptyHost spec)
            else and_then (parse_cli_port spec port_str) (\<lambda>port.
            and_then (check_cli_host X spec host) (\<lambda>_.
              Inr \<lparr> re_host = host, re_port = port, re_protocol = protocol \<rparr>)))))"

definition parse_cli_resolver :: "utext \<Rightarrow> AllowlistFlagError + utext" where
  "parse_cli_resolver spec =
     (case parse_ip_addr (trim spec) of
        Some (V4 _) \<Rightarrow> Inr (trim spec)
      | _ \<Rightarrow> Inl (InvalidResolver spec))"

definition assemble_from_cli ::
    "'x EgressExt_scheme \<Rightarrow> utext list \<Rightarrow> utext list \<Rightarrow> DnsMode option \<Rightarrow> AllowlistFlagError + RawAllowlist" where
  "assemble_from_cli X allow_specs resolver_specs dns =
     and_then (traverse (parse_cli_entry X) allow_specs) (\<lambda>egress.
     and_then (traverse parse_cli_resolver resolver_specs) (\<lambda>resolvers.
       let raw = new_v1\<lparr> ra_egress := egress, ra_resolvers := resolvers \<rparr>;
           raw = (case dns of Some d \<Rightarrow> raw\<lparr> ra_dns := d \<rparr> | None \<Rightarrow> raw)
       in and_then (map_err Validation (from_raw X raw)) (\<lambda>_. Inr raw)))"

definition validate_json :: "'x EgressExt_scheme \<Rightarrow> RawAllowlist option \<Rightarrow> AllowlistFlagError + RawAllowlist" where
  "validate_json X value =
     and_then (ok_or (Validation Load_Json) value) (\<lambda>raw.
     and_then (map_err Validation (from_raw X raw)) (\<lambda>_. Inr raw))"

subsection \<open>What an allowlist means\<close>

text \<open>The reading of one raw entry: the ports it names, and the addresses, given the resolver's answers.\<close>

definition entry_port :: "RawEgressEntry \<Rightarrow> port \<Rightarrow> bool" where
  "entry_port e port \<longleftrightarrow> re_port e = Port_Num port \<or> re_port e = Port_Str WILDCARD"

definition entry_address :: "'x EgressExt_scheme \<Rightarrow> Answers \<Rightarrow> RawEgressEntry \<Rightarrow> Ipv4Addr \<Rightarrow> bool" where
  "entry_address X resolve e ip =
     (case net_parse X (trim (re_host e)) of
        Some net \<Rightarrow> net_contains X net ip
      | None \<Rightarrow>
          (case parse_ip_addr (trim (re_host e)) of
             Some (V4 a) \<Rightarrow> a = ip
           | Some V6 \<Rightarrow> False
           | None \<Rightarrow>
               (case resolve (to_ascii_lowercase (trim (re_host e))) of Some ips \<Rightarrow> ip \<in> set ips | None \<Rightarrow> False)))"

lemma any_hostname_iff:
  "any_hostname resolve target hs = Allow \<longleftrightarrow> (\<exists>h \<in> set hs. \<exists>ips. resolve (he_host h) = Some ips \<and> target \<in> set ips)"
  by (induction hs) (auto split: option.splits)

lemma set_entries_of: "e \<in> set (entries_of cs) \<longleftrightarrow> As_Entry e \<in> set cs"
  by (induction cs rule: entries_of.induct) auto

lemma set_hostnames_of: "h \<in> set (hostnames_of cs) \<longleftrightarrow> As_Hostname h \<in> set cs"
  by (induction cs rule: hostnames_of.induct) auto

lemma set_resolvers_of: "ip \<in> set (resolvers_of rs) \<longleftrightarrow> (\<exists>r \<in> set rs. parse_ip_addr (trim r) = Some (V4 ip))"
  by (induction rs) (auto split: option.splits IpAddr.splits)

lemma resolvers_of_Nil:
  "resolvers_of rs = [] \<longleftrightarrow> (\<nexists>r ip. r \<in> set rs \<and> parse_ip_addr (trim r) = Some (V4 ip))"
  by (induction rs) (auto split: option.splits IpAddr.splits)

lemma inject_entries:
  "ac_entries (inject_resolver_entries cfg) = ac_entries cfg @ map (\<lambda>r. \<lparr> ae_host = Host_Literal r,
     ae_port = Port_Single 53, ae_protocol = Tcp, ae_trusted_source_only = True \<rparr>) (ac_resolvers cfg)"
  "ac_hostnames (inject_resolver_entries cfg) = ac_hostnames cfg"
proof -
  let ?e = "\<lambda>r. \<lparr> ae_host = Host_Literal r, ae_port = Port_Single 53, ae_protocol = Tcp, ae_trusted_source_only = True \<rparr>"
  have "ac_entries (fold (\<lambda>r. push_entry (?e r)) rs c) = ac_entries c @ map ?e rs \<and>
      ac_hostnames (fold (\<lambda>r. push_entry (?e r)) rs c) = ac_hostnames c" for rs c
    by (induction rs arbitrary: c) (simp_all add: push_entry_def)
  then show "ac_entries (inject_resolver_entries cfg) = ac_entries cfg @ map ?e (ac_resolvers cfg)"
      "ac_hostnames (inject_resolver_entries cfg) = ac_hostnames cfg"
    by (simp_all add: inject_resolver_entries_def)
qed

text \<open>What one entry classifies as.\<close>

lemma classify_Inr:
  assumes "classify_entry X e = Inr c"
  shows "re_protocol e = Tcp"
    and "entry_port e p \<longleftrightarrow> (case to_matcher (re_port e) of Inr m \<Rightarrow> port_matches m p | Inl _ \<Rightarrow> False)"
    and "(case c of
        As_Entry a \<Rightarrow> ae_protocol a = Tcp \<and> \<not> ae_trusted_source_only a \<and> to_matcher (re_port e) = Inr (ae_port a) \<and>
          (\<forall>ip. host_contains X (ae_host a) ip \<longleftrightarrow> entry_address X resolve e ip)
      | As_Hostname h \<Rightarrow> he_protocol h = Tcp \<and> to_matcher (re_port e) = Inr (he_port h) \<and>
          he_host h = to_ascii_lowercase (trim (re_host e)) \<and> validate_hostname (trim (re_host e)) = Inr () \<and>
          (\<forall>ip. (\<exists>ips. resolve (he_host h) = Some ips \<and> ip \<in> set ips) \<longleftrightarrow> entry_address X resolve e ip)
      | Dropped \<Rightarrow> (\<forall>ip. \<not> entry_address X resolve e ip))"
proof -
  show tcp: "re_protocol e = Tcp"
    using assms by (cases "re_protocol e") (simp_all add: classify_entry_def)
  obtain m where m: "to_matcher (re_port e) = Inr m"
    using assms by (auto simp: classify_entry_def and_then_Inr_iff split: if_splits)
  show "entry_port e p \<longleftrightarrow> (case to_matcher (re_port e) of Inr m \<Rightarrow> port_matches m p | Inl _ \<Rightarrow> False)"
    using m by (auto simp: entry_port_def to_matcher_def port_matches_def split: RawPort.splits if_splits)
  show "case c of
        As_Entry a \<Rightarrow> ae_protocol a = Tcp \<and> \<not> ae_trusted_source_only a \<and> to_matcher (re_port e) = Inr (ae_port a) \<and>
          (\<forall>ip. host_contains X (ae_host a) ip \<longleftrightarrow> entry_address X resolve e ip)
      | As_Hostname h \<Rightarrow> he_protocol h = Tcp \<and> to_matcher (re_port e) = Inr (he_port h) \<and>
          he_host h = to_ascii_lowercase (trim (re_host e)) \<and> validate_hostname (trim (re_host e)) = Inr () \<and>
          (\<forall>ip. (\<exists>ips. resolve (he_host h) = Some ips \<and> ip \<in> set ips) \<longleftrightarrow> entry_address X resolve e ip)
      | Dropped \<Rightarrow> (\<forall>ip. \<not> entry_address X resolve e ip)"
    using assms tcp m
    by (auto simp: classify_entry_def and_then_Inr_iff Let_def entry_address_def host_contains_def
      split: option.splits IpAddr.splits sum.splits)
qed

lemma from_raw_Inr:
  "from_raw X raw = Inr cfg \<longleftrightarrow> ra_version raw = 1 \<and>
     (\<exists>cs. list_all2 (\<lambda>e c. classify_entry X e = Inr c) (ra_egress raw) cs \<and>
       \<not> (ra_dns raw = Dns_Open \<and> resolvers_of (ra_resolvers raw) = []) \<and>
       cfg = \<lparr> ac_entries = entries_of cs, ac_resolvers = resolvers_of (ra_resolvers raw),
               ac_hostnames = hostnames_of cs, ac_dns = ra_dns raw \<rparr>)"
  by (auto simp: from_raw_def Let_def result_simps and_then_Inr_iff)

lemma classified_sides:
  assumes "list_all2 (\<lambda>e c. classify_entry X e = Inr c) es cs"
  shows "c \<in> set cs \<Longrightarrow> \<exists>e \<in> set es. classify_entry X e = Inr c"
    and "e \<in> set es \<Longrightarrow> \<exists>c \<in> set cs. classify_entry X e = Inr c"
  using assms by (auto simp: list_all2_conv_all_nth dest!: in_set_conv_nth [THEN iffD1]) (metis nth_mem)+

text \<open>The classified entries name what the raw ones name.\<close>

lemma classified_named:
  assumes cs: "list_all2 (\<lambda>e c. classify_entry X e = Inr c) es cs"
  shows "As_Entry a \<in> set cs \<Longrightarrow> ae_protocol a = Tcp \<and> \<not> ae_trusted_source_only a"
    and "As_Hostname h \<in> set cs \<Longrightarrow> he_protocol h = Tcp"
    and "(\<exists>e \<in> set es. entry_port e port \<and> entry_address X resolve e ip) \<longleftrightarrow>
      (\<exists>a. As_Entry a \<in> set cs \<and> port_matches (ae_port a) port \<and> host_contains X (ae_host a) ip) \<or>
      (\<exists>h. As_Hostname h \<in> set cs \<and> port_matches (he_port h) port \<and>
        (\<exists>ips. resolve (he_host h) = Some ips \<and> ip \<in> set ips))" (is "?named \<longleftrightarrow> ?classified")
proof -
  note sides = classified_sides [OF cs]
  show "ae_protocol a = Tcp \<and> \<not> ae_trusted_source_only a" if "As_Entry a \<in> set cs"
    using sides(1) [OF that] classify_Inr(3) [of X _ "As_Entry a"] by fastforce
  show "he_protocol h = Tcp" if "As_Hostname h \<in> set cs"
    using sides(1) [OF that] classify_Inr(3) [of X _ "As_Hostname h"] by fastforce
  show "?named \<longleftrightarrow> ?classified"
  proof
    assume ?named
    then obtain e where e: "e \<in> set es" "entry_port e port" "entry_address X resolve e ip" by blast
    from sides(2) [OF e(1)] obtain c where c: "c \<in> set cs" "classify_entry X e = Inr c" by blast
    from classify_Inr(2) [OF c(2), of port] classify_Inr(3) [OF c(2), of resolve] e c(1) show ?classified
      by (cases c) auto
  next
    assume ?classified
    then consider a where "As_Entry a \<in> set cs" "port_matches (ae_port a) port" "host_contains X (ae_host a) ip"
      | h ips where "As_Hostname h \<in> set cs" "port_matches (he_port h) port" "resolve (he_host h) = Some ips" "ip \<in> set ips"
      by blast
    then show ?named
    proof cases
      case 1
      from sides(1) [OF 1(1)] obtain e where e: "e \<in> set es" "classify_entry X e = Inr (As_Entry a)" by blast
      from classify_Inr(2) [OF e(2), of port] classify_Inr(3) [OF e(2), of resolve] e(1) 1 show ?thesis by auto
    next
      case 2
      from sides(1) [OF 2(1)] obtain e where e: "e \<in> set es" "classify_entry X e = Inr (As_Hostname h)" by blast
      from classify_Inr(2) [OF e(2), of port] classify_Inr(3) [OF e(2), of resolve] e(1) 2 show ?thesis by auto
    qed
  qed
qed

text \<open>C18. The daemon opens a relay exactly to what the allowlist names. For a loaded allowlist with the
  resolver entries injected, an \<open>Open\<close> frame leaves for a flow only to the flow's own destination, and
  the policy allows a destination exactly when some entry of the file names its port (or every port)
  and its address: literally, inside its CIDR block, or as one of the addresses the entry's hostname
  resolves to now. An IPv6 entry names no address. The one addition is port 53 of a configured
  resolver, for connections from the trusted source only, so a workload cannot go around the
  in-enclave resolver unless an entry says so.\<close>

theorem egress_only_to_listed:
  assumes load: "from_raw X raw = Inr cfg"
  shows "(allow_tcp X (inject_resolver_entries cfg) trusted resolve src (ip, port) = Allow \<longleftrightarrow>
      (\<exists>e \<in> set (ra_egress raw). entry_port e port \<and> entry_address X resolve e ip) \<or>
      src = trusted \<and> port = 53 \<and> (\<exists>r \<in> set (ra_resolvers raw). parse_ip_addr (trim r) = Some (V4 ip))) \<and>
    (snd (forward_flow X (inject_resolver_entries cfg) trusted resolve fate src (ip, port)) =
      (if allow_tcp X (inject_resolver_entries cfg) trusted resolve src (ip, port) = Allow \<and> ff_connect fate \<and> ff_frame fate
       then [Open_Tcp ip port] else []))"
proof -
  from load obtain cs where cs: "list_all2 (\<lambda>e c. classify_entry X e = Inr c) (ra_egress raw) cs"
      and cfg: "ac_entries cfg = entries_of cs" "ac_resolvers cfg = resolvers_of (ra_resolvers raw)" "ac_hostnames cfg = hostnames_of cs"
    by (auto simp: from_raw_Inr)
  let ?ok = "\<lambda>e. ae_protocol e = Tcp \<and> port_matches (ae_port e) port \<and> host_contains X (ae_host e) ip \<and>
        (\<not> ae_trusted_source_only e \<or> src = trusted)"
  have trusted: "list_ex ?ok (map (\<lambda>r. \<lparr> ae_host = Host_Literal r, ae_port = Port_Single 53, ae_protocol = Tcp,
          ae_trusted_source_only = True \<rparr>) (resolvers_of (ra_resolvers raw))) \<longleftrightarrow>
      src = trusted \<and> port = 53 \<and> (\<exists>r \<in> set (ra_resolvers raw). parse_ip_addr (trim r) = Some (V4 ip))"
    by (auto simp: list_ex_iff port_matches_def host_contains_def set_resolvers_of)
  have entries: "list_ex ?ok (entries_of cs) \<longleftrightarrow>
      (\<exists>a. As_Entry a \<in> set cs \<and> port_matches (ae_port a) port \<and> host_contains X (ae_host a) ip)"
    using classified_named(1) [OF cs] by (auto simp: list_ex_iff set_entries_of)
  have hosts: "any_hostname resolve ip (tcp_hostnames_for_port (inject_resolver_entries cfg) port) = Allow \<longleftrightarrow>
      (\<exists>h. As_Hostname h \<in> set cs \<and> port_matches (he_port h) port \<and> (\<exists>ips. resolve (he_host h) = Some ips \<and> ip \<in> set ips))"
    using classified_named(2) [OF cs]
    by (auto simp: any_hostname_iff tcp_hostnames_for_port_def inject_entries cfg set_hostnames_of)
  have "allow_tcp X (inject_resolver_entries cfg) trusted resolve src (ip, port) = Allow \<longleftrightarrow>
      (\<exists>e \<in> set (ra_egress raw). entry_port e port \<and> entry_address X resolve e ip) \<or>
      src = trusted \<and> port = 53 \<and> (\<exists>r \<in> set (ra_resolvers raw). parse_ip_addr (trim r) = Some (V4 ip))"
    unfolding allow_tcp_def fst_conv snd_conv allows_tcp_def inject_entries(1) cfg list_ex_append entries trusted
      classified_named(3) [OF cs]
    using hosts by auto
  then show ?thesis
    by (cases "allow_tcp X (inject_resolver_entries cfg) trusted resolve src (ip, port)")
      (auto simp: forward_flow_def)
qed

subsection \<open>Well-formed allowlists\<close>

lemma str_len_ge: "length s \<le> str_len s"
proof -
  have "length s = sum_list (map (\<lambda>_. 1) s)" by (induction s) simp_all
  also have "\<dots> \<le> str_len s"
    unfolding str_len_def by (intro sum_list_mono) (simp add: utf8_len_def)
  finally show ?thesis .
qed

definition hostname_char :: "scalar \<Rightarrow> bool" where
  "hostname_char c \<longleftrightarrow> 97 \<le> c \<and> c \<le> 122 \<or> 48 \<le> c \<and> c \<le> 57 \<or> c = 45 \<or> c = 46"

lemma validate_hostname_Inr:
  assumes "validate_hostname host = Inr ()"
  shows "host \<noteq> [] \<and> length host \<le> 253 \<and> list_all hostname_char (to_ascii_lowercase host)"
proof -
  have v: "host \<noteq> []" "str_len host \<le> 253" "\<exists>us. traverse validate_label (split_on 46 host) = Inr us"
    using assms by (auto simp: validate_hostname_def and_then_Inr_iff split: if_splits)
  have "is_ascii_alphanumeric c \<or> c = 45 \<or> c = 46" if "c \<in> set host" for c
  proof (cases "c = 46")
    case False
    from concat_split_on [OF that False] obtain l where l: "l \<in> set (split_on 46 host)" "c \<in> set l" by blast
    from v(3) l(1) have "validate_label l = Inr ()"
      by (auto simp: result_simps list_all2_conv_all_nth in_set_conv_nth)
    with l(2) show ?thesis
      by (auto simp: validate_label_def ensure_Inr_iff list_all_iff split: if_splits)
  qed simp
  then have "list_all hostname_char (to_ascii_lowercase host)"
    by (force simp: to_ascii_lowercase_def list_all_iff hostname_char_def is_ascii_alphanumeric_def)
  with v(1,2) str_len_ge [of host] show ?thesis by simp
qed

text \<open>C38. A loaded allowlist is well formed, whatever the file says: every entry and every hostname is for
  TCP, names no port zero, and only injected entries are reserved for the trusted source; every
  hostname has 1 to 253 characters, all of them lower-case letters, digits, hyphens or dots, so none
  can carry a newline or a quote into the resolver's configuration; and open resolution comes with a
  resolver to forward to.\<close>

theorem loaded_allowlist_is_well_formed:
  assumes "from_raw X raw = Inr cfg"
  shows "list_all (\<lambda>e. ae_protocol e = Tcp \<and> \<not> ae_trusted_source_only e \<and> ae_port e \<noteq> Port_Single 0) (ac_entries cfg) \<and>
    list_all (\<lambda>h. he_protocol h = Tcp \<and> he_port h \<noteq> Port_Single 0 \<and> he_host h \<noteq> [] \<and> length (he_host h) \<le> 253 \<and>
      list_all hostname_char (he_host h)) (ac_hostnames cfg) \<and>
    (ac_dns cfg = Dns_Open \<longrightarrow> ac_resolvers cfg \<noteq> [])"
proof -
  from assms obtain cs where cs: "list_all2 (\<lambda>e c. classify_entry X e = Inr c) (ra_egress raw) cs"
      and cfg: "ac_entries cfg = entries_of cs" "ac_hostnames cfg = hostnames_of cs"
      and dns: "ac_dns cfg = Dns_Open \<longrightarrow> ac_resolvers cfg \<noteq> []"
    by (auto simp: from_raw_Inr)
  have port: "m \<noteq> Port_Single 0" if "to_matcher p = Inr m" for p m
    using that by (auto simp: to_matcher_def split: RawPort.splits if_splits)
  have "ae_protocol a = Tcp \<and> \<not> ae_trusted_source_only a \<and> ae_port a \<noteq> Port_Single 0" if "As_Entry a \<in> set cs" for a
  proof -
    from classified_sides(1) [OF cs that] obtain e where "classify_entry X e = Inr (As_Entry a)" by blast
    from classify_Inr(3) [OF this, of "\<lambda>_. None"] show ?thesis using port by auto
  qed
  moreover have "he_protocol h = Tcp \<and> he_port h \<noteq> Port_Single 0 \<and> he_host h \<noteq> [] \<and> length (he_host h) \<le> 253 \<and>
      list_all hostname_char (he_host h)" if "As_Hostname h \<in> set cs" for h
  proof -
    from classified_sides(1) [OF cs that] obtain e where "classify_entry X e = Inr (As_Hostname h)" by blast
    from classify_Inr(3) [OF this, of "\<lambda>_. None"]
    have h: "he_protocol h = Tcp" "to_matcher (re_port e) = Inr (he_port h)"
        "he_host h = to_ascii_lowercase (trim (re_host e))" "validate_hostname (trim (re_host e)) = Inr ()" by simp_all
    with validate_hostname_Inr [OF h(4)] port [OF h(2)] show ?thesis by (simp add: to_ascii_lowercase_def)
  qed
  ultimately show ?thesis
    using dns by (simp add: cfg list_all_iff set_entries_of set_hostnames_of)
qed

text \<open>When an entry is acceptable.\<close>

definition entry_acceptable :: "'x EgressExt_scheme \<Rightarrow> RawEgressEntry \<Rightarrow> bool" where
  "entry_acceptable X e \<longleftrightarrow> re_protocol e = Tcp \<and>
     (case re_port e of Port_Num n \<Rightarrow> n \<noteq> 0 | Port_Str s \<Rightarrow> s = WILDCARD) \<and>
     (net_parse X (trim (re_host e)) \<noteq> None \<or> parse_ip_addr (trim (re_host e)) \<noteq> None \<or>
      is_ok (validate_hostname (trim (re_host e))))"

lemma classify_ok: "is_ok (classify_entry X e) \<longleftrightarrow> entry_acceptable X e"
  by (cases "re_protocol e"; cases "re_port e")
    (auto simp: classify_entry_def entry_acceptable_def to_matcher_def Let_def is_ok_iff
      split: option.splits IpAddr.splits sum.splits)

lemma traverse_ok: "is_ok (traverse f xs) \<longleftrightarrow> list_all (\<lambda>x. is_ok (f x)) xs"
proof (induction xs)
  case (Cons x xs)
  then show ?case by (cases "f x"; cases "traverse f xs") (simp_all add: is_ok_iff)
qed (simp add: is_ok_iff)

definition allowlist_unacceptable :: "'x EgressExt_scheme \<Rightarrow> RawAllowlist \<Rightarrow> bool" where
  "allowlist_unacceptable X raw \<longleftrightarrow>
     ra_version raw \<noteq> 1 \<or> \<not> list_all (entry_acceptable X) (ra_egress raw) \<or>
     ra_dns raw = Dns_Open \<and> (\<nexists>r ip. r \<in> set (ra_resolvers raw) \<and> parse_ip_addr (trim r) = Some (V4 ip))"

lemma from_raw_rejects: "is_ok (from_raw X raw) \<longleftrightarrow> \<not> allowlist_unacceptable X raw"
proof -
  have "is_ok (from_raw X raw) \<longleftrightarrow> ra_version raw = 1 \<and> is_ok (traverse (classify_entry X) (ra_egress raw)) \<and>
      \<not> (ra_dns raw = Dns_Open \<and> resolvers_of (ra_resolvers raw) = [])"
    by (cases "traverse (classify_entry X) (ra_egress raw)")
      (auto simp: from_raw_def Let_def is_ok_iff)
  then show ?thesis
    unfolding traverse_ok classify_ok resolvers_of_Nil allowlist_unacceptable_def by blast
qed

lemma blank_iff: "list_all is_ascii_whitespace bs \<longleftrightarrow> set bs \<subseteq> {32, 9, 10, 12, 13}"
  by (auto simp: list_all_iff is_ascii_whitespace_def)

text \<open>C39. An allowlist file is rejected exactly for the reasons it should be: it cannot be read, or it is not blank and
  either is not JSON of the schema or holds an allowlist with a schema version other than one, an entry that is for UDP,
  has port zero or a string other than the wildcard for a port, or whose host is neither an address, nor a network, nor
  a valid hostname, or open resolution without an IPv4 resolver. A missing file, and a file of nothing but spaces,
  tabs, line feeds, form feeds and carriage returns, is the empty allowlist, which allows nothing.\<close>

theorem allowlist_rejected_exactly:
  "(\<not> is_ok (load_or_empty X content) \<longleftrightarrow>
      content = File_Error \<or>
      (\<exists>bs. content = File_Bytes bs \<and> \<not> set bs \<subseteq> {32, 9, 10, 12, 13} \<and>
         (case allowlist_from_slice X bs of
            None \<Rightarrow> True
          | Some raw \<Rightarrow>
              ra_version raw \<noteq> 1 \<or> \<not> list_all (entry_acceptable X) (ra_egress raw) \<or>
              ra_dns raw = Dns_Open \<and>
                (\<nexists>r ip. r \<in> set (ra_resolvers raw) \<and> parse_ip_addr (trim r) = Some (V4 ip))))) \<and>
    (content = File_NotFound \<or> (\<exists>bs. content = File_Bytes bs \<and> set bs \<subseteq> {32, 9, 10, 12, 13}) \<longrightarrow>
       load_or_empty X content = Inr config_empty) \<and>
    allow_tcp X (inject_resolver_entries config_empty) trusted resolve src dst = Deny"
proof -
  have "\<not> is_ok (load_or_empty X content) \<longleftrightarrow> content = File_Error \<or>
      (\<exists>bs. content = File_Bytes bs \<and> \<not> set bs \<subseteq> {32, 9, 10, 12, 13} \<and>
         (case allowlist_from_slice X bs of None \<Rightarrow> True | Some raw \<Rightarrow> allowlist_unacceptable X raw))"
    using from_raw_rejects [of X]
    by (cases content) (auto simp: load_or_empty_def from_bytes_def blank_iff is_ok_def and_then_def ok_or_def
        split: option.splits if_splits)
  moreover have "content = File_NotFound \<or> (\<exists>bs. content = File_Bytes bs \<and> set bs \<subseteq> {32, 9, 10, 12, 13}) \<longrightarrow>
      load_or_empty X content = Inr config_empty"
    by (auto simp: load_or_empty_def blank_iff)
  moreover have "allow_tcp X (inject_resolver_entries config_empty) trusted resolve src dst = Deny"
    by (simp add: allow_tcp_def allows_tcp_def inject_entries tcp_hostnames_for_port_def config_empty_def)
  ultimately show ?thesis unfolding allowlist_unacceptable_def by blast
qed

subsection \<open>What the command line accepts\<close>

lemma no_drop_length:
  assumes "Dropped \<notin> set cs"
  shows "length (entries_of cs) + length (hostnames_of cs) = length cs"
  using assms
proof (induction cs)
  case (Cons c cs)
  then show ?case by (cases c) auto
qed simp

lemma cli_entry_not_dropped:
  assumes "parse_cli_entry X spec = Inr e"
  shows "classify_entry X e \<noteq> Inr Dropped"
proof -
  obtain host port prot where e: "e = \<lparr> re_host = trim host, re_port = port, re_protocol = prot \<rparr>"
      "check_cli_host X spec (trim host) = Inr ()"
    using assms by (auto simp: parse_cli_entry_def Let_def and_then_Inr_iff split: if_splits prod.splits)
  then show ?thesis
    by (auto simp: check_cli_host_def classify_entry_def Let_def and_then_Inr_iff parse_ip_addr_V4 [symmetric]
      split: if_splits option.splits IpAddr.splits sum.splits)
qed

text \<open>C19. What the command line accepts, the daemon enforces in full. If a list of allow specs and resolver
  specs is assembled without an error, the daemon loads the result without an error, and drops
  nothing of it: each spec is one entry or one hostname of the loaded allowlist and each resolver
  spec one resolver.\<close>

theorem cli_allowlist_is_enforced:
  assumes "assemble_from_cli X specs resolver_specs dns = Inr raw"
  shows "\<exists>cfg. from_raw X raw = Inr cfg \<and>
    length (ac_entries cfg) + length (ac_hostnames cfg) = length specs \<and>
    length (ac_resolvers cfg) = length resolver_specs"
proof -
  obtain egress resolvers cfg where a: "list_all2 (\<lambda>s e. parse_cli_entry X s = Inr e) specs egress"
      "list_all2 (\<lambda>s r. parse_cli_resolver s = Inr r) resolver_specs resolvers"
      "ra_egress raw = egress" "ra_resolvers raw = resolvers" "from_raw X raw = Inr cfg"
    using assms by (auto simp: assemble_from_cli_def and_then_Inr_iff map_err_Inr_iff result_simps Let_def new_v1_def
      split: option.splits)
  from a(5) obtain cs where cs: "list_all2 (\<lambda>e c. classify_entry X e = Inr c) egress cs"
      "ac_entries cfg = entries_of cs" "ac_hostnames cfg = hostnames_of cs" "ac_resolvers cfg = resolvers_of resolvers"
    by (auto simp: from_raw_Inr a(3,4))
  have "Dropped \<notin> set cs"
  proof
    assume "Dropped \<in> set cs"
    from classified_sides(1) [OF cs(1) this] obtain e where e: "e \<in> set egress" "classify_entry X e = Inr Dropped" by blast
    from a(1) e(1) obtain spec where "parse_cli_entry X spec = Inr e"
      by (auto simp: list_all2_conv_all_nth in_set_conv_nth)
    with cli_entry_not_dropped e(2) show False by blast
  qed
  from no_drop_length [OF this] a(1) cs have "length (ac_entries cfg) + length (ac_hostnames cfg) = length specs"
    by (auto dest!: list_all2_lengthD)
  moreover from a(2) have "length (resolvers_of resolvers) = length resolver_specs"
    by (induction rule: list_all2_induct)
      (auto simp: parse_cli_resolver_def split: option.splits IpAddr.splits)
  ultimately show ?thesis using a(5) cs(4) by auto
qed

subsection \<open>A concrete allowlist\<close>

text \<open>One network, one hostname on every port, one resolver.\<close>

definition ex_raw_allowlist :: RawAllowlist where
  "ex_raw_allowlist = \<lparr> ra_version = 1, ra_resolvers = [str ''1.1.1.1''],
     ra_egress = [\<lparr> re_host = str ''10.0.0.0/8'', re_port = Port_Num 443, re_protocol = Tcp \<rparr>,
                  \<lparr> re_host = str ''API.example.com'', re_port = Port_Str (str ''*''), re_protocol = Tcp \<rparr>],
     ra_dns = Dns_Open \<rparr>"

definition ex_egress :: EgressExt where
  "ex_egress = \<lparr> net_parse = (\<lambda>s. if s = str ''10.0.0.0/8'' then Some (0x0A000000, 8) else None),
     net_contains = (\<lambda>(a, n) ip. drop_bit (32 - n) a = drop_bit (32 - n) ip),
     allowlist_from_slice = (\<lambda>bs. if bs = [1] then Some ex_raw_allowlist
       else if bs = [2] then Some (ex_raw_allowlist\<lparr> ra_resolvers := [str ''::1''] \<rparr>) else None) \<rparr>"

definition ex_specs :: "utext list" where
  "ex_specs = [str ''10.0.0.0/8:443'', str '' API.example.com:*/tcp '']"

definition ex_answers :: Answers where
  "ex_answers host = (if host = str ''api.example.com'' then Some [0x01020304] else None)"

lemma ex_assembles: "assemble_from_cli ex_egress ex_specs [str ''1.1.1.1''] (Some Dns_Open) = Inr ex_raw_allowlist"
  by code_simp

lemma ex_loads: "is_ok (from_raw ex_egress ex_raw_allowlist)"
  by code_simp

theorem egress_only_to_listed_witness:
  "\<exists>cfg. from_raw ex_egress ex_raw_allowlist = Inr cfg \<and>
     allow_tcp ex_egress (inject_resolver_entries cfg) 1 ex_answers 2 (0x0A010203, 443) = Allow \<and>
     allow_tcp ex_egress (inject_resolver_entries cfg) 1 ex_answers 2 (0x01020304, 8080) = Allow \<and>
     allow_tcp ex_egress (inject_resolver_entries cfg) 1 ex_answers 2 (0x01010101, 53) \<noteq> Allow \<and>
     allow_tcp ex_egress (inject_resolver_entries cfg) 1 ex_answers 1 (0x01010101, 53) = Allow"
proof -
  obtain cfg where cfg: "from_raw ex_egress ex_raw_allowlist = Inr cfg"
    using ex_loads by (auto simp: is_ok_iff)
  let ?named = "\<lambda>ip port. list_ex (\<lambda>e. entry_port e port \<and> entry_address ex_egress ex_answers e ip) (ra_egress ex_raw_allowlist)"
  have named: "?named 0x0A010203 443" "?named 0x01020304 8080" "\<not> ?named 0x01010101 53"
      "list_ex (\<lambda>r. parse_ip_addr (trim r) = Some (V4 0x01010101)) (ra_resolvers ex_raw_allowlist)"
    by code_simp+
  note t = conjunct1 [OF egress_only_to_listed [OF cfg, where trusted = 1 and resolve = ex_answers]]
  show ?thesis
    using cfg named t [of 2 "0x0A010203" 443] t [of 2 "0x01020304" 8080] t [of 2 "0x01010101" 53] t [of 1 "0x01010101" 53]
    unfolding list_ex_iff by (intro exI [of _ cfg] conjI) simp_all
qed

theorem loaded_allowlist_is_well_formed_witness:
  "\<exists>cfg. from_raw ex_egress ex_raw_allowlist = Inr cfg \<and> length (ac_hostnames cfg) = 1 \<and>
     list_all (\<lambda>h. list_all hostname_char (he_host h)) (ac_hostnames cfg)"
proof -
  obtain cfg where cfg: "from_raw ex_egress ex_raw_allowlist = Inr cfg"
    using ex_loads by (auto simp: is_ok_iff)
  have "(case from_raw ex_egress ex_raw_allowlist of Inr c \<Rightarrow> length (ac_hostnames c) = 1 | Inl _ \<Rightarrow> False)"
    by code_simp
  with loaded_allowlist_is_well_formed [OF cfg] cfg show ?thesis
    by (auto simp: list_all_iff)
qed

theorem allowlist_rejected_exactly_witness:
  "load_or_empty ex_egress (File_Bytes [32, 10]) = Inr config_empty \<and>
   \<not> is_ok (load_or_empty ex_egress (File_Bytes [2])) \<and> \<not> is_ok (load_or_empty ex_egress (File_Bytes [123])) \<and>
   is_ok (load_or_empty ex_egress (File_Bytes [1]))"
proof -
  have "parse_ip_addr (trim (str ''::1'')) = Some V6" by code_simp
  then have two: "allowlist_from_slice ex_egress [2] = Some (ex_raw_allowlist\<lparr> ra_resolvers := [str ''::1''] \<rparr>)"
      "\<nexists>r ip. r \<in> {str ''::1''} \<and> parse_ip_addr (trim r) = Some (V4 ip)"
    by (simp_all add: ex_egress_def)
  have "is_ok (load_or_empty ex_egress (File_Bytes [1]))" by code_simp
  then show ?thesis
    using two allowlist_rejected_exactly [of ex_egress "File_Bytes [32, 10]" 0 ex_answers 0 "(0, 0)"]
      allowlist_rejected_exactly [of ex_egress "File_Bytes [2]" 0 ex_answers 0 "(0, 0)"]
      allowlist_rejected_exactly [of ex_egress "File_Bytes [123]" 0 ex_answers 0 "(0, 0)"]
    by (simp add: ex_raw_allowlist_def) (simp add: ex_egress_def)
qed

theorem cli_allowlist_is_enforced_witness:
  "\<exists>raw cfg. assemble_from_cli ex_egress ex_specs [str ''1.1.1.1''] (Some Dns_Open) = Inr raw \<and>
     from_raw ex_egress raw = Inr cfg \<and> length (ac_entries cfg) + length (ac_hostnames cfg) = 2 \<and>
     length (ac_resolvers cfg) = 1"
  using cli_allowlist_is_enforced [OF ex_assembles] ex_assembles by (simp add: ex_specs_def numeral_2_eq_2)

end
