(* ===== verification/Run_Monad.thy ===== *)
theory Run_Monad
  imports Prelude
begin

text \<open>
  Stateful code that may fail: a function from the state to a result and the state it leaves, also
  when it fails. The interface \<open>effect\<close> is for what every step of such code does to the state,
  whatever its result; it composes along the code.
\<close>

type_synonym ('s, 'e, 'a) run = "'s \<Rightarrow> ('e + 'a) \<times> 's"

definition run_return :: "'a \<Rightarrow> ('s, 'e, 'a) run" where
  "run_return x = (\<lambda>s. (Inr x, s))"

definition run_fail :: "'e \<Rightarrow> ('s, 'e, 'a) run" where
  "run_fail e = (\<lambda>s. (Inl e, s))"

text \<open>\<open>run_of r\<close> is \<open>r?\<close> of a pure result.\<close>

definition run_of :: "'e + 'a \<Rightarrow> ('s, 'e, 'a) run" where
  "run_of r = (\<lambda>s. (r, s))"

definition run_bind :: "('s, 'e, 'a) run \<Rightarrow> ('a \<Rightarrow> ('s, 'e, 'b) run) \<Rightarrow> ('s, 'e, 'b) run" where
  "run_bind m f = (\<lambda>s. case m s of (Inl e, s') \<Rightarrow> (Inl e, s') | (Inr x, s') \<Rightarrow> f x s')"

text \<open>\<open>let _ = m\<close>: the result is dropped. \<open>run_then m c\<close> runs \<open>c\<close> after \<open>m\<close>, failed or not, as a drop guard does.\<close>

definition run_attempt :: "('s, 'e, 'a) run \<Rightarrow> ('s, 'f, 'e + 'a) run" where
  "run_attempt m = (\<lambda>s. case m s of (r, s') \<Rightarrow> (Inr r, s'))"

definition run_then :: "('s, 'e, 'a) run \<Rightarrow> ('s, 'f, 'b) run \<Rightarrow> ('s, 'e, 'a) run" where
  "run_then m c = (\<lambda>s. case m s of (r, s') \<Rightarrow> (r, snd (c s')))"

lemma run_eval [simp]:
  "run_return x s = (Inr x, s)" "run_fail e s = (Inl e, s)" "run_of r s = (r, s)"
  by (simp_all add: run_return_def run_fail_def run_of_def)

lemma run_bind_Inr_iff:
  "run_bind m f s = (Inr y, s'') \<longleftrightarrow> (\<exists>x s'. m s = (Inr x, s') \<and> f x s' = (Inr y, s''))"
  by (auto simp: run_bind_def split: prod.splits sum.splits)

lemma run_bind_iff:
  "run_bind m f s = (r, s'') \<longleftrightarrow>
     (\<exists>e. m s = (Inl e, s'') \<and> r = Inl e) \<or> (\<exists>x s'. m s = (Inr x, s') \<and> f x s' = (r, s''))"
  by (auto simp: run_bind_def split: prod.splits sum.splits)

lemma run_bind_cases:
  assumes "run_bind m f s = (r, s'')"
  obtains (failed) e where "m s = (Inl e, s'')" "r = Inl e"
  | (went_on) x s' where "m s = (Inr x, s')" "f x s' = (r, s'')"
  using assms unfolding run_bind_iff by blast

lemma run_attempt_iff: "run_attempt m s = (r, s') \<longleftrightarrow> (\<exists>x. m s = (x, s') \<and> r = Inr x)"
  by (auto simp: run_attempt_def split: prod.splits)

lemma run_then_iff: "run_then m c s = (r, s'') \<longleftrightarrow> (\<exists>s'. m s = (r, s') \<and> s'' = snd (c s'))"
  by (auto simp: run_then_def split: prod.splits)

definition has_effect :: "('s \<Rightarrow> 's \<Rightarrow> bool) \<Rightarrow> ('s, 'e, 'a) run \<Rightarrow> bool" where
  "has_effect rel m \<longleftrightarrow> (\<forall>s r s'. m s = (r, s') \<longrightarrow> rel s s')"

locale effect =
  fixes rel :: "'s \<Rightarrow> 's \<Rightarrow> bool"
  assumes rel_refl: "rel s s"
    and rel_trans: "rel s s' \<Longrightarrow> rel s' s'' \<Longrightarrow> rel s s''"
begin

lemma hasI: "(\<And>s r s'. m s = (r, s') \<Longrightarrow> rel s s') \<Longrightarrow> has_effect rel m"
  by (simp add: has_effect_def)

lemma hasD: "has_effect rel m \<Longrightarrow> m s = (r, s') \<Longrightarrow> rel s s'"
  by (simp add: has_effect_def)

lemma has_pure: "has_effect rel (run_return x)" "has_effect rel (run_fail e)" "has_effect rel (run_of r)"
  by (auto simp: has_effect_def rel_refl)

lemma has_bind_post:
  assumes "has_effect rel m" "\<And>s x s'. m s = (Inr x, s') \<Longrightarrow> Q x" "\<And>x. Q x \<Longrightarrow> has_effect rel (f x)"
  shows "has_effect rel (run_bind m f)"
  using assms unfolding has_effect_def run_bind_iff by (blast intro: rel_trans)

lemma has_bind: "has_effect rel m \<Longrightarrow> (\<And>x. has_effect rel (f x)) \<Longrightarrow> has_effect rel (run_bind m f)"
  by (rule has_bind_post [where Q = "\<lambda>_. True"]) simp_all

lemma has_bind_state:
  assumes "has_effect rel m" "\<And>s x s' r s''. \<lbrakk> m s = (Inr x, s'); rel s s'; f x s' = (r, s'') \<rbrakk> \<Longrightarrow> rel s s''"
  shows "has_effect rel (run_bind m f)"
  using assms unfolding has_effect_def run_bind_iff by blast

lemma has_attempt: "has_effect rel m \<Longrightarrow> has_effect rel (run_attempt m)"
  unfolding has_effect_def run_attempt_iff by blast

lemma has_then: "has_effect rel m \<Longrightarrow> has_effect rel c \<Longrightarrow> has_effect rel (run_then m c)"
  unfolding has_effect_def run_then_iff by (metis prod.collapse rel_trans)

lemmas has_intros = has_pure has_bind has_attempt has_then

end

end
