(* ===== verification/Kms_Policy.thy ===== *)
theory Kms_Policy
  imports Json_Value Chain
begin

text \<open>
  The enclave's own check of a KMS key policy, \<open>enclavia-protocol/src/kms_policy.rs\<close>, made before
  the LUKS passphrase is sealed under the key or recovered with it. The JSON parser is a parameter;
  what KMS permits under a policy is a parameter too, of which only the documented meaning of a
  policy statement is assumed.
\<close>

definition EQ_OPERATORS :: "string list" where
  "EQ_OPERATORS = [''StringEquals'', ''StringEqualsIgnoreCase'']"

definition FORBIDDEN_ACTIONS :: "string list" where
  "FORBIDDEN_ACTIONS = [''kms:putkeypolicy'', ''kms:creategrant'', ''kms:replicatekey'']"

datatype PolicyError =
    Policy_Json
  | Policy_NoStatements
  | Policy_NotAction
  | Policy_WildcardAction string
  | Policy_ForbiddenAction string
  | Policy_UngatedDecrypt
  | Policy_PcrMismatch (mismatch_index: nat) (mismatch_found: string) (mismatch_expected: string)

definition ascii_lowercase :: "string \<Rightarrow> string" where
  "ascii_lowercase s = map ascii_lower s"

definition starts_with_str :: "string \<Rightarrow> string \<Rightarrow> bool" where
  "starts_with_str p s \<longleftrightarrow> take (length p) s = p"

definition strip_prefix_str :: "string \<Rightarrow> string \<Rightarrow> string option" where
  "strip_prefix_str p s = (if starts_with_str p s then Some (drop (length p) s) else None)"

fun normalize_actions :: "Json option \<Rightarrow> string list" where
  "normalize_actions (Some (JsonString s)) = [ascii_lowercase s]"
| "normalize_actions (Some (JsonArray elements)) =
     map ascii_lowercase (List.map_filter json_as_str elements)"
| "normalize_actions _ = []"

definition pcr_suffix :: "string \<Rightarrow> string option" where
  "pcr_suffix key =
     (case strip_prefix_str ''kms:RecipientAttestation:PCR'' key of
        Some suffix \<Rightarrow> Some suffix
      | None \<Rightarrow> strip_prefix_str ''kms:RecipientAttestation:pcr'' key)"

fun bind_key :: "(string \<rightharpoonup> string) \<Rightarrow> string \<times> Json \<Rightarrow> (string \<rightharpoonup> string)" where
  "bind_key out (key, val) =
     (case pcr_suffix key of
        None \<Rightarrow> out
      | Some suffix \<Rightarrow> (case val of JsonString s \<Rightarrow> out(suffix \<mapsto> s) | _ \<Rightarrow> out))"

fun bind_operator :: "(string \<rightharpoonup> string) \<Rightarrow> string \<times> Json \<Rightarrow> (string \<rightharpoonup> string)" where
  "bind_operator out (op, kv) =
     (if op \<notin> set EQ_OPERATORS then out
      else (case json_as_object kv of None \<Rightarrow> out | Some kv_map \<Rightarrow> foldl bind_key out kv_map))"

definition collect_pcr_bindings :: "Json \<Rightarrow> (string \<rightharpoonup> string)" where
  "collect_pcr_bindings stmt =
     (case Option.bind (json_get ''Condition'' stmt) json_as_object of
        None \<Rightarrow> Map.empty
      | Some cond \<Rightarrow> foldl bind_operator Map.empty cond)"

fun check_actions :: "string list \<Rightarrow> PolicyError + unit" where
  "check_actions [] = Inr ()"
| "check_actions (action # actions) =
     (if CHR ''*'' \<in> set action \<or> CHR ''?'' \<in> set action then Inl (Policy_WildcardAction action)
      else if action \<in> set FORBIDDEN_ACTIONS \<or> starts_with_str ''kms:reencrypt'' action then
        Inl (Policy_ForbiddenAction action)
      else check_actions actions)"

fun check_bindings :: "(string \<rightharpoonup> string) \<Rightarrow> (string \<times> nat \<times> string) list \<Rightarrow> PolicyError + unit" where
  "check_bindings bound [] = Inr ()"
| "check_bindings bound ((suffix, index, expected) # want) =
     (case bound suffix of
        None \<Rightarrow> Inl Policy_UngatedDecrypt
      | Some found \<Rightarrow>
          if \<not> eq_ignore_ascii_case found expected then Inl (Policy_PcrMismatch index found expected)
          else check_bindings bound want)"

definition check_statement :: "(string \<times> nat \<times> string) list \<Rightarrow> Json \<Rightarrow> PolicyError + unit" where
  "check_statement want stmt =
     (if Option.bind (json_get ''Effect'' stmt) json_as_str \<noteq> Some ''Allow'' then Inr ()
      else if json_get ''NotAction'' stmt \<noteq> None then Inl Policy_NotAction
      else
        let actions = normalize_actions (json_get ''Action'' stmt) in
        and_then (check_actions actions) (\<lambda>_.
          if ''kms:decrypt'' \<in> set actions then check_bindings (collect_pcr_bindings stmt) want
          else Inr ()))"

fun check_statements :: "(string \<times> nat \<times> string) list \<Rightarrow> Json list \<Rightarrow> PolicyError + unit" where
  "check_statements want [] = Inr ()"
| "check_statements want (stmt # stmts) =
     and_then (check_statement want stmt) (\<lambda>_. check_statements want stmts)"

definition policy_statements :: "Json \<Rightarrow> Json list option" where
  "policy_statements doc =
     (case json_get ''Statement'' doc of
        Some (JsonArray stmts) \<Rightarrow> Some stmts
      | Some other \<Rightarrow> Some [other]
      | None \<Rightarrow> None)"

definition wanted_pcrs :: "'x Ext_scheme \<Rightarrow> Pcrs \<Rightarrow> (string \<times> nat \<times> string) list" where
  "wanted_pcrs X own =
     [(''0'', 0, hex_encode X (pcr0 own)), (''1'', 1, hex_encode X (pcr1 own)),
      (''2'', 2, hex_encode X (pcr2 own))]"

definition verify_decrypt_policy ::
    "'x Ext_scheme \<Rightarrow> (string \<Rightarrow> Json option) \<Rightarrow> string \<Rightarrow> Pcrs \<Rightarrow> PolicyError + unit" where
  "verify_decrypt_policy X json_from_str policy_json own =
     and_then (ok_or Policy_Json (json_from_str policy_json)) (\<lambda>doc.
     and_then (ok_or Policy_NoStatements (policy_statements doc)) (\<lambda>statements.
       check_statements (wanted_pcrs X own) statements))"

subsection \<open>What a policy means\<close>

text \<open>The documented meaning of a policy statement, as far as it bounds what it allows. Action
  patterns are matched without regard to case, \<open>*\<close> standing for any characters and \<open>?\<close> for one. All
  conditions have to hold; a string-equality condition on one value holds if the request's context
  has that value under the condition key, whose name is compared without regard to case.\<close>

fun glob_match :: "string \<Rightarrow> string \<Rightarrow> bool" where
  "glob_match [] s \<longleftrightarrow> s = []"
| "glob_match (p # ps) [] \<longleftrightarrow> p = CHR ''*'' \<and> glob_match ps []"
| "glob_match (p # ps) (c # cs) \<longleftrightarrow>
     (if p = CHR ''*'' then glob_match ps (c # cs) \<or> glob_match (p # ps) cs
      else (p = CHR ''?'' \<or> p = c) \<and> glob_match ps cs)"

fun action_patterns :: "Json option \<Rightarrow> string list" where
  "action_patterns (Some (JsonString s)) = [s]"
| "action_patterns (Some (JsonArray elements)) = List.map_filter json_as_str elements"
| "action_patterns _ = []"

fun equality_holds :: "string \<Rightarrow> (string \<rightharpoonup> string) \<Rightarrow> string \<times> Json \<Rightarrow> bool" where
  "equality_holds op context (key, JsonString v) \<longleftrightarrow>
     (case context (ascii_lowercase key) of
        None \<Rightarrow> False
      | Some found \<Rightarrow> if op = ''StringEquals'' then found = v else eq_ignore_ascii_case found v)"
| "equality_holds op context (key, _) \<longleftrightarrow> True"

fun condition_holds :: "(string \<rightharpoonup> string) \<Rightarrow> string \<times> Json \<Rightarrow> bool" where
  "condition_holds context (op, JsonObject kv) \<longleftrightarrow>
     op \<in> set EQ_OPERATORS \<longrightarrow> list_all (equality_holds op context) kv"
| "condition_holds context (op, _) \<longleftrightarrow> True"

definition statement_allows :: "Json \<Rightarrow> string \<Rightarrow> (string \<rightharpoonup> string) \<Rightarrow> bool" where
  "statement_allows stmt action context \<longleftrightarrow>
     Option.bind (json_get ''Effect'' stmt) json_as_str = Some ''Allow'' \<and>
     (json_get ''NotAction'' stmt \<noteq> None \<or>
      list_ex (\<lambda>p. glob_match (ascii_lowercase p) (ascii_lowercase action))
        (action_patterns (json_get ''Action'' stmt))) \<and>
     (case Option.bind (json_get ''Condition'' stmt) json_as_object of
        None \<Rightarrow> True
      | Some cond \<Rightarrow> list_all (condition_holds context) cond)"

text \<open>KMS acts for a caller only if some statement of the key policy allows it.\<close>

definition permits_by_statement ::
    "(string \<Rightarrow> Json option) \<Rightarrow> (string \<Rightarrow> string \<Rightarrow> (string \<rightharpoonup> string) \<Rightarrow> bool) \<Rightarrow> bool" where
  "permits_by_statement json_from_str kms_permits \<longleftrightarrow>
     (\<forall>policy action context. kms_permits policy action context \<longrightarrow>
        (\<exists>doc statements stmt. json_from_str policy = Some doc \<and> policy_statements doc = Some statements \<and>
           stmt \<in> set statements \<and> statement_allows stmt action context))"

subsection \<open>The check bounds what KMS permits\<close>

lemma check_statements_Inr_iff [result_simps]:
  "check_statements want stmts = Inr u \<longleftrightarrow> (\<forall>stmt \<in> set stmts. check_statement want stmt = Inr ())"
  by (induction stmts) (auto simp: result_simps)

lemma check_actions_Inr_iff [result_simps]:
  "check_actions actions = Inr u \<longleftrightarrow>
     (\<forall>a \<in> set actions. CHR ''*'' \<notin> set a \<and> CHR ''?'' \<notin> set a \<and> a \<notin> set FORBIDDEN_ACTIONS \<and>
        \<not> starts_with_str ''kms:reencrypt'' a)"
  by (induction actions) auto

lemma check_bindings_Inr_iff [result_simps]:
  "check_bindings bound want = Inr u \<longleftrightarrow>
     (\<forall>(suffix, index, expected) \<in> set want.
        \<exists>found. bound suffix = Some found \<and> eq_ignore_ascii_case found expected)"
  by (induction bound want rule: check_bindings.induct) (auto split: option.splits)

lemma glob_match_literal:
  "\<lbrakk> CHR ''*'' \<notin> set p; CHR ''?'' \<notin> set p \<rbrakk> \<Longrightarrow> glob_match p s \<longleftrightarrow> p = s"
  by (induction p s rule: glob_match.induct) auto

lemma normalize_actions_patterns:
  "normalize_actions action = map ascii_lowercase (action_patterns action)"
  by (induction action rule: normalize_actions.induct) simp_all

text \<open>A binding the code collected is a single-valued equality condition of the statement.\<close>

lemma bind_key_binding:
  "foldl bind_key out kv suffix = Some v \<Longrightarrow>
     out suffix = Some v \<or> (\<exists>key. (key, JsonString v) \<in> set kv \<and> pcr_suffix key = Some suffix)"
proof (induction kv arbitrary: out)
  case (Cons entry kv)
  obtain key j where entry: "entry = (key, j)" by (cases entry)
  have "bind_key out entry suffix = Some v \<Longrightarrow>
      out suffix = Some v \<or> j = JsonString v \<and> pcr_suffix key = Some suffix"
    by (auto simp: entry split: option.splits Json.splits if_splits)
  with Cons.IH [of "bind_key out entry"] Cons.prems show ?case
    by (auto simp: entry simp del: bind_key.simps)
qed simp

lemma bind_operator_binding:
  "foldl bind_operator out cond suffix = Some v \<Longrightarrow>
     out suffix = Some v \<or>
     (\<exists>op kv key. (op, JsonObject kv) \<in> set cond \<and> op \<in> set EQ_OPERATORS \<and>
        (key, JsonString v) \<in> set kv \<and> pcr_suffix key = Some suffix)"
proof (induction cond arbitrary: out)
  case (Cons entry cond)
  obtain op j where entry: "entry = (op, j)" by (cases entry)
  have "bind_operator out entry suffix = Some v \<Longrightarrow>
      out suffix = Some v \<or>
      (\<exists>kv key. j = JsonObject kv \<and> op \<in> set EQ_OPERATORS \<and>
         (key, JsonString v) \<in> set kv \<and> pcr_suffix key = Some suffix)"
    by (cases j) (auto simp: entry split: if_splits dest: bind_key_binding)
  with Cons.IH [of "bind_operator out entry"] Cons.prems show ?case
    unfolding entry by fastforce
qed simp

lemma strip_prefix_strD: "strip_prefix_str p s = Some t \<Longrightarrow> s = p @ t"
  unfolding strip_prefix_str_def starts_with_str_def
  by (metis append_take_drop_id option.distinct(1) option.inject)

lemma lower_attestation_prefix:
  "map ascii_lower ''kms:RecipientAttestation:PCR'' = ''kms:recipientattestation:pcr''"
  "map ascii_lower ''kms:RecipientAttestation:pcr'' = ''kms:recipientattestation:pcr''"
  by code_simp+

lemma pcr_suffix_key:
  "pcr_suffix key = Some suffix \<Longrightarrow>
     ascii_lowercase key = ''kms:recipientattestation:pcr'' @ ascii_lowercase suffix"
proof -
  assume "pcr_suffix key = Some suffix"
  then have "key = ''kms:RecipientAttestation:PCR'' @ suffix \<or> key = ''kms:RecipientAttestation:pcr'' @ suffix"
    unfolding pcr_suffix_def by (auto split: option.splits dest: strip_prefix_strD)
  then show ?thesis
    by (auto simp only: ascii_lowercase_def map_append lower_attestation_prefix)
qed

lemma binding_is_enforced:
  assumes bound: "collect_pcr_bindings stmt suffix = Some v"
    and allowed: "statement_allows stmt action context"
  obtains found where "context (''kms:recipientattestation:pcr'' @ ascii_lowercase suffix) = Some found"
    "eq_ignore_ascii_case found v"
proof -
  obtain cond where cond: "Option.bind (json_get ''Condition'' stmt) json_as_object = Some cond"
    using bound by (auto simp: collect_pcr_bindings_def split: option.splits)
  obtain op kv key where entry: "(op, JsonObject kv) \<in> set cond" "op \<in> set EQ_OPERATORS"
      "(key, JsonString v) \<in> set kv" "pcr_suffix key = Some suffix"
    using bound bind_operator_binding [of Map.empty cond suffix v]
    by (auto simp: collect_pcr_bindings_def cond)
  have "condition_holds context (op, JsonObject kv)"
    using allowed entry(1) by (auto simp: statement_allows_def cond list_all_iff)
  then have "equality_holds op context (key, JsonString v)"
    using entry(2,3) by (fastforce simp: list_all_iff simp del: equality_holds.simps)
  then show thesis
    using that by (auto simp: pcr_suffix_key [OF entry(4)] eq_ignore_ascii_case_def split: option.splits if_splits)
qed

text \<open>An accepted policy, for its own measurements.\<close>

lemma accepted_statement:
  assumes accepted: "verify_decrypt_policy X json_from_str policy own = Inr ()"
    and iam: "permits_by_statement json_from_str kms_permits"
    and permitted: "kms_permits policy action context"
  obtains stmt where "check_statement (wanted_pcrs X own) stmt = Inr ()"
    "statement_allows stmt action context"
proof -
  obtain doc statements stmt where "json_from_str policy = Some doc"
      "policy_statements doc = Some statements" "stmt \<in> set statements"
      "statement_allows stmt action context"
    using iam permitted unfolding permits_by_statement_def by blast
  with accepted show thesis
    by (intro that [of stmt]) (auto simp: verify_decrypt_policy_def result_simps)
qed

lemma accepted_action:
  assumes "check_statement want stmt = Inr ()" "statement_allows stmt action context"
  shows "ascii_lowercase action \<notin> set FORBIDDEN_ACTIONS"
    "\<not> starts_with_str ''kms:reencrypt'' (ascii_lowercase action)"
    "ascii_lowercase action \<in> set (normalize_actions (json_get ''Action'' stmt))"
proof -
  let ?actions = "normalize_actions (json_get ''Action'' stmt)"
  have checked: "check_actions ?actions = Inr ()" and no_not: "json_get ''NotAction'' stmt = None"
    using assms by (auto simp: check_statement_def statement_allows_def Let_def result_simps split: if_splits)
  obtain p where "p \<in> set (action_patterns (json_get ''Action'' stmt))"
      "glob_match (ascii_lowercase p) (ascii_lowercase action)"
    using assms(2) no_not by (auto simp: statement_allows_def list_ex_iff)
  then obtain a where a: "a \<in> set ?actions" "glob_match a (ascii_lowercase action)"
    by (auto simp: normalize_actions_patterns)
  then have "a = ascii_lowercase action"
    using checked by (auto simp: check_actions_Inr_iff glob_match_literal)
  with a(1) checked show "ascii_lowercase action \<notin> set FORBIDDEN_ACTIONS"
    "\<not> starts_with_str ''kms:reencrypt'' (ascii_lowercase action)"
    "ascii_lowercase action \<in> set ?actions"
    by (auto simp: check_actions_Inr_iff)
qed

lemma accepted_decrypt:
  assumes "check_statement want stmt = Inr ()" "statement_allows stmt action context"
    and "ascii_lowercase action = ''kms:decrypt''"
    and "(suffix, index, expected) \<in> set want"
  obtains v where "context (''kms:recipientattestation:pcr'' @ ascii_lowercase suffix) = Some v"
    "eq_ignore_ascii_case v expected"
proof -
  have "check_bindings (collect_pcr_bindings stmt) want = Inr ()"
    using assms(1,2) accepted_action(3) [OF assms(1,2)] assms(3)
    by (auto simp: check_statement_def statement_allows_def Let_def result_simps split: if_splits)
  then obtain v where "collect_pcr_bindings stmt suffix = Some v" "eq_ignore_ascii_case v expected"
    using assms(4) by (fastforce simp: check_bindings_Inr_iff)
  then show thesis
    using binding_is_enforced [OF _ assms(2)] that unfolding eq_ignore_ascii_case_def by metis
qed

text \<open>C10. An accepted policy keeps the key to this enclave. If the check accepts a key policy, then
  whatever KMS permits under it: a \<open>kms:Decrypt\<close>, in any spelling, is permitted only to a caller whose
  attestation document has exactly the wanted PCR0, PCR1 and PCR2, and no caller may rewrite the
  policy, create a grant, replicate the key or re-encrypt. Of KMS only the documented meaning of
  policy statements is assumed, wildcards and case-insensitive names included.\<close>

theorem accepted_policy_gates_decrypt:
  assumes "verify_decrypt_policy X json_from_str policy own = Inr ()"
    and "permits_by_statement json_from_str kms_permits"
    and "kms_permits policy action context"
  shows "(ascii_lowercase action = ''kms:decrypt'' \<longrightarrow>
      (\<exists>v0 v1 v2. context ''kms:recipientattestation:pcr0'' = Some v0 \<and>
         eq_ignore_ascii_case v0 (hex_encode X (pcr0 own)) \<and>
         context ''kms:recipientattestation:pcr1'' = Some v1 \<and>
         eq_ignore_ascii_case v1 (hex_encode X (pcr1 own)) \<and>
         context ''kms:recipientattestation:pcr2'' = Some v2 \<and>
         eq_ignore_ascii_case v2 (hex_encode X (pcr2 own)))) \<and>
    ascii_lowercase action \<notin> {''kms:putkeypolicy'', ''kms:creategrant'', ''kms:replicatekey''} \<and>
    \<not> starts_with_str ''kms:reencrypt'' (ascii_lowercase action)"
proof -
  obtain stmt where stmt: "check_statement (wanted_pcrs X own) stmt = Inr ()"
      "statement_allows stmt action context"
    using accepted_statement [OF assms] .
  have gate: "\<exists>v. context (''kms:recipientattestation:pcr'' @ ascii_lowercase suffix) = Some v \<and>
      eq_ignore_ascii_case v expected"
    if "ascii_lowercase action = ''kms:decrypt''" "(suffix, index, expected) \<in> set (wanted_pcrs X own)"
    for suffix index expected
    using accepted_decrypt [OF stmt that] by blast
  have digits: "ascii_lowercase ''0'' = ''0''" "ascii_lowercase ''1'' = ''1''" "ascii_lowercase ''2'' = ''2''"
    by code_simp+
  show ?thesis
    using gate [of "''0''" 0 "hex_encode X (pcr0 own)"] gate [of "''1''" 1 "hex_encode X (pcr1 own)"]
      gate [of "''2''" 2 "hex_encode X (pcr2 own)"] accepted_action(1,2) [OF stmt]
    by (auto simp: wanted_pcrs_def digits FORBIDDEN_ACTIONS_def)
qed

subsection \<open>Witnesses\<close>

text \<open>A production-shaped policy: the account may read the key's metadata, the enclave may decrypt
  under its measurements \<open>[1]\<close>, \<open>[2]\<close> and \<open>[3]\<close>. KMS permits what some statement allows.\<close>

definition ex_policy :: Json where
  "ex_policy = JsonObject [(''Version'', JsonString ''2012-10-17''), (''Statement'', JsonArray
     [JsonObject [(''Effect'', JsonString ''Allow''), (''Action'', JsonString ''kms:DescribeKey'')],
      JsonObject [(''Effect'', JsonString ''Allow''),
        (''Action'', JsonArray [JsonString ''kms:Decrypt'']),
        (''Condition'', JsonObject [(''StringEqualsIgnoreCase'', JsonObject
          [(''kms:RecipientAttestation:PCR0'', JsonString (ex_hex [1])),
           (''kms:RecipientAttestation:PCR1'', JsonString (ex_hex [2])),
           (''kms:RecipientAttestation:PCR2'', JsonString (ex_hex [3]))])])]])]"

definition ex_json :: "string \<Rightarrow> Json option" where
  "ex_json text = (if text = ''policy'' then Some ex_policy else None)"

definition ex_kms_permits :: "string \<Rightarrow> string \<Rightarrow> (string \<rightharpoonup> string) \<Rightarrow> bool" where
  "ex_kms_permits policy action context \<longleftrightarrow>
     (case Option.bind (ex_json policy) policy_statements of
        None \<Rightarrow> False
      | Some statements \<Rightarrow> list_ex (\<lambda>stmt. statement_allows stmt action context) statements)"

definition ex_own :: Pcrs where
  "ex_own = \<lparr> pcr0 = [1], pcr1 = [2], pcr2 = [3] \<rparr>"

definition ex_attested :: "string \<rightharpoonup> string" where
  "ex_attested = [''kms:recipientattestation:pcr0'' \<mapsto> ex_hex [1],
     ''kms:recipientattestation:pcr1'' \<mapsto> ex_hex [2], ''kms:recipientattestation:pcr2'' \<mapsto> ex_hex [3]]"

lemma ex_policy_accepted: "verify_decrypt_policy (ex_nitro []) ex_json ''policy'' ex_own = Inr ()"
  by code_simp

lemma ex_kms_permits_by_statement: "permits_by_statement ex_json ex_kms_permits"
  unfolding permits_by_statement_def ex_kms_permits_def
  by (auto simp: list_ex_iff split: option.splits bind_splits)

lemma ex_decrypt_permitted: "ex_kms_permits ''policy'' ''KMS:Decrypt'' ex_attested"
  by code_simp

theorem accepted_policy_gates_decrypt_witness:
  "verify_decrypt_policy (ex_nitro []) ex_json ''policy'' ex_own = Inr () \<and>
   ex_kms_permits ''policy'' ''KMS:Decrypt'' ex_attested \<and>
   (\<exists>v0. ex_attested ''kms:recipientattestation:pcr0'' = Some v0 \<and>
      eq_ignore_ascii_case v0 (hex_encode (ex_nitro []) (pcr0 ex_own)))"
proof -
  have "ascii_lowercase ''KMS:Decrypt'' = ''kms:decrypt''" by code_simp
  then show ?thesis
    using accepted_policy_gates_decrypt [OF ex_policy_accepted ex_kms_permits_by_statement ex_decrypt_permitted]
      ex_policy_accepted ex_decrypt_permitted
    by blast
qed

end
