(* ===== verification/Kms_Recipient.thy ===== *)
theory Kms_Recipient
  imports Prelude
begin

text \<open>
  The envelope in which KMS returns a decrypted secret, \<open>enclavia-protocol/src/kms_recipient.rs\<close>: the
  transcoder from BER to DER, which runs on bytes the untrusted parent relays, and the opening of
  the envelope. The DER and CMS readers, RSA-OAEP and AES-CBC are parameters.
\<close>

unbundle bit_operations_syntax

datatype BerError =
    Ber_TooDeep
  | Ber_EndOfInput
  | Ber_HighTag
  | Ber_TruncatedLength
  | Ber_BadLength
  | Ber_IndefinitePrimitive
  | Ber_TruncatedPrimitive
  | Ber_TruncatedConstructed
  | Ber_ChildNotOctets
  | Ber_ChildIndefinite
  | Ber_ChildTruncated
  | Ber_Trailing nat
  | Ber_OutOfFuel

datatype RecipientError =
    Re_Der
  | Re_Rsa
  | Re_Aes
  | Re_Transcode BerError
  | Re_NotEnvelopedData
  | Re_NoKtri
  | Re_NotOaep
  | Re_ContentKeyLength nat
  | Re_NotAesCbc
  | Re_NoIv
  | Re_IvLength nat
  | Re_NoContent

definition MAX_TLV_DEPTH :: nat where "MAX_TLV_DEPTH = 64"

definition read_len :: "bytes \<Rightarrow> BerError + nat option \<times> bytes" where
  "read_len input =
     (case input of
        [] \<Rightarrow> Inl Ber_TruncatedLength
      | b # rest \<Rightarrow>
          if b = 0x80 then Inr (None, rest)
          else if b AND 0x80 = 0 then Inr (Some (unat b), rest)
          else
            let n = unat (b AND 0x7f) in
            if n = 0 \<or> n > 4 \<or> length rest < n then Inl Ber_BadLength
            else Inr (Some (foldl (\<lambda>len x. len * 256 + unat x) 0 (take n rest)), drop n rest))"

definition emit_der :: "byte \<Rightarrow> bytes \<Rightarrow> bytes" where
  "emit_der tag content =
     (let len = length content in
      if len < 0x80 then tag # of_nat len # content
      else
        let be = to_be_bytes (of_nat len :: u64);
            lb = (if list_all (\<lambda>b. b = 0) be then [last be] else dropWhile (\<lambda>b. b = 0) be)
        in tag # (0x80 OR of_nat (length lb)) # lb @ content)"

definition octet_value :: "bytes \<Rightarrow> BerError + bytes" where
  "octet_value der =
     (case der of
        [] \<Rightarrow> Inl Ber_ChildNotOctets
      | tag # rest \<Rightarrow>
          if tag \<noteq> 0x04 then Inl Ber_ChildNotOctets
          else and_then (read_len rest) (\<lambda>(len, content).
            and_then (ok_or Ber_ChildIndefinite len) (\<lambda>len.
              if len \<le> length content then Inr (take len content) else Inl Ber_ChildTruncated)))"

definition context_octet :: "byte \<Rightarrow> bytes list \<Rightarrow> bool" where
  "context_octet tag children \<longleftrightarrow>
     tag AND 0xc0 = 0x80 \<and> children \<noteq> [] \<and> list_all (\<lambda>c. c \<noteq> [] \<and> hd c = 0x04) children"

definition reassemble :: "byte \<Rightarrow> bytes list \<Rightarrow> BerError + bytes" where
  "reassemble tag children =
     (if tag = 0x24 \<or> context_octet tag children then
        and_then (traverse octet_value children) (\<lambda>values.
          Inr (emit_der (if tag = 0x24 then 0x04 else tag AND NOT 0x20) (concat values)))
      else Inr (emit_der tag (concat children)))"

text \<open>\<open>transcode_tlv\<close> and its two loops over the children of a constructed value: up to a known length,
  and up to the end-of-contents octets. The first argument is fuel; the input's length is enough.\<close>

fun transcode_tlv :: "nat \<Rightarrow> bytes \<Rightarrow> nat \<Rightarrow> BerError + bytes \<times> bytes"
  and children_within :: "nat \<Rightarrow> bytes \<Rightarrow> nat \<Rightarrow> BerError + bytes list"
  and children_until_end :: "nat \<Rightarrow> bytes \<Rightarrow> nat \<Rightarrow> BerError + bytes list \<times> bytes" where
  "transcode_tlv 0 input depth = Inl Ber_OutOfFuel"
| "transcode_tlv (Suc n) input depth =
     (if depth > MAX_TLV_DEPTH then Inl Ber_TooDeep
      else case input of
        [] \<Rightarrow> Inl Ber_EndOfInput
      | tag # rest \<Rightarrow>
          if tag AND 0x1f = 0x1f then Inl Ber_HighTag
          else and_then (read_len rest) (\<lambda>(len, after_len).
            if tag AND 0x20 = 0 then
              and_then (ok_or Ber_IndefinitePrimitive len) (\<lambda>len.
                if length after_len < len then Inl Ber_TruncatedPrimitive
                else Inr (emit_der tag (take len after_len), drop len after_len))
            else
              and_then
                (case len of
                   Some len \<Rightarrow>
                     if length after_len < len then Inl Ber_TruncatedConstructed
                     else and_then (children_within n (take len after_len) (Suc depth)) (\<lambda>children.
                       Inr (children, drop len after_len))
                 | None \<Rightarrow> children_until_end n after_len (Suc depth))
                (\<lambda>(children, after). and_then (reassemble tag children) (\<lambda>out. Inr (out, after)))))"
| "children_within 0 region depth = Inl Ber_OutOfFuel"
| "children_within (Suc n) region depth =
     (if region = [] then Inr []
      else and_then (transcode_tlv n region depth) (\<lambda>(child, rest).
        and_then (children_within n rest depth) (\<lambda>children. Inr (child # children))))"
| "children_until_end 0 region depth = Inl Ber_OutOfFuel"
| "children_until_end (Suc n) region depth =
     (if take 2 region = [0, 0] then Inr ([], drop 2 region)
      else and_then (transcode_tlv n region depth) (\<lambda>(child, rest).
        and_then (children_until_end n rest depth) (\<lambda>(children, after). Inr (child # children, after))))"

definition ber_to_der :: "bytes \<Rightarrow> BerError + bytes" where
  "ber_to_der input =
     and_then (transcode_tlv (Suc (length input)) input 0) (\<lambda>(out, rest).
       if rest \<noteq> [] then Inl (Ber_Trailing (length rest)) else Inr out)"

subsection \<open>Opening the envelope\<close>

text \<open>What the CMS reader hands on: the content type, the recipients (the key-transport ones with their
  algorithm and wrapped key), and the encrypted content with its algorithm, IV parameter and bytes.\<close>

datatype RecipientInfo = Ktri (ktri_alg: string) (ktri_enc_key: bytes) | OtherRecipient

record EnvelopedData =
  ed_recip_infos :: "RecipientInfo list"
  ed_content_enc_alg :: string
  ed_parameters :: "bytes option"
  ed_encrypted_content :: "bytes option"

record CmsExt =
  content_info_from_der :: "bytes \<Rightarrow> (string \<times> bytes) option"
  enveloped_decode_as :: "bytes \<Rightarrow> EnvelopedData option"
  octet_string_decode_as :: "bytes \<Rightarrow> bytes option"
  rsa_oaep_decrypt :: "bytes \<Rightarrow> bytes \<Rightarrow> bytes option"
  aes256_cbc_decrypt :: "bytes \<Rightarrow> bytes \<Rightarrow> bytes \<Rightarrow> bytes option"

definition ID_ENVELOPED_DATA :: string where "ID_ENVELOPED_DATA = ''1.2.840.113549.1.7.3''"
definition RSAES_OAEP :: string where "RSAES_OAEP = ''1.2.840.113549.1.1.7''"
definition AES_256_CBC :: string where "AES_256_CBC = ''2.16.840.1.101.3.4.1.42''"

fun first_ktri :: "RecipientInfo list \<Rightarrow> (string \<times> bytes) option" where
  "first_ktri [] = None"
| "first_ktri (Ktri alg key # _) = Some (alg, key)"
| "first_ktri (OtherRecipient # infos) = first_ktri infos"

definition recipient_decode :: "'y CmsExt_scheme \<Rightarrow> bytes \<Rightarrow> bytes \<Rightarrow> RecipientError + bytes" where
  "recipient_decode C ephemeral cms_der =
     and_then (map_err Re_Transcode (ber_to_der cms_der)) (\<lambda>der.
     and_then (ok_or Re_Der (content_info_from_der C der)) (\<lambda>(content_type, content).
     and_then (ensure (content_type = ID_ENVELOPED_DATA) Re_NotEnvelopedData) (\<lambda>_.
     and_then (ok_or Re_Der (enveloped_decode_as C content)) (\<lambda>enveloped.
     and_then (ok_or Re_NoKtri (first_ktri (ed_recip_infos enveloped))) (\<lambda>(alg, enc_key).
     and_then (ensure (alg = RSAES_OAEP) Re_NotOaep) (\<lambda>_.
     and_then (ok_or Re_Rsa (rsa_oaep_decrypt C ephemeral enc_key)) (\<lambda>cek.
     and_then (ensure (length cek = 32) (Re_ContentKeyLength (length cek))) (\<lambda>_.
     and_then (ensure (ed_content_enc_alg enveloped = AES_256_CBC) Re_NotAesCbc) (\<lambda>_.
     and_then (ok_or Re_NoIv (ed_parameters enveloped)) (\<lambda>iv_any.
     and_then (ok_or Re_Der (octet_string_decode_as C iv_any)) (\<lambda>iv.
     and_then (ensure (length iv = 16) (Re_IvLength (length iv))) (\<lambda>_.
     and_then (ok_or Re_NoContent (ed_encrypted_content enveloped)) (\<lambda>ciphertext.
       ok_or Re_Aes (aes256_cbc_decrypt C cek iv ciphertext))))))))))))))"

subsection \<open>BER values\<close>

text \<open>An ASN.1 value as a tree, its BER encodings and its DER encoding. A BER length is in the short
  form or in the long form with at most four octets, as many as the transcoder reads; a constructed value may leave
  its length open and end with two zero octets.\<close>

datatype Tlv = Primitive byte bytes | Constructed byte "Tlv list"

definition ber_length :: "nat \<Rightarrow> bytes \<Rightarrow> bool" where
  "ber_length l bs \<longleftrightarrow> l < 0x80 \<and> bs = [of_nat l] \<or>
     (\<exists>ds. 1 \<le> length ds \<and> length ds \<le> 4 \<and> bs = (0x80 OR of_nat (length ds)) # ds \<and>
        l = foldl (\<lambda>len x. len * 256 + unat x) 0 ds)"

inductive ber :: "Tlv \<Rightarrow> bytes \<Rightarrow> bool" where
  ber_primitive:
    "\<lbrakk> tag AND 0x1f \<noteq> 0x1f; tag AND 0x20 = 0; ber_length (length content) ls \<rbrakk> \<Longrightarrow>
     ber (Primitive tag content) (tag # ls @ content)"
| ber_definite:
    "\<lbrakk> tag AND 0x1f \<noteq> 0x1f; tag AND 0x20 \<noteq> 0; list_all2 ber ts parts; ber_length (length (concat parts)) ls \<rbrakk> \<Longrightarrow>
     ber (Constructed tag ts) (tag # ls @ concat parts)"
| ber_indefinite:
    "\<lbrakk> tag AND 0x1f \<noteq> 0x1f; tag AND 0x20 \<noteq> 0; list_all2 ber ts parts;
       list_all (\<lambda>part. take 2 part \<noteq> [0, 0]) parts \<rbrakk> \<Longrightarrow>
     ber (Constructed tag ts) (tag # 0x80 # concat parts @ [0, 0])"

fun der_bytes :: "Tlv \<Rightarrow> bytes" where
  "der_bytes (Primitive tag content) = emit_der tag content"
| "der_bytes (Constructed tag ts) = emit_der tag (concat (map der_bytes ts))"

fun tlv_depth :: "Tlv \<Rightarrow> nat" where
  "tlv_depth (Primitive _ _) = 0"
| "tlv_depth (Constructed _ ts) = foldr max (map (\<lambda>t. Suc (tlv_depth t)) ts) 0"

fun octet_content :: "Tlv \<Rightarrow> bytes option" where
  "octet_content (Primitive tag content) = (if tag = 0x04 then Some content else None)"
| "octet_content (Constructed _ _) = None"

text \<open>The value with chunked octet strings joined: a constructed OCTET STRING, and a context-tagged value
  all of whose parts are octet strings, become one primitive value.\<close>

definition join_octets :: "byte \<Rightarrow> Tlv list \<Rightarrow> Tlv option" where
  "join_octets tag us =
     (if tag = 0x24 then
        (if list_all (\<lambda>u. octet_content u \<noteq> None) us
         then Some (Primitive 0x04 (concat (map (the \<circ> octet_content) us))) else None)
      else if tag AND 0xc0 = 0x80 \<and> us \<noteq> [] \<and> list_all (\<lambda>u. octet_content u \<noteq> None) us then
        Some (Primitive (tag AND NOT 0x20) (concat (map (the \<circ> octet_content) us)))
      else Some (Constructed tag us))"

fun joined :: "Tlv \<Rightarrow> Tlv option" where
  "joined (Primitive tag content) = Some (Primitive tag content)"
| "joined (Constructed tag ts) =
     (let us = map joined ts in
      if list_all (\<lambda>u. u \<noteq> None) us then join_octets tag (map the us) else None)"

subsection \<open>Lengths\<close>

lemma byte_all: "list_all (\<lambda>i. P (word_of_int i)) [0..255] \<Longrightarrow> P (b :: byte)"
proof -
  assume all: "list_all (\<lambda>i. P (word_of_int i)) [0..255]"
  have "uint b \<in> set [0..255]"
    using uint_lt2p [of b] by simp
  then have "P (word_of_int (uint b))"
    using all unfolding list_all_iff by blast
  then show "P b" by simp
qed

lemma byte_short: "b AND 0x80 = 0 \<longleftrightarrow> unat b < 0x80" for b :: byte
  by (rule byte_all) code_simp

lemma byte_long: "b AND 0x80 \<noteq> 0 \<longrightarrow> b = 0x80 OR of_nat (unat (b AND 0x7f))" for b :: byte
  by (rule byte_all) code_simp

lemma long_form:
  assumes "1 \<le> n" "n \<le> 4"
  shows "(0x80 OR of_nat n :: byte) \<noteq> 0x80" "(0x80 OR of_nat n :: byte) AND 0x80 \<noteq> 0"
    "unat ((0x80 OR of_nat n :: byte) AND 0x7f) = n"
proof -
  have "n \<in> {1, 2, 3, 4}" using assms by auto
  then show "(0x80 OR of_nat n :: byte) \<noteq> 0x80" "(0x80 OR of_nat n :: byte) AND 0x80 \<noteq> 0"
    "unat ((0x80 OR of_nat n :: byte) AND 0x7f) = n"
    by auto
qed

lemma read_len_consumes: "read_len input = Inr (len, rest) \<Longrightarrow> length rest < length input"
  by (auto simp: read_len_def Let_def split: list.splits if_splits)

lemma read_len_Some_iff:
  "read_len input = Inr (Some l, rest) \<longleftrightarrow> (\<exists>ls. ber_length l ls \<and> input = ls @ rest)"
proof
  assume read: "read_len input = Inr (Some l, rest)"
  then obtain b bs where input: "input = b # bs"
    by (auto simp: read_len_def split: list.splits)
  show "\<exists>ls. ber_length l ls \<and> input = ls @ rest"
  proof (cases "b AND 0x80 = 0")
    case True
    then have "l = unat b" "rest = bs" "unat b < 0x80"
      using read by (auto simp: read_len_def input byte_short split: if_splits)
    then show ?thesis
      by (intro exI [of _ "[b]"]) (auto simp: ber_length_def input)
  next
    case False
    define n where "n = unat (b AND 0x7f)"
    have n: "b = 0x80 OR of_nat n" "n \<noteq> 0" "n \<le> 4" "n \<le> length bs"
        "l = foldl (\<lambda>len x. len * 256 + unat x) 0 (take n bs)" "rest = drop n bs"
      using read False byte_long [of b] by (auto simp: read_len_def input n_def Let_def split: if_splits)
    then show ?thesis
      by (intro exI [of _ "b # take n bs"]) (auto simp: ber_length_def input intro!: exI [of _ "take n bs"])
  qed
next
  assume "\<exists>ls. ber_length l ls \<and> input = ls @ rest"
  then obtain ls where ls: "ber_length l ls" "input = ls @ rest" by blast
  from ls(1) consider "l < 0x80" "ls = [of_nat l]"
    | ds where "1 \<le> length ds" "length ds \<le> 4" "ls = (0x80 OR of_nat (length ds)) # ds"
        "l = foldl (\<lambda>len x. len * 256 + unat x) 0 ds"
    unfolding ber_length_def by blast
  then show "read_len input = Inr (Some l, rest)"
  proof cases
    case 1
    then have "unat (of_nat l :: byte) = l" by (simp add: unat_of_nat)
    then have "(of_nat l :: byte) \<noteq> 0x80" "(of_nat l :: byte) AND 0x80 = 0"
      using 1(1) by (auto simp: byte_short)
    then show ?thesis
      using 1 \<open>unat (of_nat l :: byte) = l\<close> by (simp add: read_len_def ls(2))
  next
    case 2
    then show ?thesis
      using long_form [OF 2(1,2)] by (auto simp: read_len_def ls(2) Let_def)
  qed
qed

lemma read_len_None_iff: "read_len input = Inr (None, rest) \<longleftrightarrow> input = 0x80 # rest"
  by (auto simp: read_len_def Let_def split: list.splits if_splits)

lemma be_digits_pad: "n < 256 ^ k \<Longrightarrow> be_digits (j + k) n = replicate j 0 @ be_digits k n"
proof (induction k arbitrary: n)
  case 0
  then show ?case
    by (induction j) (simp_all add: replicate_append_same)
next
  case (Suc k)
  have "n div 256 < 256 ^ k"
    using Suc.prems by (simp add: less_mult_imp_div_less mult.commute)
  then show ?case
    using Suc.IH by simp
qed

lemma foldl_drop_zeros:
  "foldl (\<lambda>len x. len * 256 + unat x) 0 (dropWhile (\<lambda>b. b = 0) (xs :: bytes)) =
   foldl (\<lambda>len x. len * 256 + unat x) 0 xs"
  by (induction xs) simp_all

lemma foldl_all_zero:
  "list_all (\<lambda>b. b = 0) (xs :: bytes) \<Longrightarrow> foldl (\<lambda>len x. len * 256 + unat x) 0 xs = 0"
  by (induction xs) simp_all

lemma emit_der_form:
  assumes "length content < 2 ^ 32"
  obtains ls where "emit_der tag content = tag # ls @ content" "ber_length (length content) ls"
proof (cases "length content < 0x80")
  case True
  then show thesis
    using that [of "[of_nat (length content)]"] by (simp add: emit_der_def ber_length_def)
next
  case False
  define be where "be = to_be_bytes (of_nat (length content) :: u64)"
  let ?lb = "dropWhile (\<lambda>b. b = 0) be"
  have "unat (of_nat (length content) :: u64) = length content"
    using assms by (simp add: unat_of_nat)
  then have be8: "be = be_digits (4 + 4) (length content)"
    by (simp add: be_def to_be_bytes_def)
  have bound: "length content < 256 ^ 4" using assms by simp
  have be4: "be = replicate 4 0 @ be_digits 4 (length content)"
    unfolding be8 by (rule be_digits_pad [OF bound])
  have val: "foldl (\<lambda>len x. len * 256 + unat x) 0 be = length content"
    using bound by (simp add: be8 be_digits_value)
  then have nonzero: "\<not> list_all (\<lambda>b. b = 0) be"
    using foldl_all_zero [of be] False by fastforce
  have "length ?lb \<le> length (be_digits 4 (length content))"
    unfolding be4 using length_dropWhile_le [of "\<lambda>b. b = 0" "be_digits 4 (length content)"]
    by (simp add: dropWhile_append)
  then have len: "length ?lb \<le> 4" by simp
  have "?lb \<noteq> []" using nonzero by (auto simp: list_all_iff)
  then have "1 \<le> length ?lb" by (cases ?lb) simp_all
  with len have "ber_length (length content) ((0x80 OR of_nat (length ?lb)) # ?lb)"
    unfolding ber_length_def using val by (auto simp: foldl_drop_zeros)
  moreover have "emit_der tag content = tag # ((0x80 OR of_nat (length ?lb)) # ?lb) @ content"
    using False nonzero by (simp add: emit_der_def be_def [symmetric] Let_def)
  ultimately show thesis using that by blast
qed

lemma emit_der_hd [simp]: "emit_der tag content \<noteq> []" "hd (emit_der tag content) = tag"
  by (simp_all add: emit_der_def Let_def)

subsection \<open>Progress and fuel\<close>

lemma transcode_Inr_iff:
  "transcode_tlv (Suc n) input d = Inr (out, rest) \<longleftrightarrow> d \<le> MAX_TLV_DEPTH \<and>
     (\<exists>tag body. input = tag # body \<and> tag AND 0x1f \<noteq> 0x1f \<and>
       (tag AND 0x20 = 0 \<and>
          (\<exists>l content. read_len body = Inr (Some l, content) \<and> l \<le> length content \<and>
             out = emit_der tag (take l content) \<and> rest = drop l content) \<or>
        tag AND 0x20 \<noteq> 0 \<and>
          (\<exists>l content cs. read_len body = Inr (Some l, content) \<and> l \<le> length content \<and>
             children_within n (take l content) (Suc d) = Inr cs \<and> reassemble tag cs = Inr out \<and>
             rest = drop l content) \<or>
        tag AND 0x20 \<noteq> 0 \<and>
          (\<exists>content cs. read_len body = Inr (None, content) \<and>
             children_until_end n content (Suc d) = Inr (cs, rest) \<and> reassemble tag cs = Inr out)))"
proof (cases input)
  case (Cons tag body)
  show ?thesis
  proof (cases "read_len body")
    case (Inr r)
    obtain len content where "r = (len, content)" by (cases r)
    then show ?thesis
      using Inr by (cases len; cases "tag AND 0x20 = 0") (auto simp: Cons result_simps)
  qed (simp add: Cons)
qed simp

lemma read_len_fuel: "read_len input \<noteq> Inl Ber_OutOfFuel"
  by (auto simp: read_len_def Let_def split: list.splits)

lemma octet_value_fuel: "octet_value der \<noteq> Inl Ber_OutOfFuel"
  using read_len_fuel by (auto simp: octet_value_def and_then_Inl_iff ok_or_Inl_iff split: list.splits if_splits)

lemma reassemble_fuel: "reassemble tag children \<noteq> Inl Ber_OutOfFuel"
  using octet_value_fuel by (auto simp: reassemble_def and_then_Inl_iff dest!: traverse_Inl_D)

lemma transcode_out_of_fuel:
  assumes "transcode_tlv (Suc n) input d = Inl Ber_OutOfFuel"
  obtains l content where "length content + 2 \<le> length input"
      "children_within n (take l content) (Suc d) = Inl Ber_OutOfFuel"
  | content where "length content + 2 \<le> length input" "children_until_end n content (Suc d) = Inl Ber_OutOfFuel"
proof -
  obtain tag body where input: "input = tag # body"
    using assms by (cases input) (auto split: if_splits)
  have fuel: "read_len body \<noteq> Inl Ber_OutOfFuel" "reassemble tag cs \<noteq> Inl Ber_OutOfFuel" for cs
    by (rule read_len_fuel, rule reassemble_fuel)
  obtain len content where read: "read_len body = Inr (len, content)"
    using assms fuel(1) by (cases "read_len body") (auto simp: input split: if_splits)
  then have "length content + 2 \<le> length input"
    using read_len_consumes [of body] by (simp add: input)
  with assms show thesis
    using that fuel(2) read
    by (cases len; cases "tag AND 0x20 = 0") (auto simp: input and_then_Inl_iff split: if_splits)
qed

lemma children_within_Cons_iff:
  "children_within (Suc n) region d = Inr cs \<longleftrightarrow>
     (if region = [] then cs = []
      else \<exists>child rest cs'. transcode_tlv n region d = Inr (child, rest) \<and>
        children_within n rest d = Inr cs' \<and> cs = child # cs')"
  by (auto simp: result_simps)

lemma children_until_end_Cons_iff:
  "children_until_end (Suc n) region d = Inr (cs, after) \<longleftrightarrow>
     (if take 2 region = [0, 0] then cs = [] \<and> region = [0, 0] @ after
      else \<exists>child rest cs'. transcode_tlv n region d = Inr (child, rest) \<and>
        children_until_end n rest d = Inr (cs', after) \<and> cs = child # cs')"
proof (cases "take 2 region = [0, 0]")
  case True
  then have "region = [0, 0] @ drop 2 region" by (metis append_take_drop_id)
  then show ?thesis using True by auto
qed (auto simp: result_simps)

lemmas transcode_simps_off = transcode_tlv.simps(2) children_within.simps(2) children_until_end.simps(2)

declare transcode_simps_off [simp del]

lemma transcode_consumes:
  "transcode_tlv n input d = Inr (out, rest) \<Longrightarrow> length rest + 2 \<le> length input"
  and children_until_end_consumes:
  "children_until_end n region d = Inr (cs, after) \<Longrightarrow> length after + 2 \<le> length region"
proof (induction n arbitrary: input d out rest region cs after)
  case (Suc n)
  { case 1
    then obtain tag body where input: "input = tag # body"
      by (auto simp: transcode_Inr_iff)
    from 1 consider l content where "read_len body = Inr (Some l, content)" "rest = drop l content"
      | content cs where "read_len body = Inr (None, content)" "children_until_end n content (Suc d) = Inr (cs, rest)"
      by (auto simp: transcode_Inr_iff input)
    then show ?case
    proof cases
      case 1
      then show ?thesis using read_len_consumes [OF 1(1)] by (simp add: input)
    next
      case 2
      then show ?thesis using read_len_consumes [OF 2(1)] Suc(2) [OF 2(2)] by (simp add: input)
    qed
  next
    case 2
    show ?case
    proof (cases "take 2 region = [0, 0]")
      case True
      with 2 show ?thesis by (auto simp: children_until_end_Cons_iff)
    next
      case False
      with 2 obtain child rest cs' where "transcode_tlv n region d = Inr (child, rest)"
          "children_until_end n rest d = Inr (cs', after)"
        by (auto simp: children_until_end_Cons_iff)
      then show ?thesis using Suc(1) [of region d child rest] Suc(2) [of rest d cs' after] by simp
    qed
  }
qed simp_all

lemma transcode_fuel:
  "length input < n \<Longrightarrow> transcode_tlv n input d \<noteq> Inl Ber_OutOfFuel"
  and children_within_fuel: "length region + 2 \<le> n \<Longrightarrow> children_within n region d \<noteq> Inl Ber_OutOfFuel"
  and children_until_end_fuel: "length region + 2 \<le> n \<Longrightarrow> children_until_end n region d \<noteq> Inl Ber_OutOfFuel"
proof (induction n arbitrary: input d region)
  case (Suc n)
  { case 1
    show ?case
    proof
      assume "transcode_tlv (Suc n) input d = Inl Ber_OutOfFuel"
      then show False
      proof (cases rule: transcode_out_of_fuel)
        case (1 l content)
        then show False using Suc.IH(2) [of "take l content" "Suc d"] \<open>length input < Suc n\<close> by simp
      next
        case (2 content)
        then show False using Suc.IH(3) [of content "Suc d"] \<open>length input < Suc n\<close> by simp
      qed
    qed
  next
    case 2
    then have "transcode_tlv n region d \<noteq> Inl Ber_OutOfFuel" using Suc.IH(1) by simp
    moreover have "children_within n rest d \<noteq> Inl Ber_OutOfFuel"
      if "transcode_tlv n region d = Inr (child, rest)" for child rest
      using Suc.IH(2) [of rest d] transcode_consumes [OF that] 2 by simp
    ultimately show ?case by (auto simp: children_within.simps(2) and_then_Inl_iff)
  next
    case 3
    then have "transcode_tlv n region d \<noteq> Inl Ber_OutOfFuel" using Suc.IH(1) by simp
    moreover have "children_until_end n rest d \<noteq> Inl Ber_OutOfFuel"
      if "transcode_tlv n region d = Inr (child, rest)" for child rest
      using Suc.IH(3) [of rest d] transcode_consumes [OF that] 3 by simp
    ultimately show ?case by (auto simp: children_until_end.simps(2) and_then_Inl_iff)
  }
qed simp_all

subsection \<open>The value is preserved\<close>

text \<open>How many content octets a value has; joining keeps them.\<close>

fun content_size :: "Tlv \<Rightarrow> nat" where
  "content_size (Primitive _ content) = length content"
| "content_size (Constructed _ ts) = sum_list (map content_size ts)"

fun well_tagged :: "Tlv \<Rightarrow> bool" where
  "well_tagged (Primitive tag _) \<longleftrightarrow> tag AND 0x20 = 0"
| "well_tagged (Constructed tag ts) \<longleftrightarrow> tag AND 0x20 \<noteq> 0 \<and> list_all well_tagged ts"

lemma ber_nonempty: "ber t bs \<Longrightarrow> bs \<noteq> []"
  by (cases rule: ber.cases) auto

lemma ber_size: "ber t bs \<Longrightarrow> content_size t \<le> length bs"
  and ber_well_tagged: "ber t bs \<Longrightarrow> well_tagged t"
proof (induction rule: ber.induct)
  case (ber_definite tag ts parts ls)
  { case 1
    have "sum_list (map content_size ts) \<le> length (concat parts)"
      using ber_definite.IH by (induction rule: list_all2_induct) auto
    then show ?case by simp
  next
    case 2
    have "list_all well_tagged ts"
      using ber_definite.IH by (induction rule: list_all2_induct) auto
    then show ?case using ber_definite.hyps by simp }
next
  case (ber_indefinite tag ts parts)
  { case 1
    have "sum_list (map content_size ts) \<le> length (concat parts)"
      using ber_indefinite.IH by (induction rule: list_all2_induct) auto
    then show ?case by simp
  next
    case 2
    have "list_all well_tagged ts"
      using ber_indefinite.IH by (induction rule: list_all2_induct) auto
    then show ?case using ber_indefinite.hyps by simp }
qed simp_all

lemma octet_content_size: "octet_content u = Some v \<Longrightarrow> length v = content_size u"
  by (cases u) (auto split: if_splits)

lemma der_bytes_hd: "der_bytes u \<noteq> []" "hd (der_bytes u) = 0x04 \<longleftrightarrow> octet_content u \<noteq> None"
  if "well_tagged u" for u
  using that by (cases u; auto)+

lemma octet_value_der:
  assumes "well_tagged u" "content_size u < 2 ^ 32"
  shows "octet_value (der_bytes u) = Inr v \<longleftrightarrow> octet_content u = Some v"
proof (cases "octet_content u")
  case None
  then have "hd (der_bytes u) \<noteq> 0x04" using der_bytes_hd(2) [OF assms(1)] by simp
  then show ?thesis
    using None by (cases "der_bytes u") (simp_all add: octet_value_def)
next
  case (Some c)
  then have u: "u = Primitive 0x04 c" by (cases u) (auto split: if_splits)
  obtain ls where ls: "emit_der 0x04 c = 0x04 # ls @ c" "ber_length (length c) ls"
    using assms(2) emit_der_form [of c] by (auto simp: u)
  then have "read_len (ls @ c) = Inr (Some (length c), c)"
    unfolding read_len_Some_iff by blast
  then show ?thesis
    by (auto simp: u ls(1) octet_value_def)
qed

lemma traverse_octet_value:
  assumes "list_all well_tagged us" "sum_list (map content_size us) < 2 ^ 32"
  shows "traverse octet_value (map der_bytes us) = Inr vs \<longleftrightarrow> map octet_content us = map Some vs"
  using assms
proof (induction us arbitrary: vs)
  case (Cons u us)
  then show ?case
    using octet_value_der [of u] by (cases vs) (auto simp: result_simps)
qed auto

lemma map_Some_the: "map f us = map Some vs \<longleftrightarrow> list_all (\<lambda>u. f u \<noteq> None) us \<and> vs = map (the \<circ> f) us"
  by (induction us arbitrary: vs) (auto simp: Cons_eq_map_conv map_eq_Cons_conv)

lemma reassemble_joins:
  assumes "list_all well_tagged us" "sum_list (map content_size us) < 2 ^ 32"
  shows "reassemble tag (map der_bytes us) = Inr out \<longleftrightarrow>
    (\<exists>u. join_octets tag us = Some u \<and> out = der_bytes u)"
proof -
  have "context_octet tag (map der_bytes us) \<longleftrightarrow>
      tag AND 0xc0 = 0x80 \<and> us \<noteq> [] \<and> list_all (\<lambda>u. octet_content u \<noteq> None) us"
    using assms(1) der_bytes_hd by (auto simp: context_octet_def list_all_iff)
  then show ?thesis
    by (auto simp: reassemble_def join_octets_def and_then_Inr_iff traverse_octet_value [OF assms] map_Some_the)
qed

lemma joined_Constructed_iff:
  "joined (Constructed tag ts) = Some u \<longleftrightarrow>
     (\<exists>us. map joined ts = map Some us \<and> join_octets tag us = Some u)"
  by (auto simp: map_Some_the Let_def list_all_iff comp_def)

lemma depth_Constructed_iff:
  "tlv_depth (Constructed tag ts) + d \<le> k \<longleftrightarrow> d \<le> k \<and> (\<forall>t \<in> set ts. tlv_depth t + Suc d \<le> k)"
proof -
  have "foldr max (map f xs) 0 + d \<le> k \<longleftrightarrow> d \<le> k \<and> (\<forall>x \<in> set xs. f x + d \<le> k)" for f :: "Tlv \<Rightarrow> nat" and xs
    by (induction xs) auto
  then show ?thesis by simp
qed

lemma cleared_bit: "(tag AND NOT 0x20) AND 0x20 = 0" for tag :: byte
  by (rule byte_all) code_simp

lemma octets_size:
  "list_all (\<lambda>u. octet_content u \<noteq> None) us \<Longrightarrow>
     length (concat (map (the \<circ> octet_content) us)) = sum_list (map content_size us)"
  by (induction us) (auto dest: octet_content_size)

lemma join_octets_keeps:
  assumes "join_octets tag us = Some u" "list_all well_tagged us" "tag AND 0x20 \<noteq> 0"
  shows "well_tagged u \<and> content_size u = sum_list (map content_size us)"
  using assms octets_size [of us] by (auto simp: join_octets_def cleared_bit [simplified] split: if_splits)

lemma joined_keeps:
  "\<lbrakk> well_tagged t; joined t = Some u \<rbrakk> \<Longrightarrow> well_tagged u \<and> content_size u = content_size t"
proof (induction t arbitrary: u)
  case (Constructed tag ts)
  then obtain us where us: "map joined ts = map Some us" "join_octets tag us = Some u"
    unfolding joined_Constructed_iff by blast
  have len: "length us = length ts" using us(1) by (metis length_map)
  have each: "joined (ts ! i) = Some (us ! i)" if "i < length ts" for i
    using us(1) that len by (metis nth_map)
  have keep: "well_tagged (us ! i) \<and> content_size (us ! i) = content_size (ts ! i)" if "i < length ts" for i
    using Constructed.IH [of "ts ! i"] Constructed.prems(1) each that by (simp add: list_all_length)
  then have "list_all well_tagged us" "map content_size us = map content_size ts"
    using len by (auto simp: list_all_length intro: nth_equalityI)
  then show ?case
    using join_octets_keeps [OF us(2)] Constructed.prems(1) by simp
qed auto

lemma joined_list_keeps:
  assumes "list_all2 ber ts parts" "map joined ts = map Some us"
  shows "list_all well_tagged us" "sum_list (map content_size us) \<le> length (concat parts)"
proof -
  have "list_all well_tagged us \<and> sum_list (map content_size us) \<le> length (concat parts)"
    using assms
  proof (induction arbitrary: us rule: list_all2_induct)
    case (Cons t ts p parts)
    then obtain u us' where us: "us = u # us'" "joined t = Some u" "map joined ts = map Some us'"
      by (auto simp: Cons_eq_map_conv)
    show ?case
      using Cons.IH [OF us(3)] joined_keeps [OF ber_well_tagged us(2), OF Cons.hyps(1)] ber_size [OF Cons.hyps(1)]
      by (simp add: us(1))
  qed simp
  then show "list_all well_tagged us" "sum_list (map content_size us) \<le> length (concat parts)" by simp_all
qed

lemma reassemble_joined:
  assumes "list_all2 ber ts parts" "map joined ts = map Some us" "length (concat parts) < 2 ^ 32"
  shows "reassemble tag (map der_bytes us) = Inr out \<longleftrightarrow>
    (\<exists>u. joined (Constructed tag ts) = Some u \<and> out = der_bytes u)"
proof -
  have "map joined ts = map Some us' \<longleftrightarrow> us' = us" for us'
    using assms(2) by (auto simp: map_Some_the)
  then show ?thesis
    using reassemble_joins [of us tag out] joined_list_keeps [OF assms(1,2)] assms(3)
    unfolding joined_Constructed_iff by simp
qed

lemma ber_two: "ber t bs \<Longrightarrow> 2 \<le> length bs"
  by (cases rule: ber.cases) (auto simp: ber_length_def)

lemma transcode_sound:
  "\<lbrakk> transcode_tlv n input d = Inr (out, rest); length input < 2 ^ 32 \<rbrakk> \<Longrightarrow>
    \<exists>t u used. input = used @ rest \<and> ber t used \<and> tlv_depth t + d \<le> MAX_TLV_DEPTH \<and>
      joined t = Some u \<and> out = der_bytes u"
  and children_within_sound:
  "\<lbrakk> children_within n region d = Inr cs; length region < 2 ^ 32 \<rbrakk> \<Longrightarrow>
    \<exists>ts us parts. region = concat parts \<and> list_all2 ber ts parts \<and>
      (\<forall>t \<in> set ts. tlv_depth t + d \<le> MAX_TLV_DEPTH) \<and> map joined ts = map Some us \<and> cs = map der_bytes us"
  and children_until_end_sound:
  "\<lbrakk> children_until_end n region d = Inr (cs, after); length region < 2 ^ 32 \<rbrakk> \<Longrightarrow>
    \<exists>ts us parts. region = concat parts @ [0, 0] @ after \<and> list_all2 ber ts parts \<and>
      list_all (\<lambda>p. take 2 p \<noteq> [0, 0]) parts \<and>
      (\<forall>t \<in> set ts. tlv_depth t + d \<le> MAX_TLV_DEPTH) \<and> map joined ts = map Some us \<and> cs = map der_bytes us"
proof (induction n arbitrary: input d out rest region cs after)
  case (Suc n)
  { case 1
    then obtain tag body where input: "input = tag # body" "tag AND 0x1f \<noteq> 0x1f" "d \<le> MAX_TLV_DEPTH"
      by (auto simp: transcode_Inr_iff)
    from 1 consider
        (prim) l content where "tag AND 0x20 = 0" "read_len body = Inr (Some l, content)" "l \<le> length content"
          "out = emit_der tag (take l content)" "rest = drop l content"
      | (def) l content cs where "tag AND 0x20 \<noteq> 0" "read_len body = Inr (Some l, content)" "l \<le> length content"
          "children_within n (take l content) (Suc d) = Inr cs" "reassemble tag cs = Inr out" "rest = drop l content"
      | (indef) content cs where "tag AND 0x20 \<noteq> 0" "read_len body = Inr (None, content)"
          "children_until_end n content (Suc d) = Inr (cs, rest)" "reassemble tag cs = Inr out"
      by (auto simp: transcode_Inr_iff input)
    then show ?case
    proof cases
      case prim
      obtain ls where ls: "ber_length l ls" "body = ls @ content"
        using prim(2) unfolding read_len_Some_iff by blast
      have "ber (Primitive tag (take l content)) (tag # ls @ take l content)"
        using input(2) prim(1,3) ls(1) by (intro ber_primitive) (simp_all add: min_absorb2)
      then show ?thesis
        using prim(4,5) input(3)
        by (intro exI [of _ "Primitive tag (take l content)"] exI [of _ "tag # ls @ take l content"]) (simp add: input(1) ls(2))
    next
      case def
      obtain ls where ls: "ber_length l ls" "body = ls @ content"
        using def(2) unfolding read_len_Some_iff by blast
      have small: "length (take l content) < 2 ^ 32"
        using "1"(2) by (simp add: input(1) ls(2))
      obtain ts us parts where ts: "take l content = concat parts" "list_all2 ber ts parts"
          "\<forall>t \<in> set ts. tlv_depth t + Suc d \<le> MAX_TLV_DEPTH" "map joined ts = map Some us" "cs = map der_bytes us"
        using Suc.IH(2) [OF def(4) small] by blast
      have len: "length (concat parts) = l" using def(3) ts(1) by (metis length_take min_absorb2)
      have "ber (Constructed tag ts) (tag # ls @ concat parts)"
        using input(2) def(1) ts(2) ls(1) len by (intro ber_definite) simp_all
      moreover obtain u where "joined (Constructed tag ts) = Some u" "out = der_bytes u"
        using reassemble_joined [OF ts(2,4)] def(5) small ts(1,5) by auto
      moreover have "tlv_depth (Constructed tag ts) + d \<le> MAX_TLV_DEPTH"
        unfolding depth_Constructed_iff using ts(3) input(3) by blast
      moreover have "input = (tag # ls @ concat parts) @ rest"
        using def(6) ts(1) by (simp add: input(1) ls(2) flip: ts(1))
      ultimately show ?thesis by blast
    next
      case indef
      have body: "body = 0x80 # content" using indef(2) unfolding read_len_None_iff .
      obtain ts us parts where ts: "content = concat parts @ [0, 0] @ rest" "list_all2 ber ts parts"
          "list_all (\<lambda>p. take 2 p \<noteq> [0, 0]) parts"
          "\<forall>t \<in> set ts. tlv_depth t + Suc d \<le> MAX_TLV_DEPTH" "map joined ts = map Some us" "cs = map der_bytes us"
        using Suc.IH(3) [OF indef(3)] "1"(2) by (auto simp: input(1) body)
      have "ber (Constructed tag ts) (tag # 0x80 # concat parts @ [0, 0])"
        using input(2) indef(1) ts(2,3) by (intro ber_indefinite) simp_all
      moreover obtain u where "joined (Constructed tag ts) = Some u" "out = der_bytes u"
        using reassemble_joined [OF ts(2,5)] indef(4) "1"(2) ts(6) by (auto simp: input(1) body ts(1))
      moreover have "tlv_depth (Constructed tag ts) + d \<le> MAX_TLV_DEPTH"
        unfolding depth_Constructed_iff using ts(4) input(3) by blast
      moreover have "input = (tag # 0x80 # concat parts @ [0, 0]) @ rest"
        by (simp add: input(1) body ts(1))
      ultimately show ?thesis by blast
    qed
  next
    case 2
    show ?case
    proof (cases "region = []")
      case True
      with 2 show ?thesis
        by (intro exI [of _ "[]"]) (simp add: children_within_Cons_iff)
    next
      case False
      then obtain child rest cs' where step: "transcode_tlv n region d = Inr (child, rest)"
          "children_within n rest d = Inr cs'" "cs = child # cs'"
        using 2(1) by (auto simp: children_within_Cons_iff)
      obtain t u used where t: "region = used @ rest" "ber t used" "tlv_depth t + d \<le> MAX_TLV_DEPTH"
          "joined t = Some u" "child = der_bytes u"
        using Suc.IH(1) [OF step(1) 2(2)] by blast
      have "length rest < 2 ^ 32" using 2(2) t(1) by simp
      from Suc.IH(2) [OF step(2) this] obtain ts us parts where "rest = concat parts" "list_all2 ber ts parts"
          "\<forall>t \<in> set ts. tlv_depth t + d \<le> MAX_TLV_DEPTH" "map joined ts = map Some us" "cs' = map der_bytes us"
        by blast
      then show ?thesis
        using t step(3) by (intro exI [of _ "t # ts"] exI [of _ "u # us"] exI [of _ "used # parts"]) simp
    qed
  next
    case 3
    show ?case
    proof (cases "take 2 region = [0, 0]")
      case True
      with 3 show ?thesis
        by (intro exI [of _ "[]"]) (simp add: children_until_end_Cons_iff)
    next
      case False
      then obtain child rest cs' where step: "transcode_tlv n region d = Inr (child, rest)"
          "children_until_end n rest d = Inr (cs', after)" "cs = child # cs'"
        using 3(1) by (auto simp: children_until_end_Cons_iff)
      obtain t u used where t: "region = used @ rest" "ber t used" "tlv_depth t + d \<le> MAX_TLV_DEPTH"
          "joined t = Some u" "child = der_bytes u"
        using Suc.IH(1) [OF step(1) 3(2)] by blast
      have part: "take 2 used \<noteq> [0, 0]"
        using False t(1) ber_two [OF t(2)] by simp
      have "length rest < 2 ^ 32" using 3(2) t(1) by simp
      from Suc.IH(3) [OF step(2) this] obtain ts us parts where "rest = concat parts @ [0, 0] @ after"
          "list_all2 ber ts parts" "list_all (\<lambda>p. take 2 p \<noteq> [0, 0]) parts"
          "\<forall>t \<in> set ts. tlv_depth t + d \<le> MAX_TLV_DEPTH" "map joined ts = map Some us" "cs' = map der_bytes us"
        by blast
      then show ?thesis
        using t step(3) part by (intro exI [of _ "t # ts"] exI [of _ "u # us"] exI [of _ "used # parts"]) simp
    qed
  }
qed simp_all

definition transcodes :: "nat \<Rightarrow> Tlv \<Rightarrow> bytes \<Rightarrow> bool" where
  "transcodes d t bs \<longleftrightarrow>
     (\<forall>n rest u. length bs < n \<longrightarrow> joined t = Some u \<longrightarrow> transcode_tlv n (bs @ rest) d = Inr (der_bytes u, rest))"

lemma children_within_complete:
  assumes "list_all2 (transcodes d) ts parts" "list_all (\<lambda>p. 2 \<le> length p) parts"
    "map joined ts = map Some us" "length (concat parts) + 2 \<le> n"
  shows "children_within n (concat parts) d = Inr (map der_bytes us)"
  using assms
proof (induction arbitrary: us n rule: list_all2_induct)
  case Nil
  then show ?case by (cases n) (simp_all add: children_within_Cons_iff)
next
  case (Cons t ts p parts)
  then obtain u us' m where us: "us = u # us'" "joined t = Some u" "map joined ts = map Some us'" "n = Suc m"
    by (cases n) (auto simp: Cons_eq_map_conv)
  have "transcode_tlv m (p @ concat parts) d = Inr (der_bytes u, concat parts)"
    using Cons.hyps(1) us(2,4) Cons.prems(3) unfolding transcodes_def by simp
  moreover have "children_within m (concat parts) d = Inr (map der_bytes us')"
    using Cons.IH [of us' m] Cons.prems us(3,4) by simp
  moreover have "p \<noteq> []" using Cons.prems(1) by auto
  ultimately show ?case by (simp add: us children_within_Cons_iff)
qed

lemma children_until_end_complete:
  assumes "list_all2 (transcodes d) ts parts" "list_all (\<lambda>p. 2 \<le> length p \<and> take 2 p \<noteq> [0, 0]) parts"
    "map joined ts = map Some us" "length (concat parts) + 2 \<le> n"
  shows "children_until_end n (concat parts @ [0, 0] @ rest) d = Inr (map der_bytes us, rest)"
  using assms
proof (induction arbitrary: us n rule: list_all2_induct)
  case Nil
  then show ?case by (cases n) (simp_all add: children_until_end_Cons_iff)
next
  case (Cons t ts p parts)
  then obtain u us' m where us: "us = u # us'" "joined t = Some u" "map joined ts = map Some us'" "n = Suc m"
    by (cases n) (auto simp: Cons_eq_map_conv)
  have "transcode_tlv m (p @ concat parts @ [0, 0] @ rest) d = Inr (der_bytes u, concat parts @ [0, 0] @ rest)"
    using Cons.hyps(1) us(2,4) Cons.prems(3) unfolding transcodes_def by simp
  moreover have "children_until_end m (concat parts @ [0, 0] @ rest) d = Inr (map der_bytes us', rest)"
    using Cons.IH [of us' m] Cons.prems us(3,4) by simp
  moreover have "take 2 (p @ concat parts @ [0, 0] @ rest) \<noteq> [0, 0]" using Cons.prems(1) by simp
  ultimately show ?case by (simp add: us children_until_end_Cons_iff)
qed

lemma ber_parts_two: "list_all2 ber ts parts \<Longrightarrow> list_all (\<lambda>p. 2 \<le> length p) parts"
  by (induction rule: list_all2_induct) (auto simp: ber_two)

lemma parts_transcode:
  assumes "list_all2 (\<lambda>t p. ber t p \<and> (length p < 2 ^ 32 \<longrightarrow> (\<forall>d. tlv_depth t + d \<le> MAX_TLV_DEPTH \<longrightarrow> transcodes d t p))) ts parts"
    "length (concat parts) < 2 ^ 32" "\<forall>t \<in> set ts. tlv_depth t + d \<le> MAX_TLV_DEPTH"
  shows "list_all2 ber ts parts" "list_all2 (transcodes d) ts parts"
proof -
  have "list_all2 ber ts parts \<and> list_all2 (transcodes d) ts parts"
    using assms by (induction rule: list_all2_induct) auto
  then show "list_all2 ber ts parts" "list_all2 (transcodes d) ts parts" by simp_all
qed

lemma transcode_complete:
  "\<lbrakk> ber t bs; length bs < 2 ^ 32; tlv_depth t + d \<le> MAX_TLV_DEPTH \<rbrakk> \<Longrightarrow> transcodes d t bs"
proof (induction arbitrary: d rule: ber.induct)
  case (ber_primitive tag content ls)
  have read: "read_len (ls @ content @ rest) = Inr (Some (length content), content @ rest)" for rest
    using ber_primitive(3) unfolding read_len_Some_iff by auto
  show ?case
    unfolding transcodes_def
  proof (intro allI impI)
    fix n rest u
    assume "length (tag # ls @ content) < n" "joined (Primitive tag content) = Some u"
    then show "transcode_tlv n ((tag # ls @ content) @ rest) d = Inr (der_bytes u, rest)"
      using ber_primitive read [of rest] by (cases n) (auto simp: transcode_Inr_iff)
  qed
next
  case (ber_definite tag ts parts ls)
  have depth: "d \<le> MAX_TLV_DEPTH" "\<forall>t \<in> set ts. tlv_depth t + Suc d \<le> MAX_TLV_DEPTH"
    using ber_definite.prems(2) unfolding depth_Constructed_iff by auto
  have small: "length (concat parts) < 2 ^ 32" using ber_definite.prems(1) by simp
  note parts = parts_transcode [OF ber_definite.IH small depth(2)]
  have read: "read_len (ls @ concat parts @ rest) = Inr (Some (length (concat parts)), concat parts @ rest)" for rest
    using ber_definite.hyps(3) unfolding read_len_Some_iff by auto
  show ?case
    unfolding transcodes_def
  proof (intro allI impI)
    fix n rest u
    assume n: "length (tag # ls @ concat parts) < n" and u: "joined (Constructed tag ts) = Some u"
    then obtain m where m: "n = Suc m" by (cases n) auto
    obtain us where us: "map joined ts = map Some us" using u unfolding joined_Constructed_iff by blast
    have "ls \<noteq> []" using ber_definite.hyps(3) by (auto simp: ber_length_def)
    then have "length (concat parts) + 2 \<le> m" using n m by (cases ls) auto
    then have "children_within m (concat parts) (Suc d) = Inr (map der_bytes us)"
      using children_within_complete [OF parts(2) ber_parts_two [OF parts(1)] us] by blast
    then show "transcode_tlv n ((tag # ls @ concat parts) @ rest) d = Inr (der_bytes u, rest)"
      using ber_definite.hyps(1,2) read [of rest] depth(1) reassemble_joined [OF parts(1) us small, of tag "der_bytes u"] u
      by (auto simp: m transcode_Inr_iff)
  qed
next
  case (ber_indefinite tag ts parts)
  have depth: "d \<le> MAX_TLV_DEPTH" "\<forall>t \<in> set ts. tlv_depth t + Suc d \<le> MAX_TLV_DEPTH"
    using ber_indefinite.prems(2) unfolding depth_Constructed_iff by auto
  have small: "length (concat parts) < 2 ^ 32" using ber_indefinite.prems(1) by simp
  note parts = parts_transcode [OF ber_indefinite.IH small depth(2)]
  have two: "list_all (\<lambda>p. 2 \<le> length p \<and> take 2 p \<noteq> [0, 0]) parts"
    using ber_parts_two [OF parts(1)] ber_indefinite.hyps(3) by (simp add: list_all_iff)
  show ?case
    unfolding transcodes_def
  proof (intro allI impI)
    fix n rest u
    assume n: "length (tag # 0x80 # concat parts @ [0, 0]) < n" and u: "joined (Constructed tag ts) = Some u"
    then obtain m where m: "n = Suc m" by (cases n) auto
    obtain us where us: "map joined ts = map Some us" using u unfolding joined_Constructed_iff by blast
    have "length (concat parts) + 2 \<le> m" using n m by simp
    then have "children_until_end m (concat parts @ [0, 0] @ rest) (Suc d) = Inr (map der_bytes us, rest)"
      using children_until_end_complete [OF parts(2) two us] by blast
    then show "transcode_tlv n ((tag # 0x80 # concat parts @ [0, 0]) @ rest) d = Inr (der_bytes u, rest)"
      using ber_indefinite.hyps(1,2) depth(1) reassemble_joined [OF parts(1) us small, of tag "der_bytes u"] u
      by (auto simp: m transcode_Inr_iff read_len_None_iff)
  qed
qed

text \<open>C21. The transcoder preserves the value. For any input below 4 GiB it ends, without running out of
  fuel, and it accepts exactly the BER encodings of the values nested at most 64 deep whose chunked
  octet strings can be joined; its output is the DER encoding of that very value, joined.\<close>

theorem transcoding_preserves_value:
  assumes "length input < 2 ^ 32"
  shows "(ber_to_der input = Inr out \<longleftrightarrow>
      (\<exists>t u. ber t input \<and> tlv_depth t \<le> MAX_TLV_DEPTH \<and> joined t = Some u \<and> out = der_bytes u)) \<and>
    ber_to_der input \<noteq> Inl Ber_OutOfFuel"
proof -
  have "ber_to_der input \<noteq> Inl Ber_OutOfFuel"
    using transcode_fuel [of input "Suc (length input)" 0]
    by (auto simp: ber_to_der_def and_then_Inl_iff split: if_splits)
  moreover have "\<exists>t u. ber t input \<and> tlv_depth t \<le> MAX_TLV_DEPTH \<and> joined t = Some u \<and> out = der_bytes u"
    if "ber_to_der input = Inr out"
  proof -
    have "transcode_tlv (Suc (length input)) input 0 = Inr (out, [])"
      using that by (auto simp: ber_to_der_def result_simps split: if_splits)
    from transcode_sound [OF this assms] show ?thesis by auto
  qed
  moreover have "ber_to_der input = Inr out"
    if t: "ber t input" "tlv_depth t \<le> MAX_TLV_DEPTH" "joined t = Some u" "out = der_bytes u" for t u
  proof -
    have "transcodes 0 t input" using transcode_complete [OF t(1) assms] t(2) by simp
    then have "transcode_tlv (Suc (length input)) (input @ []) 0 = Inr (out, [])"
      using t(3,4) unfolding transcodes_def by blast
    then show ?thesis by (simp add: ber_to_der_def)
  qed
  ultimately show ?thesis by blast
qed

text \<open>An indefinite-length sequence with a chunked octet string, and its transcoding.\<close>

lemma ex_transcoding:
  "ber_to_der [0x30, 0x80, 0x24, 0x80, 0x04, 0x01, 0xAA, 0x04, 0x01, 0xBB, 0, 0, 0, 0] =
     Inr [0x30, 0x04, 0x04, 0x02, 0xAA, 0xBB]"
  by code_simp

theorem transcoding_preserves_value_witness:
  "length [0x30, 0x80, 0x24, 0x80, 0x04, 0x01, 0xAA, 0x04, 0x01, 0xBB, 0, 0, 0, 0 :: byte] < 2 ^ 32 \<and>
   (\<exists>t u. ber t [0x30, 0x80, 0x24, 0x80, 0x04, 0x01, 0xAA, 0x04, 0x01, 0xBB, 0, 0, 0, 0] \<and>
      tlv_depth t \<le> MAX_TLV_DEPTH \<and> joined t = Some u \<and>
      [0x30, 0x04, 0x04, 0x02, 0xAA, 0xBB] = der_bytes u)"
  using transcoding_preserves_value [of "[0x30, 0x80, 0x24, 0x80, 0x04, 0x01, 0xAA, 0x04, 0x01, 0xBB, 0, 0, 0, 0]"
      "[0x30, 0x04, 0x04, 0x02, 0xAA, 0xBB]"] ex_transcoding
  by simp

text \<open>Strict DER is not always left as it is: an explicitly tagged octet string, \<open>[0] EXPLICIT\<close>, is
  already DER, and the transcoder takes it for a chunked implicitly tagged one and drops the inner header.\<close>

theorem explicit_octet_string_is_rewritten:
  "der_bytes (Constructed 0xA0 [Primitive 0x04 [0x01, 0x02]]) = [0xA0, 0x04, 0x04, 0x02, 0x01, 0x02] \<and>
   ber_to_der [0xA0, 0x04, 0x04, 0x02, 0x01, 0x02] = Inr [0x80, 0x02, 0x01, 0x02]"
  by code_simp

end
