(* ===== verification/Luks_Keys.thy ===== *)
theory Luks_Keys
  imports Run_Monad Kms_Policy Kms_Recipient Rust_Text
begin

text \<open>
  The key management of the encrypted volume, \<open>enclavia-crypto/src/main.rs\<close>: recovering or creating
  the LUKS passphrase at boot, re-keying the volume for an upgrade, and rolling that back. Everything
  outside the binary (the storage host, KMS, the NSM, the random generator, the file system's
  failures, \<open>cryptsetup\<close>) is a state of any type with one operation per kind of call, free to answer and
  to change as it likes; what the code did is kept in a log. The JSON, base64, hex and RSA crates are
  parameters.
\<close>

definition BLOB_VERSION :: u32 where "BLOB_VERSION = 1"
definition PASSPHRASE_BYTES :: nat where "PASSPHRASE_BYTES = 32"

record UpgradeRollbackStash =
  us_pre_prepare_blob :: bytes
  us_new_keyslot :: u32

record KeyBlob =
  kb_version :: u32
  kb_kms_key_id :: string
  kb_ciphertext :: "string option"
  kb_prev_key_id :: "string option"

record CryptoExt = ChainExt +
  policy_from_str :: "string \<Rightarrow> Json option"
  blob_from_slice :: "bytes \<Rightarrow> KeyBlob option"
  blob_to_vec :: "KeyBlob \<Rightarrow> bytes"
  stash_from_str :: "bytes \<Rightarrow> UpgradeRollbackStash option"
  stash_to_string :: "UpgradeRollbackStash \<Rightarrow> bytes"
  hex_decode_text :: "utext \<Rightarrow> bytes option"
  cms :: CmsExt

datatype CryptoError =
    Cr_MetaIo
  | Cr_MetaTooLarge u32
  | Cr_MetaRejected byte
  | Cr_BlobMissing
  | Cr_BlobJson
  | Cr_BlobVersion u32
  | Cr_NoTransport
  | Cr_NoCredentials
  | Cr_Kms
  | Cr_Base64
  | Cr_Origin string
  | Cr_Policy PolicyError
  | Cr_Attestation LocalAttestationError
  | Cr_Rsa
  | Cr_Recipient RecipientError
  | Cr_PassphraseLength nat
  | Cr_File
  | Cr_StashJson
  | Cr_EmptyKeyId
  | Cr_PcrHex nat
  | Cr_PcrLength nat nat
  | Cr_StashExists
  | Cr_SameKeyId
  | Cr_NoCiphertext
  | Cr_PublicKeyMismatch
  | Cr_Spawn
  | Cr_Dump
  | Cr_NotLuks2
  | Cr_NoKeyslots
  | Cr_Diverges
  | Cr_AddKey
  | Cr_SlotVerification u32
  | Cr_NoStash
  | Cr_LiveSlot u32
  | Cr_KillSlot u32
  | Cr_NoLongerOpens u32

subsection \<open>The environment and the transport to KMS\<close>

record CryptoEnv =
  env_var :: "string \<Rightarrow> utext option"
  host_cid_file :: "utext option"

definition var_or :: "CryptoEnv \<Rightarrow> string \<Rightarrow> string \<Rightarrow> utext" where
  "var_or E name fallback = (case env_var E name of Some v \<Rightarrow> v | None \<Rightarrow> str fallback)"

definition parse_host_cid :: "utext \<Rightarrow> u32 option" where
  "parse_host_cid raw =
     (case parse_u32 (trim raw) of Some cid \<Rightarrow> if cid = 3 \<or> cid = 2 then Some cid else None | None \<Rightarrow> None)"

definition init_recorded_host_cid :: "CryptoEnv \<Rightarrow> u32 option" where
  "init_recorded_host_cid E = Option.bind (host_cid_file E) parse_host_cid"

datatype TransportSelection = Select_Mock | Select_Aws utext

definition select_transport :: "utext option \<Rightarrow> u32 option \<Rightarrow> CryptoError + TransportSelection" where
  "select_transport region init_recorded_cid =
     (case region of
        Some r \<Rightarrow>
          if trim r \<noteq> [] then Inr (Select_Aws (trim r))
          else if init_recorded_cid = Some 2 then Inr Select_Mock else Inl Cr_NoTransport
      | None \<Rightarrow> if init_recorded_cid = Some 2 then Inr Select_Mock else Inl Cr_NoTransport)"

datatype KmsTransport =
    Kms_Mock
  | Kms_Aws (aws_region: utext) (aws_host: utext) (aws_access_key_id: utext) (aws_secret: utext)
      (aws_session_token: "utext option")

definition kms_transport :: "CryptoEnv \<Rightarrow> CryptoError + KmsTransport" where
  "kms_transport E =
     and_then (select_transport (env_var E ''KMS_AWS_REGION'') (init_recorded_host_cid E)) (\<lambda>selection.
       case selection of
         Select_Mock \<Rightarrow> Inr Kms_Mock
       | Select_Aws region \<Rightarrow>
           and_then (ok_or Cr_NoCredentials (env_var E ''AWS_ACCESS_KEY_ID'')) (\<lambda>access.
           and_then (ok_or Cr_NoCredentials (env_var E ''AWS_SECRET_ACCESS_KEY'')) (\<lambda>secret.
             Inr (Kms_Aws region (str ''kms.'' @ region @ str ''.amazonaws.com'') access secret
               (case env_var E ''AWS_SESSION_TOKEN'' of
                  Some t \<Rightarrow> if t = [] then None else Some t
                | None \<Rightarrow> None)))))"

subsection \<open>The world of a run\<close>

text \<open>A KMS request, by the fields that vary from call to call: the key, and for \<open>Decrypt\<close> the
  ciphertext and the attestation document of the recipient. The algorithm names, the policy name and
  the deletion window are the same in every request. Of the response, each call reads one string
  field, which is the answer.\<close>

datatype KmsCall =
    GetPublicKey string
  | GetKeyPolicy string
  | DescribeKey string
  | Decrypt string string string
  | ScheduleKeyDeletion string

datatype CryptsetupCmd =
    LuksDump
  | LuksAddKey u32 bytes bytes
  | TestPassphrase "u32 option" bytes
  | LuksKillSlot bytes u32

datatype CmdExit = Spawn_Failed | Exited (exit_success: bool) (exit_stdout: utext)

datatype WriteFate = Write_Ok | Write_NotOpened | Write_Partial nat

text \<open>An answer of KMS is the one string field the code reads of the response, if the call gave one.\<close>

record 'o Outside =
  o_meta_get :: "'o \<Rightarrow> bytes option \<times> 'o"
  o_meta_put :: "bytes \<Rightarrow> 'o \<Rightarrow> bytes option \<times> 'o"
  o_kms :: "KmsTransport \<Rightarrow> KmsCall \<Rightarrow> 'o \<Rightarrow> string option \<times> 'o"
  o_nsm :: "NsmRequest \<Rightarrow> 'o \<Rightarrow> bytes option \<times> 'o"
  o_random :: "nat \<Rightarrow> 'o \<Rightarrow> bytes \<times> 'o"
  o_rsa_keygen :: "'o \<Rightarrow> (bytes \<times> bytes) option \<times> 'o"
  o_oaep_encrypt :: "bytes \<Rightarrow> bytes \<Rightarrow> 'o \<Rightarrow> bytes option \<times> 'o"
  o_write :: "utext \<Rightarrow> 'o \<Rightarrow> WriteFate \<times> 'o"
  o_file_ok :: "utext \<Rightarrow> 'o \<Rightarrow> bool \<times> 'o"
  o_cryptsetup :: "CryptsetupCmd \<Rightarrow> 'o \<Rightarrow> CmdExit \<times> 'o"

datatype Event =
    Ev_Got "bytes option"
  | Ev_Kms KmsTransport KmsCall "string option"
  | Ev_Nsm NsmRequest "bytes option"
  | Ev_Sealed bytes bytes
  | Ev_Put bytes
  | Ev_Cryptsetup CryptsetupCmd CmdExit

record 'o World =
  w_out :: 'o
  w_files :: "utext \<rightharpoonup> bytes"
  w_log :: "Event list"

type_synonym ('o, 'a) crypto = "('o World, CryptoError, 'a) run"

definition ask :: "('o \<Rightarrow> 'a \<times> 'o) \<Rightarrow> ('a \<Rightarrow> Event list) \<Rightarrow> ('o, 'a) crypto" where
  "ask call events w =
     (case call (w_out w) of (answer, out') \<Rightarrow>
        (Inr answer, w\<lparr> w_out := out', w_log := w_log w @ events answer \<rparr>))"

lemma ask_iff:
  "ask call events w = (r, w') \<longleftrightarrow> r = Inr (fst (call (w_out w))) \<and>
     w' = w\<lparr> w_out := snd (call (w_out w)), w_log := w_log w @ events (fst (call (w_out w))) \<rparr>"
  by (auto simp: ask_def split: prod.split)

definition set_file :: "utext \<Rightarrow> bytes option \<Rightarrow> ('o, unit) crypto" where
  "set_file path content w = (Inr (), w\<lparr> w_files := (w_files w)(path := content) \<rparr>)"

definition get_file :: "utext \<Rightarrow> ('o, bytes option) crypto" where
  "get_file path w = (Inr (w_files w path), w)"

definition write_file :: "'o Outside \<Rightarrow> utext \<Rightarrow> bytes \<Rightarrow> ('o, unit) crypto" where
  "write_file W path content =
     run_bind (ask (o_write W path) (\<lambda>_. [])) (\<lambda>fate.
       case fate of
         Write_Ok \<Rightarrow> set_file path (Some content)
       | Write_NotOpened \<Rightarrow> run_fail Cr_File
       | Write_Partial n \<Rightarrow> run_bind (set_file path (Some (take n content))) (\<lambda>_. run_fail Cr_File))"

definition remove_file :: "'o Outside \<Rightarrow> utext \<Rightarrow> ('o, unit) crypto" where
  "remove_file W path =
     run_bind (get_file path) (\<lambda>content.
       case content of
         None \<Rightarrow> run_return ()
       | Some _ \<Rightarrow>
           run_bind (ask (o_file_ok W path) (\<lambda>_. [])) (\<lambda>ok.
             if ok then set_file path None else run_fail Cr_File))"

definition read_to_string :: "'o Outside \<Rightarrow> utext \<Rightarrow> ('o, bytes option) crypto" where
  "read_to_string W path =
     run_bind (get_file path) (\<lambda>content.
       case content of
         None \<Rightarrow> run_return None
       | Some c \<Rightarrow>
           run_bind (ask (o_file_ok W path) (\<lambda>_. [])) (\<lambda>ok.
             if ok \<and> valid_utf8 c then run_return (Some c) else run_fail Cr_File))"

definition cryptsetup :: "'o Outside \<Rightarrow> CryptsetupCmd \<Rightarrow> ('o, CmdExit) crypto" where
  "cryptsetup W cmd = ask (o_cryptsetup W cmd) (\<lambda>e. [Ev_Cryptsetup cmd e])"

text \<open>\<open>status()?.success()\<close>: a command that could not be started is an error.\<close>

definition run_command :: "'o Outside \<Rightarrow> CryptsetupCmd \<Rightarrow> ('o, bool) crypto" where
  "run_command W cmd =
     run_bind (cryptsetup W cmd) (\<lambda>e.
       case e of Spawn_Failed \<Rightarrow> run_fail Cr_Spawn | Exited success _ \<Rightarrow> run_return success)"

subsection \<open>The rollback stash\<close>

definition rollback_stash_path :: "CryptoEnv \<Rightarrow> utext" where
  "rollback_stash_path E = var_or E ''UPGRADE_ROLLBACK_STASH'' ''/run/enclavia/upgrade-rollback.json''"

text \<open>Creating the parent directory fails together with the write.\<close>

definition write_rollback_stash ::
    "'x CryptoExt_scheme \<Rightarrow> CryptoEnv \<Rightarrow> 'o Outside \<Rightarrow> UpgradeRollbackStash \<Rightarrow> ('o, unit) crypto" where
  "write_rollback_stash X E W stash = write_file W (rollback_stash_path E) (stash_to_string X stash)"

definition read_rollback_stash ::
    "'x CryptoExt_scheme \<Rightarrow> CryptoEnv \<Rightarrow> 'o Outside \<Rightarrow> ('o, UpgradeRollbackStash option) crypto" where
  "read_rollback_stash X E W =
     run_bind (read_to_string W (rollback_stash_path E)) (\<lambda>content.
       case content of
         None \<Rightarrow> run_return None
       | Some json \<Rightarrow> run_of (and_then (ok_or Cr_StashJson (stash_from_str X json)) (\<lambda>stash. Inr (Some stash))))"

definition remove_rollback_stash :: "CryptoEnv \<Rightarrow> 'o Outside \<Rightarrow> ('o, unit) crypto" where
  "remove_rollback_stash E W = remove_file W (rollback_stash_path E)"

subsection \<open>Keyslots\<close>

fun dump_line :: "bool \<times> bool \<times> u32 list \<Rightarrow> utext \<Rightarrow> bool \<times> bool \<times> u32 list" where
  "dump_line (in_keyslots, seen_section, slots) line =
     (if line \<noteq> [] \<and> hd line \<noteq> 32 \<and> hd line \<noteq> 9 then
        let header = trim_end line = str ''Keyslots:'' in (header, seen_section \<or> header, slots)
      else if \<not> in_keyslots then (in_keyslots, seen_section, slots)
      else
        (in_keyslots, seen_section,
         case split_once 58 (trim_start line) of
           Some (idx, _) \<Rightarrow> (case parse_u32 idx of Some n \<Rightarrow> slots @ [n] | None \<Rightarrow> slots)
         | None \<Rightarrow> slots))"

definition parse_occupied_keyslots :: "utext \<Rightarrow> u32 list option" where
  "parse_occupied_keyslots dump =
     (case foldl dump_line (False, False, []) (text_lines dump) of
        (_, seen_section, slots) \<Rightarrow> if seen_section then Some slots else None)"

text \<open>The search loop, with fuel; it needs at most one step more than there are occupied slots.\<close>

fun first_free_loop :: "nat \<Rightarrow> u32 list \<Rightarrow> u32 \<Rightarrow> u32 option" where
  "first_free_loop 0 occupied n = None"
| "first_free_loop (Suc fuel) occupied n =
     (if n \<in> set occupied then first_free_loop fuel occupied (n + 1) else Some n)"

definition first_free_from_occupied :: "u32 list \<Rightarrow> u32 option" where
  "first_free_from_occupied occupied = first_free_loop (Suc (length occupied)) occupied 0"

definition first_free_keyslot :: "'o Outside \<Rightarrow> ('o, u32) crypto" where
  "first_free_keyslot W =
     run_bind (cryptsetup W LuksDump) (\<lambda>e.
       case e of
         Spawn_Failed \<Rightarrow> run_fail Cr_Spawn
       | Exited success stdout \<Rightarrow>
           if \<not> success then run_fail Cr_Dump
           else run_of (
             and_then (ok_or Cr_NotLuks2 (parse_occupied_keyslots stdout)) (\<lambda>occupied.
               if occupied = [] then Inl Cr_NoKeyslots
               else ok_or Cr_Diverges (first_free_from_occupied occupied))))"

subsection \<open>The storage host's metadata port\<close>

definition MAX_META_BLOB_BYTES :: u32 where "MAX_META_BLOB_BYTES = push_bit 20 1"

definition meta_reply :: "bytes option \<Rightarrow> CryptoError + bytes" where
  "meta_reply answer =
     and_then (ok_or Cr_MetaIo answer) (\<lambda>stream.
       if length stream < 4 then Inl Cr_MetaIo
       else
         let len = from_be_bytes (take 4 stream) :: u32 in
         if len > MAX_META_BLOB_BYTES then Inl (Cr_MetaTooLarge len)
         else if length stream < 4 + unat len then Inl Cr_MetaIo
         else Inr (take (unat len) (drop 4 stream)))"

text \<open>A failure to connect to the storage host or to write to it is a missing answer.\<close>

definition meta_get :: "'o Outside \<Rightarrow> ('o, bytes) crypto" where
  "meta_get W = run_bind (ask (o_meta_get W) (\<lambda>answer. [Ev_Got answer])) (\<lambda>answer. run_of (meta_reply answer))"

definition META_PUT :: byte where "META_PUT = 0x02"
definition META_OK :: byte where "META_OK = 0x00"

definition put_frame :: "bytes \<Rightarrow> bytes" where
  "put_frame data = META_PUT # to_be_bytes (of_nat (length data) :: u32) @ data"

definition meta_put :: "'o Outside \<Rightarrow> bytes \<Rightarrow> ('o, unit) crypto" where
  "meta_put W data =
     run_bind (ask (o_meta_put W (put_frame data)) (\<lambda>_. [Ev_Put data])) (\<lambda>answer.
       case answer of
         Some (status # _) \<Rightarrow> if status \<noteq> META_OK then run_fail (Cr_MetaRejected status) else run_return ()
       | _ \<Rightarrow> run_fail Cr_MetaIo)"

subsection \<open>KMS\<close>

text \<open>One call: the transport is selected here. What travels over it (the vsock connection, TLS, the
  request signature, the HTTP exchange and its status, and reading the one field out of the JSON
  answer) is the outside, which answers with that field or not at all.\<close>

definition kms_call :: "CryptoEnv \<Rightarrow> 'o Outside \<Rightarrow> KmsCall \<Rightarrow> ('o, string) crypto" where
  "kms_call E W call =
     run_bind (run_of (kms_transport E)) (\<lambda>transport.
     run_bind (ask (o_kms W transport call) (\<lambda>answer. [Ev_Kms transport call answer])) (\<lambda>answer.
       run_of (ok_or Cr_Kms answer)))"

definition kms_get_public_key ::
    "'x CryptoExt_scheme \<Rightarrow> CryptoEnv \<Rightarrow> 'o Outside \<Rightarrow> string \<Rightarrow> ('o, bytes) crypto" where
  "kms_get_public_key X E W key_id =
     run_bind (kms_call E W (GetPublicKey key_id)) (\<lambda>public_key.
       run_of (ok_or Cr_Base64 (base64_decode X public_key)))"

definition verify_key_policy_for ::
    "'x CryptoExt_scheme \<Rightarrow> CryptoEnv \<Rightarrow> 'o Outside \<Rightarrow> string \<Rightarrow> Pcrs \<Rightarrow> ('o, unit) crypto" where
  "verify_key_policy_for X E W key_id expected =
     run_bind (kms_call E W (DescribeKey key_id)) (\<lambda>origin.
       if origin \<noteq> ''AWS_KMS'' then run_fail (Cr_Origin origin)
       else run_bind (kms_call E W (GetKeyPolicy key_id)) (\<lambda>policy.
         run_of (map_err Cr_Policy (verify_decrypt_policy X (policy_from_str X) policy expected))))"

definition request_attestation ::
    "'x CryptoExt_scheme \<Rightarrow> 'o Outside \<Rightarrow> NsmRequest \<Rightarrow> ('o, ValidatedAttestation) crypto" where
  "request_attestation X W request =
     run_bind (ask (o_nsm W request) (\<lambda>response. [Ev_Nsm request response])) (\<lambda>response.
       run_of (map_err Cr_Attestation (request_local X response)))"

definition own_pcrs :: "'x CryptoExt_scheme \<Rightarrow> 'o Outside \<Rightarrow> ('o, Pcrs) crypto" where
  "own_pcrs X W =
     run_bind (request_attestation X W \<lparr> nsm_nonce = None, nsm_user_data = None, nsm_public_key = None \<rparr>)
       (\<lambda>a. run_return (va_pcrs a))"

definition verify_key_policy ::
    "'x CryptoExt_scheme \<Rightarrow> CryptoEnv \<Rightarrow> 'o Outside \<Rightarrow> string \<Rightarrow> ('o, unit) crypto" where
  "verify_key_policy X E W key_id = run_bind (own_pcrs X W) (verify_key_policy_for X E W key_id)"

definition kms_decrypt ::
    "'x CryptoExt_scheme \<Rightarrow> CryptoEnv \<Rightarrow> 'o Outside \<Rightarrow> string \<Rightarrow> bytes \<Rightarrow> ('o, bytes) crypto" where
  "kms_decrypt X E W key_id ciphertext =
     run_bind (ask (o_rsa_keygen W) (\<lambda>_. [])) (\<lambda>keypair.
     run_bind (run_of (ok_or Cr_Rsa keypair)) (\<lambda>(ephemeral, public_der).
     run_bind (request_attestation X W
         \<lparr> nsm_nonce = None, nsm_user_data = None, nsm_public_key = Some public_der \<rparr>) (\<lambda>attestation.
     run_bind (kms_call E W (Decrypt key_id (base64_encode X ciphertext) (base64_encode X (va_bytes attestation))))
       (\<lambda>wrapped.
     run_bind (run_of (ok_or Cr_Base64 (base64_decode X wrapped))) (\<lambda>envelope.
       run_of (map_err Cr_Recipient (recipient_decode (cms X) ephemeral envelope)))))))"

definition kms_schedule_deletion :: "CryptoEnv \<Rightarrow> 'o Outside \<Rightarrow> string \<Rightarrow> ('o, unit) crypto" where
  "kms_schedule_deletion E W key_id =
     run_bind (kms_call E W (ScheduleKeyDeletion key_id)) (\<lambda>_. run_return ())"

definition rsa_oaep_encrypt :: "'o Outside \<Rightarrow> bytes \<Rightarrow> bytes \<Rightarrow> ('o, bytes) crypto" where
  "rsa_oaep_encrypt W pubkey_der plaintext =
     run_bind (ask (o_oaep_encrypt W pubkey_der plaintext) (\<lambda>_. [Ev_Sealed pubkey_der plaintext])) (\<lambda>ct.
       run_of (ok_or Cr_Rsa ct))"

definition random_passphrase :: "'o Outside \<Rightarrow> ('o, bytes) crypto" where
  "random_passphrase W = ask (o_random W PASSPHRASE_BYTES) (\<lambda>_. [])"

subsection \<open>Boot\<close>

definition read_blob :: "'x CryptoExt_scheme \<Rightarrow> bytes \<Rightarrow> CryptoError + KeyBlob" where
  "read_blob X raw =
     (if raw = [] then Inl Cr_BlobMissing
      else and_then (ok_or Cr_BlobJson (blob_from_slice X raw)) (\<lambda>blob.
        if kb_version blob \<noteq> BLOB_VERSION then Inl (Cr_BlobVersion (kb_version blob)) else Inr blob))"

definition init_passphrase ::
    "'x CryptoExt_scheme \<Rightarrow> CryptoEnv \<Rightarrow> 'o Outside \<Rightarrow> KeyBlob \<Rightarrow> ('o, bytes \<times> KeyBlob) crypto" where
  "init_passphrase X E W blob =
     (case kb_ciphertext blob of
        None \<Rightarrow>
          run_bind (random_passphrase W) (\<lambda>passphrase.
          run_bind (kms_get_public_key X E W (kb_kms_key_id blob)) (\<lambda>pubkey_der.
          run_bind (rsa_oaep_encrypt W pubkey_der passphrase) (\<lambda>ciphertext.
          let blob = blob\<lparr> kb_ciphertext := Some (base64_encode X ciphertext) \<rparr> in
          run_bind (meta_put W (blob_to_vec X blob)) (\<lambda>_. run_return (passphrase, blob)))))
      | Some ct \<Rightarrow>
          run_bind (run_of (ok_or Cr_Base64 (base64_decode X ct))) (\<lambda>ciphertext.
          run_bind (kms_decrypt X E W (kb_kms_key_id blob) ciphertext) (\<lambda>plaintext.
            if length plaintext \<noteq> PASSPHRASE_BYTES then run_fail (Cr_PassphraseLength (length plaintext))
            else run_return (plaintext, blob))))"

definition delete_previous_key ::
    "'x CryptoExt_scheme \<Rightarrow> CryptoEnv \<Rightarrow> 'o Outside \<Rightarrow> KeyBlob \<Rightarrow> ('o, unit) crypto" where
  "delete_previous_key X E W blob =
     (case kb_prev_key_id blob of
        None \<Rightarrow> run_return ()
      | Some prev_key_id \<Rightarrow>
          run_bind (run_attempt (kms_schedule_deletion E W prev_key_id)) (\<lambda>deleted.
            case deleted of
              Inr _ \<Rightarrow> meta_put W (blob_to_vec X (blob\<lparr> kb_prev_key_id := None \<rparr>))
            | Inl _ \<Rightarrow> run_return ()))"

definition crypto_init :: "'x CryptoExt_scheme \<Rightarrow> CryptoEnv \<Rightarrow> 'o Outside \<Rightarrow> ('o, unit) crypto" where
  "crypto_init X E W =
     run_bind (meta_get W) (\<lambda>raw.
     run_bind (run_of (read_blob X raw)) (\<lambda>blob.
     run_bind (verify_key_policy X E W (kb_kms_key_id blob)) (\<lambda>_.
     run_bind (init_passphrase X E W blob) (\<lambda>(passphrase, blob).
     run_bind (write_file W (var_or E ''LUKS_KEY_FILE'' ''/tmp/luks.key'') passphrase) (\<lambda>_.
       delete_previous_key X E W blob)))))"

subsection \<open>Preparing an upgrade\<close>

definition expected_pcr :: "'x CryptoExt_scheme \<Rightarrow> nat \<Rightarrow> utext \<Rightarrow> CryptoError + bytes" where
  "expected_pcr X i h =
     and_then (ok_or (Cr_PcrHex i) (hex_decode_text X (trim h))) (\<lambda>pcr.
       if length pcr \<noteq> 48 then Inl (Cr_PcrLength i (length pcr)) else Inr pcr)"

definition expected_pcrs :: "'x CryptoExt_scheme \<Rightarrow> utext \<times> utext \<times> utext \<Rightarrow> CryptoError + Pcrs" where
  "expected_pcrs X = (\<lambda>(h0, h1, h2).
     and_then (expected_pcr X 0 h0) (\<lambda>p0.
     and_then (expected_pcr X 1 h1) (\<lambda>p1.
     and_then (expected_pcr X 2 h2) (\<lambda>p2.
       Inr \<lparr> pcr0 = p0, pcr1 = p1, pcr2 = p2 \<rparr>))))"

text \<open>Steps 1 and 1b: the current blob, and the new key checked before anything is sealed under it.\<close>

definition check_new_key ::
    "'x CryptoExt_scheme \<Rightarrow> CryptoEnv \<Rightarrow> 'o Outside \<Rightarrow> string \<Rightarrow> string \<Rightarrow> Pcrs \<Rightarrow> ('o, bytes) crypto" where
  "check_new_key X E W new_pubkey_b64 new_key_id expected =
     run_bind (run_of (ok_or Cr_Base64 (base64_decode X new_pubkey_b64))) (\<lambda>new_pubkey_der.
     run_bind (verify_key_policy_for X E W new_key_id expected) (\<lambda>_.
     run_bind (kms_get_public_key X E W new_key_id) (\<lambda>kms_pubkey_der.
       if kms_pubkey_der \<noteq> new_pubkey_der then run_fail Cr_PublicKeyMismatch
       else run_return new_pubkey_der)))"

definition current_blob ::
    "'x CryptoExt_scheme \<Rightarrow> 'o Outside \<Rightarrow> string \<Rightarrow> ('o, bytes \<times> KeyBlob \<times> string) crypto" where
  "current_blob X W new_key_id =
     run_bind (meta_get W) (\<lambda>raw.
     run_bind (run_of (read_blob X raw)) (\<lambda>blob.
       if new_key_id = kb_kms_key_id blob then run_fail Cr_SameKeyId
       else run_bind (run_of (ok_or Cr_NoCiphertext (kb_ciphertext blob))) (\<lambda>ct.
         run_return (raw, blob, ct))))"

text \<open>Step 2: the current passphrase, through KMS.\<close>

definition current_passphrase ::
    "'x CryptoExt_scheme \<Rightarrow> CryptoEnv \<Rightarrow> 'o Outside \<Rightarrow> KeyBlob \<Rightarrow> string \<Rightarrow> ('o, bytes) crypto" where
  "current_passphrase X E W blob current_ct_b64 =
     run_bind (run_of (ok_or Cr_Base64 (base64_decode X current_ct_b64))) (\<lambda>current_ct.
     run_bind (kms_decrypt X E W (kb_kms_key_id blob) current_ct) (\<lambda>passphrase.
       if length passphrase \<noteq> PASSPHRASE_BYTES then run_fail (Cr_PassphraseLength (length passphrase))
       else run_return passphrase))"

definition current_key_path :: "CryptoEnv \<Rightarrow> utext" where
  "current_key_path E = var_or E ''LUKS_CURRENT_KEY_FILE'' ''/tmp/luks.current.key''"

definition new_key_path :: "CryptoEnv \<Rightarrow> utext" where
  "new_key_path E = var_or E ''LUKS_NEW_KEY_FILE'' ''/tmp/luks.new.key''"

text \<open>What a command reads from a key file.\<close>

definition key_file :: "utext \<Rightarrow> ('o, bytes) crypto" where
  "key_file path = run_bind (get_file path) (\<lambda>c. run_return (case c of Some k \<Rightarrow> k | None \<Rightarrow> []))"

text \<open>Steps 4b to 5b: the stash, the new keyslot, and its verification. \<open>cur\<close> and \<open>new\<close> are the key files'
  contents.\<close>

definition add_keyslot ::
    "'x CryptoExt_scheme \<Rightarrow> CryptoEnv \<Rightarrow> 'o Outside \<Rightarrow> bytes \<Rightarrow> bytes \<Rightarrow> bytes \<Rightarrow> ('o, unit) crypto" where
  "add_keyslot X E W raw cur new =
     run_bind (first_free_keyslot W) (\<lambda>slot.
     run_bind (write_rollback_stash X E W
         \<lparr> us_pre_prepare_blob = from_utf8_lossy raw, us_new_keyslot = slot \<rparr>) (\<lambda>_.
     run_bind (run_command W (LuksAddKey slot cur new)) (\<lambda>added.
       if \<not> added then
         run_bind (run_attempt (remove_rollback_stash E W)) (\<lambda>_. run_fail Cr_AddKey)
       else
         run_bind (run_command W (TestPassphrase (Some slot) new)) (\<lambda>opens.
           if \<not> opens then
             run_bind (run_attempt (cryptsetup W (LuksKillSlot cur slot))) (\<lambda>_.
             run_bind (run_attempt (remove_rollback_stash E W)) (\<lambda>_.
               run_fail (Cr_SlotVerification slot)))
           else run_return ()))))"

text \<open>Steps 4 to 6. The guards that delete the key files exist once both are written.\<close>

definition stage_upgrade ::
    "'x CryptoExt_scheme \<Rightarrow> CryptoEnv \<Rightarrow> 'o Outside \<Rightarrow> bytes \<Rightarrow> KeyBlob \<Rightarrow> string \<Rightarrow> bytes \<Rightarrow> bytes \<Rightarrow> bytes \<Rightarrow>
     ('o, unit) crypto" where
  "stage_upgrade X E W raw blob new_key_id current new new_ct =
     run_bind (write_file W (current_key_path E) current) (\<lambda>_.
     run_bind (write_file W (new_key_path E) new) (\<lambda>_.
       run_then
         (run_bind (key_file (current_key_path E)) (\<lambda>cur.
          run_bind (key_file (new_key_path E)) (\<lambda>new.
          run_bind (add_keyslot X E W raw cur new) (\<lambda>_.
            meta_put W (blob_to_vec X (blob\<lparr> kb_kms_key_id := new_key_id,
              kb_ciphertext := Some (base64_encode X new_ct),
              kb_prev_key_id := Some (kb_kms_key_id blob) \<rparr>))))))
         (run_bind (run_attempt (remove_file W (new_key_path E))) (\<lambda>_. remove_file W (current_key_path E)))))"

text \<open>Steps 1b to 6, on the current blob.\<close>

definition rekey_volume ::
    "'x CryptoExt_scheme \<Rightarrow> CryptoEnv \<Rightarrow> 'o Outside \<Rightarrow> string \<Rightarrow> string \<Rightarrow> Pcrs \<Rightarrow> bytes \<times> KeyBlob \<times> string \<Rightarrow>
     ('o, unit) crypto" where
  "rekey_volume X E W new_pubkey_b64 new_key_id expected = (\<lambda>(raw, blob, ct).
     run_bind (check_new_key X E W new_pubkey_b64 new_key_id expected) (\<lambda>new_pubkey_der.
     run_bind (current_passphrase X E W blob ct) (\<lambda>current.
     run_bind (random_passphrase W) (\<lambda>new.
     run_bind (rsa_oaep_encrypt W new_pubkey_der new) (\<lambda>new_ct.
       stage_upgrade X E W raw blob new_key_id current new new_ct)))))"

definition prepare_upgrade ::
    "'x CryptoExt_scheme \<Rightarrow> CryptoEnv \<Rightarrow> 'o Outside \<Rightarrow> string \<Rightarrow> string \<Rightarrow> utext \<times> utext \<times> utext \<Rightarrow>
     ('o, unit) crypto" where
  "prepare_upgrade X E W new_pubkey_b64 new_key_id pcrs_hex =
     (if new_key_id = [] then run_fail Cr_EmptyKeyId
      else
        run_bind (run_of (expected_pcrs X pcrs_hex)) (\<lambda>expected.
        run_bind (read_rollback_stash X E W) (\<lambda>stash.
          if stash \<noteq> None then run_fail Cr_StashExists
          else
            run_bind (current_blob X W new_key_id) (rekey_volume X E W new_pubkey_b64 new_key_id expected))))"

subsection \<open>Rolling an upgrade back\<close>

text \<open>What happens under the key file's guard.\<close>

definition kill_staged_slot ::
    "'x CryptoExt_scheme \<Rightarrow> CryptoEnv \<Rightarrow> 'o Outside \<Rightarrow> UpgradeRollbackStash \<Rightarrow> bytes \<Rightarrow> ('o, unit) crypto" where
  "kill_staged_slot X E W stash key =
     (let slot = us_new_keyslot stash in
      run_bind (run_command W (TestPassphrase (Some slot) key)) (\<lambda>live.
        if live then run_fail (Cr_LiveSlot slot)
        else
          run_bind (run_command W (LuksKillSlot key slot)) (\<lambda>killed.
            if \<not> killed then run_fail (Cr_KillSlot slot)
            else
              run_bind (run_command W (TestPassphrase None key)) (\<lambda>opens.
                if \<not> opens then run_fail (Cr_NoLongerOpens slot)
                else
                  run_bind (meta_put W (us_pre_prepare_blob stash)) (\<lambda>_. remove_rollback_stash E W)))))"

definition staged_passphrase ::
    "'x CryptoExt_scheme \<Rightarrow> CryptoEnv \<Rightarrow> 'o Outside \<Rightarrow> UpgradeRollbackStash \<Rightarrow> ('o, bytes) crypto" where
  "staged_passphrase X E W stash =
     run_bind (run_of (ok_or Cr_BlobJson (blob_from_slice X (us_pre_prepare_blob stash)))) (\<lambda>pre_blob.
     run_bind (run_of (ok_or Cr_NoCiphertext (kb_ciphertext pre_blob))) (\<lambda>ct_b64.
     run_bind (run_of (ok_or Cr_Base64 (base64_decode X ct_b64))) (\<lambda>ct.
       kms_decrypt X E W (kb_kms_key_id pre_blob) ct)))"

definition revoke_upgrade :: "'x CryptoExt_scheme \<Rightarrow> CryptoEnv \<Rightarrow> 'o Outside \<Rightarrow> ('o, unit) crypto" where
  "revoke_upgrade X E W =
     run_bind (read_rollback_stash X E W) (\<lambda>found.
     run_bind (run_of (ok_or Cr_NoStash found)) (\<lambda>stash.
     run_bind (staged_passphrase X E W stash) (\<lambda>passphrase.
     run_bind (write_file W (current_key_path E) passphrase) (\<lambda>_.
       run_then
         (run_bind (key_file (current_key_path E)) (kill_staged_slot X E W stash))
         (remove_file W (current_key_path E))))))"

datatype Command =
    Init
  | PrepareUpgrade string string "utext \<times> utext \<times> utext"
  | RevokeUpgrade

fun crypto_main :: "'x CryptoExt_scheme \<Rightarrow> CryptoEnv \<Rightarrow> 'o Outside \<Rightarrow> Command \<Rightarrow> ('o, unit) crypto" where
  "crypto_main X E W Init = crypto_init X E W"
| "crypto_main X E W (PrepareUpgrade key key_id pcrs_hex) = prepare_upgrade X E W key key_id pcrs_hex"
| "crypto_main X E W RevokeUpgrade = revoke_upgrade X E W"

subsection \<open>What the steps of a run do to its world\<close>

text \<open>An effect that every call to the outside has, except sealing, writing to the storage host and the
  cryptsetup commands that change keyslots, and that writing and deleting the key files have. The steps
  built from them then have it too. \<open>put_effect\<close> is for effects that writing to the host has as well.\<close>

locale crypto_effect = effect rel
  for rel :: "'o World \<Rightarrow> 'o World \<Rightarrow> bool" +
  fixes E :: CryptoEnv and W :: "'o Outside"
  assumes ask_meta_get: "has_effect rel (ask (o_meta_get W) (\<lambda>answer. [Ev_Got answer]))"
    and ask_kms: "has_effect rel (ask (o_kms W transport call) (\<lambda>answer. [Ev_Kms transport call answer]))"
    and ask_nsm: "has_effect rel (ask (o_nsm W request) (\<lambda>response. [Ev_Nsm request response]))"
    and ask_random: "has_effect rel (ask (o_random W PASSPHRASE_BYTES) (\<lambda>_. []))"
    and ask_rsa_keygen: "has_effect rel (ask (o_rsa_keygen W) (\<lambda>_. []))"
    and ask_write: "has_effect rel (ask (o_write W path) (\<lambda>_. []))"
    and ask_file_ok: "has_effect rel (ask (o_file_ok W path) (\<lambda>_. []))"
    and ask_dump: "has_effect rel (cryptsetup W LuksDump)"
    and ask_test: "has_effect rel (cryptsetup W (TestPassphrase slot key))"
    and set_key_file: "path \<in> {current_key_path E, new_key_path E, var_or E ''LUKS_KEY_FILE'' ''/tmp/luks.key''} \<Longrightarrow>
      has_effect rel (set_file path content)"
begin

lemma has_get_file: "has_effect rel (get_file path)"
  by (auto simp: has_effect_def get_file_def rel_refl)

lemmas has_steps = has_intros has_get_file ask_meta_get ask_kms ask_nsm ask_random ask_rsa_keygen
  ask_write ask_file_ok ask_dump ask_test

lemma has_meta_get: "has_effect rel (meta_get W)"
  unfolding meta_get_def by (auto intro!: has_steps)

lemma has_kms_call: "has_effect rel (kms_call E W call)"
  unfolding kms_call_def by (auto intro!: has_steps)

lemma has_attestation: "has_effect rel (request_attestation X W request)"
  unfolding request_attestation_def by (auto intro!: has_steps)

lemma has_kms:
  "has_effect rel (kms_get_public_key X E W key_id)" "has_effect rel (verify_key_policy_for X E W key_id expected)"
  "has_effect rel (verify_key_policy X E W key_id)" "has_effect rel (kms_decrypt X E W key_id ct)" "has_effect rel (kms_schedule_deletion E W key_id)"
  unfolding kms_get_public_key_def verify_key_policy_for_def verify_key_policy_def own_pcrs_def kms_decrypt_def
    kms_schedule_deletion_def
  by (auto intro!: has_steps has_kms_call has_attestation)

lemma has_write_key_file:
  "path \<in> {current_key_path E, new_key_path E, var_or E ''LUKS_KEY_FILE'' ''/tmp/luks.key''} \<Longrightarrow>
   has_effect rel (write_file W path content)"
  unfolding write_file_def by (auto intro!: has_steps set_key_file split: WriteFate.split)

lemma has_remove_key_file:
  "path \<in> {current_key_path E, new_key_path E, var_or E ''LUKS_KEY_FILE'' ''/tmp/luks.key''} \<Longrightarrow>
   has_effect rel (remove_file W path)"
  unfolding remove_file_def by (auto intro!: has_steps set_key_file split: option.split)

lemma has_read_stash: "has_effect rel (read_rollback_stash X E W)"
  unfolding read_rollback_stash_def read_to_string_def by (auto intro!: has_steps split: option.split)

lemma has_key_file: "has_effect rel (key_file path)"
  unfolding key_file_def by (auto intro!: has_steps)

lemma has_first_free: "has_effect rel (first_free_keyslot W)"
  unfolding first_free_keyslot_def by (auto intro!: has_steps split: CmdExit.split)

lemma has_test: "has_effect rel (run_command W (TestPassphrase slot key))"
  unfolding run_command_def by (auto intro!: has_steps split: CmdExit.split)

lemma has_checks:
  "has_effect rel (current_blob X W new_key_id)" "has_effect rel (check_new_key X E W key key_id expected)"
  "has_effect rel (current_passphrase X E W blob ct)" "has_effect rel (staged_passphrase X E W stash)"
  "has_effect rel (random_passphrase W)"
  unfolding current_blob_def check_new_key_def current_passphrase_def staged_passphrase_def random_passphrase_def
  by (auto intro!: has_steps has_meta_get has_kms)

end

locale put_effect = crypto_effect +
  assumes ask_meta_put: "has_effect rel (ask (o_meta_put W frame) (\<lambda>_. [Ev_Put data]))"
begin

lemma has_meta_put: "has_effect rel (meta_put W data)"
  unfolding meta_put_def by (auto intro!: has_intros ask_meta_put split: option.split list.split)

lemma has_delete_previous_key: "has_effect rel (delete_previous_key X E W blob)"
  unfolding delete_previous_key_def by (auto intro!: has_intros has_kms has_meta_put split: option.split sum.split)

end

subsection \<open>A passphrase is sealed only to a verified key\<close>

fun is_sealed :: "Event \<Rightarrow> bool" where
  "is_sealed (Ev_Sealed _ _) \<longleftrightarrow> True"
| "is_sealed _ \<longleftrightarrow> False"

definition logs_quietly :: "'o World \<Rightarrow> 'o World \<Rightarrow> bool" where
  "logs_quietly w w' \<longleftrightarrow> (\<exists>new. w_log w' = w_log w @ new \<and> list_all (\<lambda>e. \<not> is_sealed e) new)"

lemma logs_quietly_ask:
  "(\<And>a. list_all (\<lambda>e. \<not> is_sealed e) (events a)) \<Longrightarrow> ask call events w = (r, w') \<Longrightarrow> logs_quietly w w'"
  by (auto simp: ask_def logs_quietly_def split: prod.splits)

lemma logs_quietly_set_file: "set_file path content w = (r, w') \<Longrightarrow> logs_quietly w w'"
  by (auto simp: set_file_def logs_quietly_def)

interpretation log: effect logs_quietly
  by unfold_locales (auto simp: logs_quietly_def)

lemma quiet_ask: "(\<And>a. list_all (\<lambda>e. \<not> is_sealed e) (events a)) \<Longrightarrow> has_effect logs_quietly (ask call events)"
  by (rule log.hasI) (rule logs_quietly_ask)

lemma quiet_set_file: "has_effect logs_quietly (set_file path content)"
  by (rule log.hasI) (rule logs_quietly_set_file)

interpretation quiet: put_effect logs_quietly E W for E W
  by unfold_locales (auto simp: cryptsetup_def intro!: quiet_ask quiet_set_file)

lemma quiet_cryptsetup: "has_effect logs_quietly (cryptsetup W cmd)" "has_effect logs_quietly (run_command W cmd)"
  unfolding run_command_def cryptsetup_def by (auto intro!: log.has_intros quiet_ask split: CmdExit.split)

lemma quiet_files: "has_effect logs_quietly (write_file W path content)" "has_effect logs_quietly (remove_file W path)"
  unfolding write_file_def remove_file_def
  by (auto intro!: log.has_intros quiet_ask quiet_set_file quiet.has_get_file split: WriteFate.split option.split)

lemmas quiet_steps = log.has_intros quiet.has_checks quiet.has_kms quiet.has_meta_get quiet.has_meta_put
  quiet.has_delete_previous_key quiet.has_read_stash
  quiet.has_key_file quiet.has_first_free quiet_cryptsetup quiet_files

lemma quiet_stage: "has_effect logs_quietly (stage_upgrade X E W raw blob new_key_id current new new_ct)"
  unfolding stage_upgrade_def add_keyslot_def write_rollback_stash_def remove_rollback_stash_def
  by (auto intro!: quiet_steps)

lemma quiet_revoke: "has_effect logs_quietly (revoke_upgrade X E W)"
  unfolding revoke_upgrade_def kill_staged_slot_def remove_rollback_stash_def Let_def
  by (auto intro!: quiet_steps)

text \<open>What the log shows before a passphrase is sealed to \<open>der\<close>: KMS said that \<open>key_id\<close> was generated in
  KMS, showed a policy the check accepts for \<open>pcrs\<close>, and gave \<open>der\<close> as the key's public half.\<close>

definition verified_key ::
    "'x CryptoExt_scheme \<Rightarrow> CryptoEnv \<Rightarrow> string \<Rightarrow> Pcrs \<Rightarrow> bytes \<Rightarrow> Event list \<Rightarrow> bool" where
  "verified_key X E key_id pcrs der log \<longleftrightarrow>
     (\<exists>transport policy key_b64. kms_transport E = Inr transport \<and>
        Ev_Kms transport (DescribeKey key_id) (Some ''AWS_KMS'') \<in> set log \<and>
        Ev_Kms transport (GetKeyPolicy key_id) (Some policy) \<in> set log \<and>
        verify_decrypt_policy X (policy_from_str X) policy pcrs = Inr () \<and>
        Ev_Kms transport (GetPublicKey key_id) (Some key_b64) \<in> set log \<and>
        base64_decode X key_b64 = Some der)"

lemma log_grows: "has_effect logs_quietly m \<Longrightarrow> m w = (r, w') \<Longrightarrow> set (w_log w) \<subseteq> set (w_log w')"
  by (auto dest!: log.hasD simp: logs_quietly_def)

lemma kms_call_Inr:
  assumes "kms_call E W call w = (Inr s, w')"
  obtains transport where "kms_transport E = Inr transport" "Ev_Kms transport call (Some s) \<in> set (w_log w')"
  using assms by (auto simp: kms_call_def run_bind_Inr_iff ask_iff ok_or_Inr_iff intro: that)

lemma verify_key_policy_for_Inr:
  assumes "verify_key_policy_for X E W key_id expected w = (Inr u, w')"
  obtains transport policy where "kms_transport E = Inr transport"
    "Ev_Kms transport (DescribeKey key_id) (Some ''AWS_KMS'') \<in> set (w_log w')"
    "Ev_Kms transport (GetKeyPolicy key_id) (Some policy) \<in> set (w_log w')"
    "verify_decrypt_policy X (policy_from_str X) policy expected = Inr ()"
proof -
  obtain w1 policy where origin: "kms_call E W (DescribeKey key_id) w = (Inr ''AWS_KMS'', w1)"
      and policy: "kms_call E W (GetKeyPolicy key_id) w1 = (Inr policy, w')"
      and ok: "verify_decrypt_policy X (policy_from_str X) policy expected = Inr ()"
    using assms by (auto simp: verify_key_policy_for_def run_bind_Inr_iff map_err_Inr_iff split: if_splits)
  have "set (w_log w1) \<subseteq> set (w_log w')" by (rule log_grows [OF quiet.has_kms_call policy])
  moreover obtain t1 where "kms_transport E = Inr t1" "Ev_Kms t1 (DescribeKey key_id) (Some ''AWS_KMS'') \<in> set (w_log w1)"
    by (rule kms_call_Inr [OF origin])
  moreover obtain t2 where "kms_transport E = Inr t2" "Ev_Kms t2 (GetKeyPolicy key_id) (Some policy) \<in> set (w_log w')"
    by (rule kms_call_Inr [OF policy])
  ultimately show thesis using ok by (intro that [of t1 policy]) auto
qed

lemma kms_get_public_key_Inr:
  assumes "kms_get_public_key X E W key_id w = (Inr der, w')"
  obtains transport key_b64 where "kms_transport E = Inr transport"
    "Ev_Kms transport (GetPublicKey key_id) (Some key_b64) \<in> set (w_log w')" "base64_decode X key_b64 = Some der"
proof -
  obtain key_b64 where "kms_call E W (GetPublicKey key_id) w = (Inr key_b64, w')" "base64_decode X key_b64 = Some der"
    using assms by (auto simp: kms_get_public_key_def run_bind_Inr_iff ok_or_Inr_iff)
  then show thesis by (auto elim!: kms_call_Inr intro: that)
qed

lemma verified_keyI:
  assumes "verify_key_policy_for X E W key_id pcrs w0 = (Inr u, w1)" "set (w_log w1) \<subseteq> set (w_log w2)"
    "kms_get_public_key X E W key_id w2 = (Inr der, w3)"
  shows "verified_key X E key_id pcrs der (w_log w3)"
proof -
  have "set (w_log w2) \<subseteq> set (w_log w3)" by (rule log_grows [OF quiet.has_kms(1) assms(3)])
  moreover obtain t1 policy where "kms_transport E = Inr t1"
      "Ev_Kms t1 (DescribeKey key_id) (Some ''AWS_KMS'') \<in> set (w_log w1)"
      "Ev_Kms t1 (GetKeyPolicy key_id) (Some policy) \<in> set (w_log w1)"
      "verify_decrypt_policy X (policy_from_str X) policy pcrs = Inr ()"
    by (rule verify_key_policy_for_Inr [OF assms(1)])
  moreover obtain t2 key_b64 where "kms_transport E = Inr t2"
      "Ev_Kms t2 (GetPublicKey key_id) (Some key_b64) \<in> set (w_log w3)" "base64_decode X key_b64 = Some der"
    by (rule kms_get_public_key_Inr [OF assms(3)])
  ultimately show ?thesis
    using assms(2) unfolding verified_key_def by (intro exI [of _ t1] exI [of _ policy] exI [of _ key_b64]) auto
qed

lemma verified_key_mono: "verified_key X E key_id pcrs der log \<Longrightarrow> set log \<subseteq> set log' \<Longrightarrow> verified_key X E key_id pcrs der log'"
  unfolding verified_key_def by blast

text \<open>If a run is not quiet, its quiet steps went well and what follows them is not quiet.\<close>

lemma past_quiet:
  assumes "run_bind m f w = (r, w')" "has_effect logs_quietly m" "\<not> logs_quietly w w'"
  obtains x w1 where "m w = (Inr x, w1)" "f x w1 = (r, w')" "\<not> logs_quietly w1 w'" "logs_quietly w w1"
  using assms by (cases rule: run_bind_cases) (blast dest: log.hasD intro: log.rel_trans)+

lemma sealing_run:
  assumes "run_bind (rsa_oaep_encrypt W der p) f w = (r, w')" "\<And>x. has_effect logs_quietly (f x)"
  shows "\<exists>w1. w_log w1 = w_log w @ [Ev_Sealed der p] \<and> logs_quietly w1 w'"
proof -
  have sealed: "w_log w1 = w_log w @ [Ev_Sealed der p]" if "rsa_oaep_encrypt W der p w = (r1, w1)" for r1 w1
    using that by (auto simp: rsa_oaep_encrypt_def run_bind_iff ask_iff)
  from assms(1) show ?thesis
  proof (cases rule: run_bind_cases)
    case (failed e)
    then show ?thesis using sealed log.rel_refl by blast
  next
    case (went_on x w1)
    then show ?thesis using sealed log.hasD [OF assms(2)] by blast
  qed
qed

lemma unique_sealed:
  assumes "xs @ y # zs = before @ e # after" "list_all (\<lambda>e. \<not> is_sealed e) xs" "list_all (\<lambda>e. \<not> is_sealed e) zs"
    "is_sealed e"
  shows "before = xs \<and> y = e"
  using assms by (auto simp: append_eq_append_conv2 append_eq_Cons_conv Cons_eq_append_conv list_all_iff)

lemma sealed_position:
  assumes "w_log w = []" "logs_quietly w w1" "w_log w2 = w_log w1 @ [Ev_Sealed der p]" "logs_quietly w2 w'"
    "w_log w' = before @ Ev_Sealed der' p' # after"
  shows "before = w_log w1 \<and> der' = der \<and> p' = p"
proof -
  obtain quiet where "list_all (\<lambda>e. \<not> is_sealed e) (w_log w1)" "list_all (\<lambda>e. \<not> is_sealed e) quiet"
      "w_log w' = w_log w1 @ Ev_Sealed der p # quiet"
    using assms(1-4) by (auto simp: logs_quietly_def)
  then show ?thesis
    using assms(5) unique_sealed [of "w_log w1" "Ev_Sealed der p" quiet before "Ev_Sealed der' p'" after] by simp
qed

lemma check_new_key_verified:
  assumes "check_new_key X E W key key_id expected w = (Inr der, w')"
  shows "verified_key X E key_id expected der (w_log w')"
proof -
  obtain w1 where "verify_key_policy_for X E W key_id expected w = (Inr (), w1)"
      "kms_get_public_key X E W key_id w1 = (Inr der, w')"
    using assms by (auto simp: check_new_key_def run_bind_Inr_iff split: if_splits)
  then show ?thesis using verified_keyI [of X E W key_id expected w "()" w1 w1 der w'] by simp
qed

lemma rekey_sealed:
  assumes run: "rekey_volume X E W key key_id pcrs (raw, blob, ct) w = (r, w')" and loud: "\<not> logs_quietly w w'"
  shows "\<exists>w1 w2 der p. logs_quietly w w1 \<and> verified_key X E key_id pcrs der (w_log w1) \<and>
    w_log w2 = w_log w1 @ [Ev_Sealed der p] \<and> logs_quietly w2 w'"
proof -
  note r0 = run [unfolded rekey_volume_def prod.case]
  obtain der w1 where k: "check_new_key X E W key key_id pcrs w = (Inr der, w1)"
      and s1: "\<not> logs_quietly w1 w'" "logs_quietly w w1"
      and r1: "run_bind (current_passphrase X E W blob ct) (\<lambda>current.
            run_bind (random_passphrase W) (\<lambda>new.
            run_bind (rsa_oaep_encrypt W der new) (\<lambda>new_ct.
              stage_upgrade X E W raw blob key_id current new new_ct))) w1 = (r, w')"
    by (rule past_quiet [OF r0 quiet.has_checks(2) loud])
  obtain current w2 where s2: "\<not> logs_quietly w2 w'" "logs_quietly w1 w2"
      and r2: "run_bind (random_passphrase W) (\<lambda>new. run_bind (rsa_oaep_encrypt W der new) (\<lambda>new_ct.
              stage_upgrade X E W raw blob key_id current new new_ct)) w2 = (r, w')"
    by (rule past_quiet [OF r1 quiet.has_checks(3) s1(1)])
  obtain new w3 where s3: "logs_quietly w2 w3"
      and r3: "run_bind (rsa_oaep_encrypt W der new) (\<lambda>new_ct.
              stage_upgrade X E W raw blob key_id current new new_ct) w3 = (r, w')"
    by (rule past_quiet [OF r2 quiet.has_checks(5) s2(1)])
  obtain w4 where w4: "w_log w4 = w_log w3 @ [Ev_Sealed der new]" "logs_quietly w4 w'"
    using sealing_run [OF r3 quiet_stage] by blast
  have q13: "logs_quietly w1 w3" using s2(2) s3 by (rule log.rel_trans)
  then have "verified_key X E key_id pcrs der (w_log w3)"
    using verified_key_mono [OF check_new_key_verified [OF k]] by (auto simp: logs_quietly_def)
  moreover have "logs_quietly w w3" using s1(2) q13 by (rule log.rel_trans)
  ultimately show ?thesis using w4 by blast
qed

lemma prepare_sealed:
  assumes run: "prepare_upgrade X E W key key_id pcrs_hex w = (r, w')" and start: "w_log w = []"
    and sealed: "w_log w' = before @ Ev_Sealed der p # after"
  shows "\<exists>pcrs. expected_pcrs X pcrs_hex = Inr pcrs \<and> verified_key X E key_id pcrs der before"
proof -
  have loud: "\<not> logs_quietly w w'"
    using start sealed by (auto simp: logs_quietly_def)
  have "key_id \<noteq> []" using run loud log.rel_refl [of w] by (auto simp: prepare_upgrade_def)
  note r0 = run [unfolded prepare_upgrade_def if_not_P [OF this]]
  obtain pcrs w1 where s1: "run_of (expected_pcrs X pcrs_hex) w = (Inr pcrs, w1)" "\<not> logs_quietly w1 w'" "logs_quietly w w1"
      and r1: "run_bind (read_rollback_stash X E W) (\<lambda>stash.
          if stash \<noteq> None then run_fail Cr_StashExists
          else run_bind (current_blob X W key_id) (rekey_volume X E W key key_id pcrs)) w1 = (r, w')"
    by (rule past_quiet [OF r0 log.has_pure(3) loud])
  obtain stash w2 where "read_rollback_stash X E W w1 = (Inr stash, w2)"
      and s2: "\<not> logs_quietly w2 w'" "logs_quietly w1 w2"
      and r2: "(if stash \<noteq> None then run_fail Cr_StashExists
          else run_bind (current_blob X W key_id) (rekey_volume X E W key key_id pcrs)) w2 = (r, w')"
    by (rule past_quiet [OF r1 quiet.has_read_stash s1(2)])
  have r2': "run_bind (current_blob X W key_id) (rekey_volume X E W key key_id pcrs) w2 = (r, w')"
    using r2 s2(1) log.rel_refl [of w2] by (auto split: if_splits)
  obtain x w3 where s3: "\<not> logs_quietly w3 w'" "logs_quietly w2 w3" and r3: "rekey_volume X E W key key_id pcrs x w3 = (r, w')"
    by (rule past_quiet [OF r2' quiet.has_checks(1) s2(1)])
  obtain raw blob ct where x: "x = (raw, blob, ct)" by (cases x)
  obtain w4 w5 der' p' where v: "logs_quietly w3 w4" "verified_key X E key_id pcrs der' (w_log w4)"
      "w_log w5 = w_log w4 @ [Ev_Sealed der' p']" "logs_quietly w5 w'"
    using rekey_sealed [OF r3 [unfolded x] s3(1)] by blast
  have "logs_quietly w w4"
    using s1(3) s2(2) s3(2) v(1) by (blast intro: log.rel_trans)
  then show ?thesis
    using s1(1) v(2) sealed_position [OF start _ v(3,4) sealed] by auto
qed

text \<open>At boot the key is checked against the enclave's own measurements, as the NSM reports them.\<close>

definition own_measurements :: "'x CryptoExt_scheme \<Rightarrow> Pcrs \<Rightarrow> Event list \<Rightarrow> bool" where
  "own_measurements X pcrs log \<longleftrightarrow>
     (\<exists>response a. Ev_Nsm \<lparr> nsm_nonce = None, nsm_user_data = None, nsm_public_key = None \<rparr> response \<in> set log \<and>
        request_local X response = Inr a \<and> pcrs = va_pcrs a)"

lemma verify_key_policy_Inr:
  assumes "verify_key_policy X E W key_id w = (Inr u, w')"
  obtains pcrs w1 where "own_measurements X pcrs (w_log w')" "verify_key_policy_for X E W key_id pcrs w1 = (Inr u, w')"
proof -
  obtain pcrs w1 where own: "own_pcrs X W w = (Inr pcrs, w1)" and v: "verify_key_policy_for X E W key_id pcrs w1 = (Inr u, w')"
    using assms by (auto simp: verify_key_policy_def run_bind_Inr_iff)
  have "own_measurements X pcrs (w_log w1)"
    using own by (auto simp: own_pcrs_def request_attestation_def run_bind_Inr_iff ask_iff map_err_Inr_iff own_measurements_def)
  then have "own_measurements X pcrs (w_log w')"
    using log_grows [OF quiet.has_kms(2) v] unfolding own_measurements_def by blast
  then show thesis using v that by blast
qed

lemma loud_head:
  assumes "run_bind m f w = (r, w')" "\<And>x. has_effect logs_quietly (f x)"
  shows "\<exists>r1 w1. m w = (r1, w1) \<and> logs_quietly w1 w'"
  using assms(1) log.rel_refl [of w'] log.hasD [OF assms(2)] by (cases rule: run_bind_cases) blast+

lemma init_passphrase_sealed:
  assumes run: "init_passphrase X E W blob w = (r, w')" and loud: "\<not> logs_quietly w w'"
    and policy: "verify_key_policy_for X E W (kb_kms_key_id blob) pcrs w0 = (Inr (), w)"
  shows "\<exists>w1 w2 der p. logs_quietly w w1 \<and> verified_key X E (kb_kms_key_id blob) pcrs der (w_log w1) \<and>
    w_log w2 = w_log w1 @ [Ev_Sealed der p] \<and> logs_quietly w2 w'"
proof (cases "kb_ciphertext blob")
  case None
  note r0 = run [unfolded init_passphrase_def None option.case Let_def]
  obtain p w1 where "random_passphrase W w = (Inr p, w1)"
      and r1: "run_bind (kms_get_public_key X E W (kb_kms_key_id blob)) (\<lambda>der.
        run_bind (rsa_oaep_encrypt W der p) (\<lambda>ciphertext.
        run_bind (meta_put W (blob_to_vec X (blob\<lparr> kb_ciphertext := Some (base64_encode X ciphertext) \<rparr>)))
          (\<lambda>_. run_return (p, blob\<lparr> kb_ciphertext := Some (base64_encode X ciphertext) \<rparr>)))) w1 = (r, w')"
      and s1: "\<not> logs_quietly w1 w'" "logs_quietly w w1"
    by (rule past_quiet [OF r0 quiet.has_checks(5) loud])
  obtain der w2 where k: "kms_get_public_key X E W (kb_kms_key_id blob) w1 = (Inr der, w2)"
      and r2: "run_bind (rsa_oaep_encrypt W der p) (\<lambda>ciphertext.
        run_bind (meta_put W (blob_to_vec X (blob\<lparr> kb_ciphertext := Some (base64_encode X ciphertext) \<rparr>)))
          (\<lambda>_. run_return (p, blob\<lparr> kb_ciphertext := Some (base64_encode X ciphertext) \<rparr>))) w2 = (r, w')"
      and s2: "\<not> logs_quietly w2 w'" "logs_quietly w1 w2"
    by (rule past_quiet [OF r1 quiet.has_kms(1) s1(1)])
  obtain w3 where w3: "w_log w3 = w_log w2 @ [Ev_Sealed der p]" "logs_quietly w3 w'"
    using sealing_run [OF r2] quiet_steps by (metis (no_types, lifting))
  have "set (w_log w) \<subseteq> set (w_log w1)" using s1(2) by (auto simp: logs_quietly_def)
  then have "verified_key X E (kb_kms_key_id blob) pcrs der (w_log w2)"
    by (rule verified_keyI [OF policy _ k])
  moreover have "logs_quietly w w2" using s1(2) s2(2) by (rule log.rel_trans)
  ultimately show ?thesis using w3 by blast
next
  case (Some ct)
  have "has_effect logs_quietly (init_passphrase X E W blob)"
    unfolding init_passphrase_def Some by (auto intro!: quiet_steps)
  then show ?thesis using run loud log.hasD by blast
qed

lemma init_sealed:
  assumes run: "crypto_init X E W w = (r, w')" and start: "w_log w = []"
    and sealed: "w_log w' = before @ Ev_Sealed der p # after"
  shows "\<exists>key_id pcrs. own_measurements X pcrs before \<and> verified_key X E key_id pcrs der before"
proof -
  have loud: "\<not> logs_quietly w w'"
    using start sealed by (auto simp: logs_quietly_def)
  let ?rest = "\<lambda>(passphrase, blob).
     run_bind (write_file W (var_or E ''LUKS_KEY_FILE'' ''/tmp/luks.key'') passphrase) (\<lambda>_.
       delete_previous_key X E W blob)"
  have rest: "has_effect logs_quietly (?rest x)" for x
    by (cases x) (auto intro!: quiet_steps)
  obtain raw w1 where "meta_get W w = (Inr raw, w1)"
      and r1: "run_bind (run_of (read_blob X raw)) (\<lambda>blob.
        run_bind (verify_key_policy X E W (kb_kms_key_id blob)) (\<lambda>_.
        run_bind (init_passphrase X E W blob) ?rest)) w1 = (r, w')"
      and s1: "\<not> logs_quietly w1 w'" "logs_quietly w w1"
    by (rule past_quiet [OF run [unfolded crypto_init_def] quiet.has_meta_get loud])
  obtain blob w2 where "run_of (read_blob X raw) w1 = (Inr blob, w2)"
      and r2: "run_bind (verify_key_policy X E W (kb_kms_key_id blob)) (\<lambda>_.
        run_bind (init_passphrase X E W blob) ?rest) w2 = (r, w')"
      and s2: "\<not> logs_quietly w2 w'" "logs_quietly w1 w2"
    by (rule past_quiet [OF r1 log.has_pure(3) s1(1)])
  obtain u w3 where v: "verify_key_policy X E W (kb_kms_key_id blob) w2 = (Inr u, w3)"
      and r3: "run_bind (init_passphrase X E W blob) ?rest w3 = (r, w')"
      and s3: "\<not> logs_quietly w3 w'" "logs_quietly w2 w3"
    by (rule past_quiet [OF r2 quiet.has_kms(3) s2(1)])
  obtain pcrs w0 where own: "own_measurements X pcrs (w_log w3)"
      and policy: "verify_key_policy_for X E W (kb_kms_key_id blob) pcrs w0 = (Inr (), w3)"
    using verify_key_policy_Inr [OF v] by auto
  obtain r4 w4 where r4: "init_passphrase X E W blob w3 = (r4, w4)" "logs_quietly w4 w'"
    using loud_head [OF r3 rest] by blast
  then have "\<not> logs_quietly w3 w4" using s3(1) by (blast intro: log.rel_trans)
  from init_passphrase_sealed [OF r4(1) this policy] obtain w5 w6 der' p' where i: "logs_quietly w3 w5"
      "verified_key X E (kb_kms_key_id blob) pcrs der' (w_log w5)"
      "w_log w6 = w_log w5 @ [Ev_Sealed der' p']" "logs_quietly w6 w4"
    by blast
  have "logs_quietly w w5" "logs_quietly w6 w'"
    using s1(2) s2(2) s3(2) i(1,4) r4(2) by (blast intro: log.rel_trans)+
  then have "before = w_log w5" "der = der'"
    using sealed_position [OF start _ i(3) _ sealed] by auto
  moreover have "own_measurements X pcrs (w_log w5)"
    using own i(1) unfolding own_measurements_def logs_quietly_def by auto
  ultimately show ?thesis using i(2) by blast
qed

lemma mock_only_on_qemu: "kms_transport E = Inr Kms_Mock \<Longrightarrow> init_recorded_host_cid E = Some 2"
  by (auto simp: kms_transport_def select_transport_def and_then_Inr_iff ok_or_Inr_iff
      split: option.splits if_splits TransportSelection.splits)

text \<open>C9. A passphrase is sealed only to a verified key. Whatever the storage host, KMS and the rest of the
  outside answer, and however the run ends: before a passphrase is encrypted to a public key, KMS has
  named that key's origin as KMS itself, has shown a policy that the policy check accepts, and has given
  this very public key. At boot the policy is checked for the enclave's own measurements, in an upgrade for
  those of the version upgraded to; a rollback seals nothing. KMS is reached over TLS unless the boot
  recorded that the enclave runs under QEMU.\<close>

theorem passphrase_sealed_only_to_verified_key:
  assumes "crypto_main X E W command w = (r, w')" "w_log w = []"
    and "w_log w' = before @ Ev_Sealed der p # after"
  shows "\<exists>key_id pcrs. verified_key X E key_id pcrs der before \<and>
    (case command of
       Init \<Rightarrow> own_measurements X pcrs before
     | PrepareUpgrade key new_key_id pcrs_hex \<Rightarrow> key_id = new_key_id \<and> expected_pcrs X pcrs_hex = Inr pcrs
     | RevokeUpgrade \<Rightarrow> False) \<and>
    (init_recorded_host_cid E \<noteq> Some 2 \<longrightarrow> kms_transport E \<noteq> Inr Kms_Mock)"
proof (cases command)
  case Init
  then show ?thesis
    using init_sealed [OF _ assms(2,3)] assms(1) mock_only_on_qemu by fastforce
next
  case (PrepareUpgrade key new_key_id pcrs_hex)
  then show ?thesis
    using prepare_sealed [OF _ assms(2,3)] assms(1) mock_only_on_qemu by fastforce
next
  case RevokeUpgrade
  then have "logs_quietly w w'"
    using assms(1) log.hasD [OF quiet_revoke] by simp
  then show ?thesis
    using assms(2,3) by (auto simp: logs_quietly_def)
qed

end
