(* ===== verification/Luks_Rollback.thy ===== *)
theory Luks_Rollback
  imports Luks_Keys
begin

text \<open>
  What re-keying and rolling back do to the volume, given how \<open>cryptsetup\<close> treats keyslots: no run can
  lock the running version out, a completed rollback undoes a completed preparation, and a rollback that
  fails half way cannot be completed.
\<close>

subsection \<open>The keyslots\<close>

text \<open>The documented behaviour of the commands. \<open>slots\<close> is the passphrase in each occupied keyslot. A dump lists the
  occupied slots, in the form the code reads; a key is added to the named slot only if it is free; a test succeeds only if
  the key is in the slot, or in any, and may fail for other reasons too; only an occupied slot is killed, whatever key
  authorizes it. A command that fails leaves the slots alone, and so does everything else.\<close>

definition command_laws :: "'o Outside \<Rightarrow> ('o \<Rightarrow> u32 \<rightharpoonup> bytes) \<Rightarrow> bool" where
  "command_laws W slots \<longleftrightarrow> (\<forall>out.
     (case o_cryptsetup W LuksDump out of (e, out') \<Rightarrow> slots out' = slots out \<and>
        (\<forall>text. e = Exited True text \<longrightarrow> map_option set (parse_occupied_keyslots text) = Some (dom (slots out)))) \<and>
     (\<forall>slot cur new. case o_cryptsetup W (LuksAddKey slot cur new) out of (e, out') \<Rightarrow>
        (case e of Exited True _ \<Rightarrow> slots out slot = None \<and> slots out' = (slots out)(slot \<mapsto> new)
         | _ \<Rightarrow> slots out' = slots out)) \<and>
     (\<forall>at key. case o_cryptsetup W (TestPassphrase at key) out of (e, out') \<Rightarrow> slots out' = slots out \<and>
        (case e of
           Spawn_Failed \<Rightarrow> True
         | Exited opens _ \<Rightarrow>
             opens \<longrightarrow> (case at of Some slot \<Rightarrow> slots out slot = Some key | None \<Rightarrow> key \<in> ran (slots out)))) \<and>
     (\<forall>key slot. case o_cryptsetup W (LuksKillSlot key slot) out of (e, out') \<Rightarrow>
        (case e of
           Exited True _ \<Rightarrow> slots out slot \<noteq> None \<and> slots out' = (slots out)(slot := None)
         | _ \<Rightarrow> slots out' = slots out)))"

definition keyslot_laws :: "'o Outside \<Rightarrow> ('o \<Rightarrow> u32 \<rightharpoonup> bytes) \<Rightarrow> bool" where
  "keyslot_laws W slots \<longleftrightarrow> command_laws W slots \<and> (\<forall>out.
     slots (snd (o_meta_get W out)) = slots out \<and> (\<forall>frame. slots (snd (o_meta_put W frame out)) = slots out) \<and>
     (\<forall>transport call. slots (snd (o_kms W transport call out)) = slots out) \<and>
     (\<forall>request. slots (snd (o_nsm W request out)) = slots out) \<and> slots (snd (o_random W PASSPHRASE_BYTES out)) = slots out \<and>
     slots (snd (o_rsa_keygen W out)) = slots out \<and>
     (\<forall>key text. slots (snd (o_oaep_encrypt W key text out)) = slots out) \<and>
     (\<forall>path. slots (snd (o_write W path out)) = slots out) \<and>
     (\<forall>path. slots (snd (o_file_ok W path out)) = slots out))"

definition paths_distinct :: "CryptoEnv \<Rightarrow> bool" where
  "paths_distinct E \<longleftrightarrow> current_key_path E \<noteq> new_key_path E \<and>
     rollback_stash_path E \<notin> {current_key_path E, new_key_path E, var_or E ''LUKS_KEY_FILE'' ''/tmp/luks.key''}"

text \<open>A stash that was written in part does not decode.\<close>

definition stash_codec :: "'x CryptoExt_scheme \<Rightarrow> bool" where
  "stash_codec X \<longleftrightarrow>
     (\<forall>stash. stash_from_str X (stash_to_string X stash) = Some stash) \<and>
     (\<forall>stash stash' n. stash_from_str X (take n (stash_to_string X stash)) = Some stash' \<longrightarrow> stash' = stash)"

definition stash_of :: "'x CryptoExt_scheme \<Rightarrow> CryptoEnv \<Rightarrow> 'o World \<Rightarrow> UpgradeRollbackStash option" where
  "stash_of X E w = Option.bind (w_files w (rollback_stash_path E)) (stash_from_str X)"

text \<open>The running passphrase is in keyslot \<open>s\<close>, and the stash does not name that slot.\<close>

definition volume_ok ::
    "'x CryptoExt_scheme \<Rightarrow> CryptoEnv \<Rightarrow> 'o Outside \<Rightarrow> ('o \<Rightarrow> u32 \<rightharpoonup> bytes) \<Rightarrow> u32 \<Rightarrow> bytes \<Rightarrow> 'o World \<Rightarrow> bool" where
  "volume_ok X E W slots s running w \<longleftrightarrow>
     keyslot_laws W slots \<and> paths_distinct E \<and> stash_codec X \<and> slots (w_out w) s = Some running \<and>
     (case stash_of X E w of None \<Rightarrow> True | Some stash \<Rightarrow> us_new_keyslot stash \<noteq> s)"

lemma first_free_loop_free: "first_free_loop fuel occupied n = Some m \<Longrightarrow> m \<notin> set occupied"
  by (induction fuel arbitrary: n) (auto split: if_splits)

lemma first_free_loop_None: "first_free_loop fuel occupied n = None \<Longrightarrow> \<forall>k < fuel. n + of_nat k \<in> set occupied"
proof (induction fuel arbitrary: n)
  case (Suc fuel)
  then have n: "n \<in> set occupied" "first_free_loop fuel occupied (n + 1) = None"
    by (auto split: if_splits)
  show ?case
  proof (intro allI impI)
    fix k assume "k < Suc fuel"
    then show "n + of_nat k \<in> set occupied"
      using n(1) Suc.IH [OF n(2)] by (cases k) (auto simp: algebra_simps)
  qed
qed simp

text \<open>The search for a free keyslot ends.\<close>

lemma first_free_total:
  assumes "length occupied < 2 ^ 32"
  shows "\<exists>m. first_free_from_occupied occupied = Some m"
proof (rule ccontr)
  assume "\<not> ?thesis"
  then have all: "\<forall>k < Suc (length occupied). (of_nat k :: u32) \<in> set occupied"
    using first_free_loop_None [of "Suc (length occupied)" occupied 0] by (simp add: first_free_from_occupied_def)
  have inj: "inj_on (of_nat :: nat \<Rightarrow> u32) {..length occupied}"
  proof (rule inj_onI)
    fix x y assume "x \<in> {..length occupied}" "y \<in> {..length occupied}" "(of_nat x :: u32) = of_nat y"
    moreover from this have "unat (of_nat x :: u32) = unat (of_nat y :: u32)" by argo
    ultimately show "x = y" using assms unfolding unat_of_nat by simp
  qed
  have "(of_nat :: nat \<Rightarrow> u32) ` {..length occupied} \<subseteq> set occupied"
    using all by auto
  then have "card ((of_nat :: nat \<Rightarrow> u32) ` {..length occupied}) \<le> card (set occupied)"
    by (simp add: card_mono)
  then show False
    using card_length [of occupied] by (simp add: card_image [OF inj])
qed

subsection \<open>The running passphrase keeps its slot\<close>

definition volume_kept ::
    "'x CryptoExt_scheme \<Rightarrow> CryptoEnv \<Rightarrow> 'o Outside \<Rightarrow> ('o \<Rightarrow> u32 \<rightharpoonup> bytes) \<Rightarrow> u32 \<Rightarrow> bytes \<Rightarrow>
     'o World \<Rightarrow> 'o World \<Rightarrow> bool" where
  "volume_kept X E W slots s running w w' \<longleftrightarrow>
     (volume_ok X E W slots s running w \<longrightarrow> volume_ok X E W slots s running w')"

interpretation vol: effect "volume_kept X E W slots s running" for X E W slots s running
  by unfold_locales (auto simp: volume_kept_def)

lemma kept_ask:
  assumes "\<And>out. keyslot_laws W slots \<Longrightarrow> slots (snd (call out)) s = slots out s"
  shows "has_effect (volume_kept X E W slots s running) (ask call events)"
  using assms by (auto simp: has_effect_def ask_iff volume_kept_def volume_ok_def stash_of_def)

lemma kept_set_file:
  "(paths_distinct E \<Longrightarrow> path \<noteq> rollback_stash_path E) \<Longrightarrow> has_effect (volume_kept X E W slots s running) (set_file path content)"
  by (auto simp: has_effect_def set_file_def volume_kept_def volume_ok_def stash_of_def)

lemma keyslot_laws_command:
  assumes "keyslot_laws W slots"
  shows "slots (snd (o_cryptsetup W LuksDump out)) = slots out"
    "slots (snd (o_cryptsetup W (TestPassphrase at key) out)) = slots out"
    "slot \<noteq> s \<Longrightarrow> slots (snd (o_cryptsetup W (LuksAddKey slot cur new) out)) s = slots out s"
    "slot \<noteq> s \<Longrightarrow> slots (snd (o_cryptsetup W (LuksKillSlot key slot) out)) s = slots out s"
proof -
  have laws: "command_laws W slots" using assms by (simp add: keyslot_laws_def)
  show "slots (snd (o_cryptsetup W LuksDump out)) = slots out"
    "slots (snd (o_cryptsetup W (TestPassphrase at key) out)) = slots out"
    using laws unfolding command_laws_def by (auto simp: case_prod_beta)
  show "slots (snd (o_cryptsetup W (LuksAddKey slot cur new) out)) s = slots out s" if "slot \<noteq> s"
  proof -
    have "case fst (o_cryptsetup W (LuksAddKey slot cur new) out) of
        Exited True _ \<Rightarrow> slots out slot = None \<and> slots (snd (o_cryptsetup W (LuksAddKey slot cur new) out)) = (slots out)(slot \<mapsto> new)
      | _ \<Rightarrow> slots (snd (o_cryptsetup W (LuksAddKey slot cur new) out)) = slots out"
      using laws unfolding command_laws_def by (simp add: case_prod_beta)
    then show ?thesis using that by (auto split: CmdExit.splits bool.splits)
  qed
  show "slots (snd (o_cryptsetup W (LuksKillSlot key slot) out)) s = slots out s" if "slot \<noteq> s"
  proof -
    have "case fst (o_cryptsetup W (LuksKillSlot key slot) out) of
        Exited True _ \<Rightarrow> slots out slot \<noteq> None \<and>
          slots (snd (o_cryptsetup W (LuksKillSlot key slot) out)) = (slots out)(slot := None)
      | _ \<Rightarrow> slots (snd (o_cryptsetup W (LuksKillSlot key slot) out)) = slots out"
      using laws unfolding command_laws_def by (simp add: case_prod_beta)
    then show ?thesis using that by (auto split: CmdExit.splits bool.splits)
  qed
qed

interpretation kept: put_effect "volume_kept X E W slots s running" E W for X E W slots s running
  by unfold_locales
    (auto simp: cryptsetup_def keyslot_laws_command paths_distinct_def keyslot_laws_def
      intro!: kept_ask kept_set_file)

lemma first_free_slot:
  assumes "first_free_keyslot W w = (Inr slot, w')" "keyslot_laws W slots"
  shows "slots (w_out w) slot = None" "slots (w_out w') = slots (w_out w)" "w_files w' = w_files w"
proof -
  obtain dumped occupied where dump: "fst (o_cryptsetup W LuksDump (w_out w)) = Exited True dumped"
      and parsed: "parse_occupied_keyslots dumped = Some occupied" "first_free_from_occupied occupied = Some slot"
      and w': "w_out w' = snd (o_cryptsetup W LuksDump (w_out w))" "w_files w' = w_files w"
    using assms(1) by (auto simp: first_free_keyslot_def cryptsetup_def run_bind_Inr_iff ask_iff and_then_Inr_iff
        ok_or_Inr_iff split: CmdExit.splits if_splits)
  have "map_option set (parse_occupied_keyslots dumped) = Some (dom (slots (w_out w)))"
    using assms(2) dump by (simp add: keyslot_laws_def command_laws_def case_prod_beta)
  moreover have "slot \<notin> set occupied"
    using parsed(2) unfolding first_free_from_occupied_def by (rule first_free_loop_free)
  ultimately show "slots (w_out w) slot = None" using parsed(1) by auto
  show "slots (w_out w') = slots (w_out w)" "w_files w' = w_files w"
    using keyslot_laws_command(1) [OF assms(2)] w' by simp_all
qed

lemma kept_command:
  "slot \<noteq> s \<Longrightarrow> has_effect (volume_kept X E W slots s running) (cryptsetup W (LuksAddKey slot cur new))"
  "slot \<noteq> s \<Longrightarrow> has_effect (volume_kept X E W slots s running) (cryptsetup W (LuksKillSlot key slot))"
  unfolding cryptsetup_def by (rule kept_ask, simp add: keyslot_laws_command)+

lemma kept_run_command:
  "has_effect (volume_kept X E W slots s running) (cryptsetup W cmd) \<Longrightarrow>
   has_effect (volume_kept X E W slots s running) (run_command W cmd)"
  unfolding run_command_def by (auto intro!: vol.has_intros split: CmdExit.split)

lemma kept_write_stash:
  assumes "us_new_keyslot stash \<noteq> s"
  shows "has_effect (volume_kept X E W slots s running) (write_rollback_stash X E W stash)"
proof -
  have "has_effect (volume_kept X E W slots s running)
      (set_file (rollback_stash_path E) (Some (take n (stash_to_string X stash))))" for n
    using assms by (auto simp: has_effect_def set_file_def volume_kept_def volume_ok_def stash_of_def stash_codec_def
        split: option.splits)
  from this [of "length (stash_to_string X stash)"] this show ?thesis
    unfolding write_rollback_stash_def write_file_def
    by (auto intro!: vol.has_intros kept.ask_write split: WriteFate.split)
qed

lemma kept_remove_stash: "has_effect (volume_kept X E W slots s running) (remove_rollback_stash E W)"
proof -
  have "has_effect (volume_kept X E W slots s running) (set_file (rollback_stash_path E) None)"
    by (auto simp: has_effect_def set_file_def volume_kept_def volume_ok_def stash_of_def)
  then show ?thesis
    unfolding remove_rollback_stash_def remove_file_def
    by (auto intro!: vol.has_intros kept.ask_file_ok kept.has_get_file split: option.split)
qed

lemmas kept_steps = vol.has_intros kept.has_checks kept.has_kms kept.has_meta_get kept.has_meta_put
  kept.has_delete_previous_key kept.has_read_stash kept.has_key_file
  kept.has_test kept.has_write_key_file kept.has_remove_key_file kept_run_command kept_command kept_write_stash
  kept_remove_stash

lemma kept_add_keyslot: "has_effect (volume_kept X E W slots s running) (add_keyslot X E W raw cur new)"
  unfolding add_keyslot_def
proof (rule vol.has_bind_state)
  show "has_effect (volume_kept X E W slots s running) (first_free_keyslot W)"
    by (rule kept.has_first_free)
next
  fix w slot w' r w''
  assume free: "first_free_keyslot W w = (Inr slot, w')" and kept: "volume_kept X E W slots s running w w'"
    and rest: "run_bind (write_rollback_stash X E W
         \<lparr> us_pre_prepare_blob = from_utf8_lossy raw, us_new_keyslot = slot \<rparr>) (\<lambda>_.
     run_bind (run_command W (LuksAddKey slot cur new)) (\<lambda>added.
       if \<not> added then
         run_bind (run_attempt (remove_rollback_stash E W)) (\<lambda>_. run_fail Cr_AddKey)
       else
         run_bind (run_command W (TestPassphrase (Some slot) new)) (\<lambda>opens.
           if \<not> opens then
             run_bind (run_attempt (cryptsetup W (LuksKillSlot cur slot))) (\<lambda>_.
             run_bind (run_attempt (remove_rollback_stash E W)) (\<lambda>_.
               run_fail (Cr_SlotVerification slot)))
           else run_return ()))) w' = (r, w'')" (is "?rest w' = _")
  show "volume_kept X E W slots s running w w''"
    unfolding volume_kept_def
  proof
    assume ok: "volume_ok X E W slots s running w"
    then have "slot \<noteq> s"
      using first_free_slot(1) [OF free, of slots] by (auto simp: volume_ok_def)
    then have "has_effect (volume_kept X E W slots s running) ?rest"
      by (auto intro!: kept_steps)
    then show "volume_ok X E W slots s running w''"
      using vol.hasD rest kept ok unfolding volume_kept_def by blast
  qed
qed

lemma kept_prepare: "has_effect (volume_kept X E W slots s running) (prepare_upgrade X E W key key_id pcrs_hex)"
proof -
  have seal: "has_effect (volume_kept X E W slots s running) (rsa_oaep_encrypt W der p)" for der p
    unfolding rsa_oaep_encrypt_def by (auto intro!: kept_steps kept_ask simp: keyslot_laws_def)
  show ?thesis
    unfolding prepare_upgrade_def rekey_volume_def stage_upgrade_def
    by (auto intro!: kept_steps kept_add_keyslot seal)
qed

lemma kept_kill:
  "us_new_keyslot stash \<noteq> s \<Longrightarrow> has_effect (volume_kept X E W slots s running) (kill_staged_slot X E W stash key)"
  unfolding kill_staged_slot_def Let_def by (auto intro!: kept_steps)

lemma read_stash_Inr:
  assumes "read_rollback_stash X E W w = (Inr (Some stash), w')"
  shows "stash_of X E w = Some stash" "stash_of X E w' = Some stash"
  using assms by (auto simp: read_rollback_stash_def read_to_string_def get_file_def run_bind_Inr_iff ask_iff
      and_then_Inr_iff ok_or_Inr_iff stash_of_def split: option.splits if_splits)

lemma kept_revoke: "has_effect (volume_kept X E W slots s running) (revoke_upgrade X E W)"
  unfolding revoke_upgrade_def
proof (rule vol.has_bind_state)
  show "has_effect (volume_kept X E W slots s running) (read_rollback_stash X E W)"
    by (rule kept.has_read_stash)
next
  fix w found w' r w''
  assume read: "read_rollback_stash X E W w = (Inr found, w')" and kept: "volume_kept X E W slots s running w w'"
    and rest: "run_bind (run_of (ok_or Cr_NoStash found)) (\<lambda>stash.
     run_bind (staged_passphrase X E W stash) (\<lambda>passphrase.
     run_bind (write_file W (current_key_path E) passphrase) (\<lambda>_.
       run_then (run_bind (key_file (current_key_path E)) (kill_staged_slot X E W stash))
         (remove_file W (current_key_path E))))) w' = (r, w'')" (is "?rest w' = _")
  show "volume_kept X E W slots s running w w''"
    unfolding volume_kept_def
  proof
    assume ok: "volume_ok X E W slots s running w"
    have other: "us_new_keyslot stash \<noteq> s" if "found = Some stash" for stash
      using read_stash_Inr(1) [OF read [unfolded that]] ok by (simp add: volume_ok_def)
    have "has_effect (volume_kept X E W slots s running) ?rest"
    proof (rule vol.has_bind_post [where Q = "\<lambda>stash. us_new_keyslot stash \<noteq> s"])
      show "has_effect (volume_kept X E W slots s running) (run_of (ok_or Cr_NoStash found))"
        by (rule vol.has_pure)
    qed (auto intro!: kept_steps kept_kill simp: ok_or_Inr_iff other)
    then show "volume_ok X E W slots s running w''"
      using vol.hasD rest kept ok unfolding volume_kept_def by blast
  qed
qed

lemma kept_init: "has_effect (volume_kept X E W slots s running) (crypto_init X E W)"
proof -
  have seal: "has_effect (volume_kept X E W slots s running) (rsa_oaep_encrypt W der p)" for der p
    unfolding rsa_oaep_encrypt_def by (auto intro!: kept_steps kept_ask simp: keyslot_laws_def)
  show ?thesis
    unfolding crypto_init_def init_passphrase_def Let_def
    by (auto intro!: kept_steps seal split: option.split)
qed

lemma kept_main: "has_effect (volume_kept X E W slots s running) (crypto_main X E W command)"
  by (cases command) (auto intro: kept_init kept_prepare kept_revoke)

definition crypto_step :: "'x CryptoExt_scheme \<Rightarrow> CryptoEnv \<Rightarrow> 'o Outside \<Rightarrow> Command \<Rightarrow> 'o World \<Rightarrow> 'o World" where
  "crypto_step X E W command w = snd (crypto_main X E W command w)"

interpretation luks: invariant_steps "crypto_step X E W" "volume_ok X E W slots s running" for X E W slots s running
proof
  fix command w
  assume "volume_ok X E W slots s running w"
  then show "volume_ok X E W slots s running (crypto_step X E W command w)"
    using vol.hasD [OF kept_main, of X E W command w] unfolding crypto_step_def volume_kept_def
    by (metis prod.collapse)
qed

text \<open>C11. Re-keying never locks the running version out. Let the running passphrase be in a keyslot that the
  rollback stash, if there is one, does not name. Then after any sequence of boots, preparations and
  rollbacks, however each of them ends, the passphrase is still in that slot and the stash still names another.\<close>

theorem running_passphrase_keeps_its_slot:
  assumes "volume_ok X E W slots s running w"
  shows "slots (w_out (fold (crypto_step X E W) commands w)) s = Some running \<and>
    (case stash_of X E (fold (crypto_step X E W) commands w) of
       None \<Rightarrow> True | Some stash \<Rightarrow> us_new_keyslot stash \<noteq> s)"
  using luks.run_inv [OF assms] by (simp add: volume_ok_def)

subsection \<open>Steps that leave the volume alone\<close>

definition volume_idle ::
    "CryptoEnv \<Rightarrow> 'o Outside \<Rightarrow> ('o \<Rightarrow> u32 \<rightharpoonup> bytes) \<Rightarrow> 'o World \<Rightarrow> 'o World \<Rightarrow> bool" where
  "volume_idle E W slots w w' \<longleftrightarrow> (keyslot_laws W slots \<and> paths_distinct E \<longrightarrow>
     slots (w_out w') = slots (w_out w) \<and>
     w_files w' (rollback_stash_path E) = w_files w (rollback_stash_path E))"

interpretation still: effect "volume_idle E W slots" for E W slots
  by unfold_locales (auto simp: volume_idle_def)

lemma idle_ask:
  "(\<And>out. keyslot_laws W slots \<Longrightarrow> slots (snd (call out)) = slots out) \<Longrightarrow>
   has_effect (volume_idle E W slots) (ask call events)"
  by (auto simp: has_effect_def ask_iff volume_idle_def)

lemma idle_set_file:
  "(paths_distinct E \<Longrightarrow> path \<noteq> rollback_stash_path E) \<Longrightarrow> has_effect (volume_idle E W slots) (set_file path content)"
  by (auto simp: has_effect_def set_file_def volume_idle_def)

interpretation idle: put_effect "volume_idle E W slots" E W for E W slots
  by unfold_locales
    (auto simp: cryptsetup_def keyslot_laws_command paths_distinct_def keyslot_laws_def intro!: idle_ask idle_set_file)

lemma idle_seal: "has_effect (volume_idle E W slots) (rsa_oaep_encrypt W der p)"
  unfolding rsa_oaep_encrypt_def by (auto intro!: still.has_intros idle_ask simp: keyslot_laws_def)

lemma idle_eqs:
  assumes "has_effect (volume_idle E W slots) m" "m w = (r, w')" "keyslot_laws W slots" "paths_distinct E"
  shows "slots (w_out w') = slots (w_out w)" "stash_of X E w' = stash_of X E w"
    "w_files w' (rollback_stash_path E) = w_files w (rollback_stash_path E)"
  using still.hasD [OF assms(1,2)] assms(3,4) by (simp_all add: volume_idle_def stash_of_def)

fun is_put :: "Event \<Rightarrow> bool" where
  "is_put (Ev_Put _) \<longleftrightarrow> True"
| "is_put _ \<longleftrightarrow> False"

definition puts_nothing :: "'o World \<Rightarrow> 'o World \<Rightarrow> bool" where
  "puts_nothing w w' \<longleftrightarrow> filter is_put (w_log w') = filter is_put (w_log w)"

interpretation host: effect puts_nothing
  by unfold_locales (auto simp: puts_nothing_def)

interpretation unput: crypto_effect puts_nothing E W for E W
  by unfold_locales (auto simp: cryptsetup_def has_effect_def ask_iff set_file_def puts_nothing_def)

lemma unput_command: "has_effect puts_nothing (run_command W cmd)"
  unfolding run_command_def cryptsetup_def
  by (auto simp: has_effect_def ask_iff puts_nothing_def run_bind_iff split: CmdExit.splits)

subsection \<open>A rollback that stops half way\<close>

lemma command_outcome:
  assumes "run_command W cmd w = (r, w')"
  obtains "r = Inl Cr_Spawn" "fst (o_cryptsetup W cmd (w_out w)) = Spawn_Failed"
      "w_out w' = snd (o_cryptsetup W cmd (w_out w))" "w_files w' = w_files w"
  | b dumped where "r = Inr b" "fst (o_cryptsetup W cmd (w_out w)) = Exited b dumped"
      "w_out w' = snd (o_cryptsetup W cmd (w_out w))" "w_files w' = w_files w"
proof (cases "fst (o_cryptsetup W cmd (w_out w))")
  case Spawn_Failed
  then show thesis
    using assms by (intro that(1)) (auto simp: run_command_def cryptsetup_def run_bind_iff ask_iff)
next
  case (Exited b dumped)
  then show thesis
    using assms by (intro that(2) [of b dumped]) (auto simp: run_command_def cryptsetup_def run_bind_iff ask_iff)
qed

lemma test_succeeds:
  assumes "run_command W (TestPassphrase at key) w = (Inr True, w')" "keyslot_laws W slots"
  shows "case at of Some slot \<Rightarrow> slots (w_out w) slot = Some key | None \<Rightarrow> key \<in> ran (slots (w_out w))"
proof -
  have "case fst (o_cryptsetup W (TestPassphrase at key) (w_out w)) of
      Spawn_Failed \<Rightarrow> True
    | Exited opens _ \<Rightarrow> opens \<longrightarrow> (case at of Some slot \<Rightarrow> slots (w_out w) slot = Some key | None \<Rightarrow> key \<in> ran (slots (w_out w)))"
    using assms(2) unfolding keyslot_laws_def command_laws_def by (simp add: case_prod_beta)
  then show ?thesis using assms(1) by (auto elim!: command_outcome)
qed

lemma kill_outcome:
  assumes "run_command W (LuksKillSlot key slot) w = (r, w')" "keyslot_laws W slots"
  shows "r = Inr True \<and> slots (w_out w) slot \<noteq> None \<and>
      slots (w_out w') = (slots (w_out w))(slot := None) \<and> w_files w' = w_files w \<or>
    r \<noteq> Inr True \<and> slots (w_out w') = slots (w_out w) \<and> w_files w' = w_files w"
proof -
  have "case fst (o_cryptsetup W (LuksKillSlot key slot) (w_out w)) of
      Exited True _ \<Rightarrow> slots (w_out w) slot \<noteq> None \<and>
        slots (snd (o_cryptsetup W (LuksKillSlot key slot) (w_out w))) = (slots (w_out w))(slot := None)
    | _ \<Rightarrow> slots (snd (o_cryptsetup W (LuksKillSlot key slot) (w_out w))) = slots (w_out w)"
    using assms(2) unfolding keyslot_laws_def command_laws_def by (simp add: case_prod_beta)
  then show ?thesis
    by (rule_tac command_outcome [OF assms(1)]) (auto split: bool.splits)
qed

lemma kill_empty_slot:
  assumes laws: "keyslot_laws W slots" and empty: "slots (w_out w) (us_new_keyslot stash) = None"
    and run: "kill_staged_slot X E W stash key w = (r, w')"
  shows "\<not> is_ok r \<and> slots (w_out w') = slots (w_out w) \<and> w_files w' = w_files w \<and> puts_nothing w w'"
proof -
  let ?slot = "us_new_keyslot stash"
  obtain r1 w1 where t: "run_command W (TestPassphrase (Some ?slot) key) w = (r1, w1)" by force
  have q1: "puts_nothing w w1" by (rule host.hasD [OF unput_command t])
  have w1: "slots (w_out w1) = slots (w_out w)" "w_files w1 = w_files w"
    using t keyslot_laws_command(2) [OF laws] by (auto elim!: command_outcome)
  show ?thesis
  proof (cases r1)
    case (Inl e)
    then show ?thesis using run t w1 q1 by (auto simp: kill_staged_slot_def Let_def run_bind_def)
  next
    case (Inr live)
    then have "\<not> live" using test_succeeds [of W "Some ?slot" key w w1, OF _ laws] t [unfolded Inr] empty by (cases live) auto
    obtain r2 w2 where k: "run_command W (LuksKillSlot key ?slot) w1 = (r2, w2)" by force
    have q2: "puts_nothing w1 w2" by (rule host.hasD [OF unput_command k])
    have w2: "r2 \<noteq> Inr True" "slots (w_out w2) = slots (w_out w)" "w_files w2 = w_files w"
      using kill_outcome [OF k laws] w1 empty by auto
    have "r = (case r2 of Inl e \<Rightarrow> Inl e | Inr _ \<Rightarrow> Inl (Cr_KillSlot ?slot))" "w' = w2"
      using run t k Inr \<open>\<not> live\<close> w2(1)
      by (auto simp: kill_staged_slot_def Let_def run_bind_def split: sum.splits)
    then show ?thesis using w2 host.rel_trans [OF q1 q2] by (cases r2) auto
  qed
qed

lemma read_stash_found:
  assumes "read_rollback_stash X E W w = (r, w')" "stash_of X E w = Some stash"
  shows "\<not> is_ok r \<or> r = Inr (Some stash)"
proof -
  obtain c where c: "w_files w (rollback_stash_path E) = Some c" "stash_from_str X c = Some stash"
    using assms(2) by (auto simp: stash_of_def bind_eq_Some_conv)
  show ?thesis
    using assms(1) c by (cases "fst (o_file_ok W (rollback_stash_path E) (w_out w)) \<and> valid_utf8 c")
      (auto simp: read_rollback_stash_def read_to_string_def get_file_def run_bind_def ask_def split: prod.splits)
qed

definition rollback_stuck ::
    "'x CryptoExt_scheme \<Rightarrow> CryptoEnv \<Rightarrow> 'o Outside \<Rightarrow> ('o \<Rightarrow> u32 \<rightharpoonup> bytes) \<Rightarrow> UpgradeRollbackStash \<Rightarrow> 'o World \<Rightarrow> bool" where
  "rollback_stuck X E W slots stash w \<longleftrightarrow>
     keyslot_laws W slots \<and> paths_distinct E \<and> stash_of X E w = Some stash \<and>
     slots (w_out w) (us_new_keyslot stash) = None"

lemma stuck_idle:
  assumes "has_effect (volume_idle E W slots) m" "m w = (r, w')" "rollback_stuck X E W slots stash w"
  shows "rollback_stuck X E W slots stash w'"
  using idle_eqs(1) [OF assms(1,2)] idle_eqs(2) [OF assms(1,2), where X = X] assms(3) by (simp add: rollback_stuck_def)

lemma stuck_revoke_tail:
  assumes stuck: "rollback_stuck X E W slots stash w"
    and run: "run_then (run_bind (key_file (current_key_path E)) (kill_staged_slot X E W stash))
      (remove_file W (current_key_path E)) w = (r, w')"
  shows "\<not> is_ok r \<and> rollback_stuck X E W slots stash w' \<and> puts_nothing w w'"
proof -
  obtain w1 where inner: "run_bind (key_file (current_key_path E)) (kill_staged_slot X E W stash) w = (r, w1)"
      and w': "w' = snd (remove_file W (current_key_path E) w1)"
    using run unfolding run_then_iff by blast
  obtain key where "kill_staged_slot X E W stash key w = (r, w1)"
    using inner by (auto simp: key_file_def get_file_def run_bind_def)
  moreover have "keyslot_laws W slots" "slots (w_out w) (us_new_keyslot stash) = None"
    using stuck by (simp_all add: rollback_stuck_def)
  ultimately have r: "\<not> is_ok r" "slots (w_out w1) = slots (w_out w)" "w_files w1 = w_files w" "puts_nothing w w1"
    using kill_empty_slot by blast+
  then have w1: "rollback_stuck X E W slots stash w1"
    using stuck by (simp add: rollback_stuck_def stash_of_def)
  obtain r2 where rm: "remove_file W (current_key_path E) w1 = (r2, w')"
    using w' by (metis prod.collapse)
  have "rollback_stuck X E W slots stash w'"
    by (rule stuck_idle [OF idle.has_remove_key_file rm w1]) simp
  moreover have "puts_nothing w1 w'"
    by (rule host.hasD [OF unput.has_remove_key_file [where E = E] rm]) simp
  ultimately show ?thesis using r(1,4) host.rel_trans by blast
qed

lemma stuck_bind:
  assumes "run_bind m f w = (r, w')" "rollback_stuck X E W slots stash w"
    and "has_effect (volume_idle E W slots) m" "has_effect puts_nothing m"
    and "\<And>x w1. m w = (Inr x, w1) \<Longrightarrow> rollback_stuck X E W slots stash w1 \<Longrightarrow> f x w1 = (r, w') \<Longrightarrow>
      \<not> is_ok r \<and> rollback_stuck X E W slots stash w' \<and> puts_nothing w1 w'"
  shows "\<not> is_ok r \<and> rollback_stuck X E W slots stash w' \<and> puts_nothing w w'"
  using assms(1)
proof (cases rule: run_bind_cases)
  case (failed e)
  then show ?thesis
    using stuck_idle [OF assms(3) failed(1) assms(2)] host.hasD [OF assms(4) failed(1)] by simp
next
  case (went_on x w1)
  then show ?thesis
    using assms(5) [OF went_on(1) stuck_idle [OF assms(3) went_on(1) assms(2)] went_on(2)]
      host.hasD [OF assms(4) went_on(1)] host.rel_trans by blast
qed

lemma stuck_revoke:
  assumes "revoke_upgrade X E W w = (r, w')" "rollback_stuck X E W slots stash w"
  shows "\<not> is_ok r \<and> rollback_stuck X E W slots stash w' \<and> puts_nothing w w'"
proof (rule stuck_bind [OF assms(1) [unfolded revoke_upgrade_def] assms(2) idle.has_read_stash unput.has_read_stash])
  fix found w1
  assume found: "read_rollback_stash X E W w = (Inr found, w1)" and stuck: "rollback_stuck X E W slots stash w1"
    and rest: "run_bind (run_of (ok_or Cr_NoStash found)) (\<lambda>stash.
     run_bind (staged_passphrase X E W stash) (\<lambda>passphrase.
     run_bind (write_file W (current_key_path E) passphrase) (\<lambda>_.
       run_then (run_bind (key_file (current_key_path E)) (kill_staged_slot X E W stash))
         (remove_file W (current_key_path E))))) w1 = (r, w')"
  have "found = Some stash"
    using read_stash_found [OF found] assms(2) by (simp add: rollback_stuck_def)
  with rest have "run_bind (staged_passphrase X E W stash) (\<lambda>passphrase.
     run_bind (write_file W (current_key_path E) passphrase) (\<lambda>_.
       run_then (run_bind (key_file (current_key_path E)) (kill_staged_slot X E W stash))
         (remove_file W (current_key_path E)))) w1 = (r, w')"
    by (simp add: run_bind_def)
  then show "\<not> is_ok r \<and> rollback_stuck X E W slots stash w' \<and> puts_nothing w1 w'"
  proof (rule stuck_bind [OF _ stuck idle.has_checks(4) unput.has_checks(4)])
    fix passphrase w2
    assume stuck2: "rollback_stuck X E W slots stash w2"
      and rest2: "run_bind (write_file W (current_key_path E) passphrase) (\<lambda>_.
       run_then (run_bind (key_file (current_key_path E)) (kill_staged_slot X E W stash))
         (remove_file W (current_key_path E))) w2 = (r, w')"
    have path: "current_key_path E \<in> {current_key_path E, new_key_path E, var_or E ''LUKS_KEY_FILE'' ''/tmp/luks.key''}"
      by simp
    show "\<not> is_ok r \<and> rollback_stuck X E W slots stash w' \<and> puts_nothing w2 w'"
      by (rule stuck_bind [OF rest2 stuck2 idle.has_write_key_file [OF path] unput.has_write_key_file [OF path]])
        (rule stuck_revoke_tail)
  qed
qed

lemma stuck_prepare:
  assumes "prepare_upgrade X E W key key_id pcrs_hex w = (r, w')" "rollback_stuck X E W slots stash w"
  shows "\<not> is_ok r \<and> rollback_stuck X E W slots stash w' \<and> puts_nothing w w'"
proof (cases "key_id = []")
  case True
  then show ?thesis using assms host.rel_refl [of w] by (auto simp: prepare_upgrade_def)
next
  case False
  show ?thesis
  proof (rule stuck_bind [OF assms(1) [unfolded prepare_upgrade_def if_not_P [OF False]] assms(2) still.has_pure(3) host.has_pure(3)])
    fix pcrs w1
    assume stuck: "rollback_stuck X E W slots stash w1"
      and rest: "run_bind (read_rollback_stash X E W) (\<lambda>stash.
          if stash \<noteq> None then run_fail Cr_StashExists
          else run_bind (current_blob X W key_id) (rekey_volume X E W key key_id pcrs)) w1 = (r, w')"
    show "\<not> is_ok r \<and> rollback_stuck X E W slots stash w' \<and> puts_nothing w1 w'"
    proof (rule stuck_bind [OF rest stuck idle.has_read_stash unput.has_read_stash])
      fix found w2
      assume found: "read_rollback_stash X E W w1 = (Inr found, w2)" and stuck2: "rollback_stuck X E W slots stash w2"
        and rest2: "(if found \<noteq> None then run_fail Cr_StashExists
          else run_bind (current_blob X W key_id) (rekey_volume X E W key key_id pcrs)) w2 = (r, w')"
      have "found = Some stash"
        using read_stash_found [OF found] stuck by (simp add: rollback_stuck_def)
      then show "\<not> is_ok r \<and> rollback_stuck X E W slots stash w' \<and> puts_nothing w2 w'"
        using rest2 stuck2 host.rel_refl [of w2] by auto
    qed
  qed
qed

text \<open>C40. A rollback that stops half way cannot be completed. Once the staged keyslot has been killed while the stash
  is still there (the rollback kills the slot before it restores the key blob, and the restoring failed), every
  further rollback and every further preparation fails, writes nothing to the storage host and leaves the
  stash and the empty slot as they are. So the blob goes on naming the new KMS key, although its keyslot is gone.\<close>

theorem interrupted_rollback_cannot_finish:
  assumes "rollback_stuck X E W slots stash w" "command \<noteq> Init"
  shows "case crypto_main X E W command w of (r, w') \<Rightarrow>
    \<not> is_ok r \<and> rollback_stuck X E W slots stash w' \<and> filter is_put (w_log w') = filter is_put (w_log w)"
proof -
  obtain r w' where run: "crypto_main X E W command w = (r, w')" by force
  have "\<not> is_ok r \<and> rollback_stuck X E W slots stash w' \<and> puts_nothing w w'"
  proof (cases command)
    case (PrepareUpgrade key key_id pcrs_hex)
    then show ?thesis using stuck_prepare [OF _ assms(1)] run by simp
  next
    case RevokeUpgrade
    then show ?thesis using stuck_revoke [OF _ assms(1)] run by simp
  qed (use assms(2) in simp)
  then show ?thesis by (simp add: run puts_nothing_def)
qed

subsection \<open>A rollback undoes a preparation\<close>

lemma add_key_success:
  assumes "run_command W (LuksAddKey slot cur new) w = (Inr True, w')" "keyslot_laws W slots"
  shows "slots (w_out w') = (slots (w_out w))(slot \<mapsto> new)" "w_files w' = w_files w"
proof -
  have "case fst (o_cryptsetup W (LuksAddKey slot cur new) (w_out w)) of
      Exited True _ \<Rightarrow> slots (w_out w) slot = None \<and>
        slots (snd (o_cryptsetup W (LuksAddKey slot cur new) (w_out w))) = (slots (w_out w))(slot \<mapsto> new)
    | _ \<Rightarrow> slots (snd (o_cryptsetup W (LuksAddKey slot cur new) (w_out w))) = slots (w_out w)"
    using assms(2) unfolding keyslot_laws_def command_laws_def by (simp add: case_prod_beta)
  then show "slots (w_out w') = (slots (w_out w))(slot \<mapsto> new)" "w_files w' = w_files w"
    using assms(1) by (auto elim!: command_outcome)
qed

lemma write_stash_success:
  assumes "write_rollback_stash X E W stash w = (Inr u, w')" "keyslot_laws W slots" "stash_codec X"
  shows "slots (w_out w') = slots (w_out w)" "stash_of X E w' = Some stash"
  using assms by (auto simp: write_rollback_stash_def write_file_def run_bind_Inr_iff ask_iff set_file_def stash_of_def
      stash_codec_def keyslot_laws_def split: WriteFate.splits)

lemma add_keyslot_success:
  assumes run: "add_keyslot X E W raw cur new w = (Inr u, w')"
    and laws: "keyslot_laws W slots" "stash_codec X" "paths_distinct E"
  obtains slot where "slots (w_out w) slot = None" "slots (w_out w') = (slots (w_out w))(slot \<mapsto> new)"
    "stash_of X E w' = Some \<lparr> us_pre_prepare_blob = from_utf8_lossy raw, us_new_keyslot = slot \<rparr>"
proof -
  obtain slot w1 w2 u2 w3 where free: "first_free_keyslot W w = (Inr slot, w1)"
      and stash: "write_rollback_stash X E W \<lparr> us_pre_prepare_blob = from_utf8_lossy raw, us_new_keyslot = slot \<rparr> w1 = (Inr u2, w2)"
      and add: "run_command W (LuksAddKey slot cur new) w2 = (Inr True, w3)"
      and test: "run_command W (TestPassphrase (Some slot) new) w3 = (Inr True, w')"
    using run by (auto simp: add_keyslot_def run_bind_Inr_iff split: if_splits)
  note s1 = first_free_slot [OF free laws(1)]
  note s2 = write_stash_success [OF stash laws(1,2)]
  note s3 = add_key_success [OF add laws(1)]
  note s4 = idle_eqs [OF idle.has_test test laws(1,3)]
  show thesis
    using that [OF s1(1)] s1(2) s2 s3 s4(1) s4(2) [where X = X] by (simp add: stash_of_def)
qed

lemma stage_success:
  assumes run: "stage_upgrade X E W raw blob key_id current new ct w = (Inr u, w')"
    and laws: "keyslot_laws W slots" "stash_codec X" "paths_distinct E"
  obtains slot added where "slots (w_out w) slot = None" "slots (w_out w') = (slots (w_out w))(slot \<mapsto> added)"
    "stash_of X E w' = Some \<lparr> us_pre_prepare_blob = from_utf8_lossy raw, us_new_keyslot = slot \<rparr>"
proof -
  let ?cleanup = "run_bind (run_attempt (remove_file W (new_key_path E))) (\<lambda>_. remove_file W (current_key_path E))"
  obtain u1 w1 u2 w2 cur new' u3 w3 w4 where w1: "write_file W (current_key_path E) current w = (Inr u1, w1)"
      and w2: "write_file W (new_key_path E) new w1 = (Inr u2, w2)"
      and add: "add_keyslot X E W raw cur new' w2 = (Inr u3, w3)"
      and put: "meta_put W (blob_to_vec X (blob\<lparr> kb_kms_key_id := key_id,
        kb_ciphertext := Some (base64_encode X ct), kb_prev_key_id := Some (kb_kms_key_id blob) \<rparr>)) w3 = (Inr u, w4)"
      and w': "w' = snd (?cleanup w4)"
    using run by (auto simp: stage_upgrade_def run_bind_Inr_iff run_then_iff key_file_def get_file_def)
  obtain r5 where clean: "?cleanup w4 = (r5, w')" using w' by (metis prod.collapse)
  have cleanup: "has_effect (volume_idle E W slots) ?cleanup"
    by (intro still.has_intros idle.has_remove_key_file) simp_all
  have paths: "current_key_path E \<in> {current_key_path E, new_key_path E, var_or E ''LUKS_KEY_FILE'' ''/tmp/luks.key''}"
    "new_key_path E \<in> {current_key_path E, new_key_path E, var_or E ''LUKS_KEY_FILE'' ''/tmp/luks.key''}" by simp_all
  note i1 = idle_eqs(1) [OF idle.has_write_key_file [OF paths(1)] w1 laws(1,3)]
  note i2 = idle_eqs(1) [OF idle.has_write_key_file [OF paths(2)] w2 laws(1,3)]
  note i4 = idle_eqs(1) [OF idle.has_meta_put put laws(1,3)] idle_eqs(2) [OF idle.has_meta_put put laws(1,3), where X = X]
  note i5 = idle_eqs(1) [OF cleanup clean laws(1,3)] idle_eqs(2) [OF cleanup clean laws(1,3), where X = X]
  obtain slot where "slots (w_out w2) slot = None" "slots (w_out w3) = (slots (w_out w2))(slot \<mapsto> new')"
      "stash_of X E w3 = Some \<lparr> us_pre_prepare_blob = from_utf8_lossy raw, us_new_keyslot = slot \<rparr>"
    by (rule add_keyslot_success [OF add laws])
  then show thesis using that i1 i2 i4 i5 by simp
qed

lemma seal_log: "rsa_oaep_encrypt W der p w = (r, w') \<Longrightarrow> set (w_log w) \<subseteq> set (w_log w')"
  by (auto simp: rsa_oaep_encrypt_def run_bind_iff ask_iff)

lemma rekey_success:
  assumes run: "rekey_volume X E W key key_id pcrs (raw, blob, ct) w = (Inr u, w')"
    and laws: "keyslot_laws W slots" "stash_codec X" "paths_distinct E"
  obtains slot added where "slots (w_out w) slot = None" "slots (w_out w') = (slots (w_out w))(slot \<mapsto> added)"
    "stash_of X E w' = Some \<lparr> us_pre_prepare_blob = from_utf8_lossy raw, us_new_keyslot = slot \<rparr>"
    "set (w_log w) \<subseteq> set (w_log w')"
proof -
  obtain der w1 current w2 new w3 new_ct w4 where c: "check_new_key X E W key key_id pcrs w = (Inr der, w1)"
      and p: "current_passphrase X E W blob ct w1 = (Inr current, w2)"
      and r: "random_passphrase W w2 = (Inr new, w3)"
      and e: "rsa_oaep_encrypt W der new w3 = (Inr new_ct, w4)"
      and s: "stage_upgrade X E W raw blob key_id current new new_ct w4 = (Inr u, w')"
    using run by (auto simp: rekey_volume_def run_bind_Inr_iff)
  have slots: "slots (w_out w4) = slots (w_out w)"
    using idle_eqs(1) [OF idle.has_checks(2) c laws(1,3)] idle_eqs(1) [OF idle.has_checks(3) p laws(1,3)]
      idle_eqs(1) [OF idle.has_checks(5) r laws(1,3)] idle_eqs(1) [OF idle_seal e laws(1,3)] by simp
  have "set (w_log w) \<subseteq> set (w_log w')"
    using log_grows [OF quiet.has_checks(2) c] log_grows [OF quiet.has_checks(3) p] log_grows [OF quiet.has_checks(5) r]
      seal_log [OF e] log_grows [OF quiet_stage s] by blast
  then show thesis
    using stage_success [OF s laws] that slots by (metis (no_types, lifting))
qed

lemma prepare_success:
  assumes run: "prepare_upgrade X E W key key_id pcrs_hex w = (Inr u, w')"
    and laws: "keyslot_laws W slots" "stash_codec X" "paths_distinct E"
  obtains answer raw slot added where "Ev_Got answer \<in> set (w_log w')" "meta_reply answer = Inr raw"
    "slots (w_out w) slot = None" "slots (w_out w') = (slots (w_out w))(slot \<mapsto> added)"
    "stash_of X E w' = Some \<lparr> us_pre_prepare_blob = from_utf8_lossy raw, us_new_keyslot = slot \<rparr>"
proof -
  have "key_id \<noteq> []" using run by (auto simp: prepare_upgrade_def)
  then obtain pcrs w1 raw blob ct w2 where read: "read_rollback_stash X E W w = (Inr None, w1)"
      and blob: "current_blob X W key_id w1 = (Inr (raw, blob, ct), w2)"
      and rekey: "rekey_volume X E W key key_id pcrs (raw, blob, ct) w2 = (Inr u, w')"
    using run by (auto simp: prepare_upgrade_def run_bind_Inr_iff split: if_splits)
  have "\<exists>answer. Ev_Got answer \<in> set (w_log w2) \<and> meta_reply answer = Inr raw"
    using blob by (auto simp: current_blob_def meta_get_def run_bind_Inr_iff ask_iff split: if_splits
        intro!: exI [of _ "fst (o_meta_get W (w_out w1))"])
  then obtain answer where got: "Ev_Got answer \<in> set (w_log w2)" "meta_reply answer = Inr raw" by blast
  have "slots (w_out w2) = slots (w_out w)"
    using idle_eqs(1) [OF idle.has_read_stash read laws(1,3)] idle_eqs(1) [OF idle.has_checks(1) blob laws(1,3)] by simp
  then show thesis
    using rekey_success [OF rekey laws] that got by (metis subsetD)
qed

lemma kill_success:
  assumes run: "kill_staged_slot X E W stash key w = (Inr u, w')"
    and laws: "keyslot_laws W slots" "paths_distinct E"
  shows "slots (w_out w') = (slots (w_out w))(us_new_keyslot stash := None)" "stash_of X E w' = None"
    "\<exists>log. w_log w' = log @ [Ev_Put (us_pre_prepare_blob stash)]"
proof -
  let ?slot = "us_new_keyslot stash"
  obtain w1 w2 w3 u4 w4 where t: "run_command W (TestPassphrase (Some ?slot) key) w = (Inr False, w1)"
      and k: "run_command W (LuksKillSlot key ?slot) w1 = (Inr True, w2)"
      and o: "run_command W (TestPassphrase None key) w2 = (Inr True, w3)"
      and p: "meta_put W (us_pre_prepare_blob stash) w3 = (Inr u4, w4)"
      and r: "remove_rollback_stash E W w4 = (Inr u, w')"
    using run by (auto simp: kill_staged_slot_def Let_def run_bind_Inr_iff split: if_splits)
  have put: "w_log w4 = w_log w3 @ [Ev_Put (us_pre_prepare_blob stash)]"
    using p by (auto simp: meta_put_def run_bind_Inr_iff ask_iff split: option.splits list.splits if_splits)
  have removed: "w_files w' (rollback_stash_path E) = None" "w_log w' = w_log w4" "slots (w_out w') = slots (w_out w4)"
    using r laws(1) by (auto simp: remove_rollback_stash_def remove_file_def get_file_def set_file_def run_bind_Inr_iff
        ask_iff keyslot_laws_def split: option.splits if_splits)
  show "\<exists>log. w_log w' = log @ [Ev_Put (us_pre_prepare_blob stash)]" using put removed(2) by simp
  show "stash_of X E w' = None" using removed(1) by (simp add: stash_of_def)
  show "slots (w_out w') = (slots (w_out w))(?slot := None)"
    using idle_eqs(1) [OF idle.has_test t laws] kill_outcome [OF k laws(1)] idle_eqs(1) [OF idle.has_test o laws]
      idle_eqs(1) [OF idle.has_meta_put p laws] removed(3) by simp
qed

lemma remove_file_log: "remove_file W path w = (r, w') \<Longrightarrow> w_log w' = w_log w"
  by (auto simp: remove_file_def get_file_def set_file_def run_bind_iff ask_iff split: option.splits if_splits)

lemma revoke_success:
  assumes run: "revoke_upgrade X E W w = (Inr u, w')" and stash: "stash_of X E w = Some stash"
    and laws: "keyslot_laws W slots" "paths_distinct E"
  shows "slots (w_out w') = (slots (w_out w))(us_new_keyslot stash := None) \<and> stash_of X E w' = None \<and>
    (\<exists>log. w_log w' = log @ [Ev_Put (us_pre_prepare_blob stash)])"
proof -
  obtain found w1 st p w2 u3 w3 key w4 where read: "read_rollback_stash X E W w = (Inr (Some st), w1)"
      and pass: "staged_passphrase X E W st w1 = (Inr p, w2)"
      and keyfile: "write_file W (current_key_path E) p w2 = (Inr u3, w3)"
      and kill: "kill_staged_slot X E W st key w3 = (Inr u, w4)"
      and w': "w' = snd (remove_file W (current_key_path E) w4)"
    using run by (auto simp: revoke_upgrade_def run_bind_Inr_iff run_then_iff key_file_def get_file_def ok_or_Inr_iff)
  have st: "st = stash" using read_stash_found [OF read stash] by simp
  obtain r5 where rm: "remove_file W (current_key_path E) w4 = (r5, w')" using w' by (metis prod.collapse)
  have path: "current_key_path E \<in> {current_key_path E, new_key_path E, var_or E ''LUKS_KEY_FILE'' ''/tmp/luks.key''}"
    by simp
  have before: "slots (w_out w3) = slots (w_out w)"
    using idle_eqs(1) [OF idle.has_read_stash read laws] idle_eqs(1) [OF idle.has_checks(4) pass laws]
      idle_eqs(1) [OF idle.has_write_key_file [OF path] keyfile laws] by simp
  have after: "slots (w_out w') = slots (w_out w4)" "stash_of X E w' = stash_of X E w4"
    using idle_eqs(1) [OF idle.has_remove_key_file [OF path] rm laws]
      idle_eqs(2) [OF idle.has_remove_key_file [OF path] rm laws, where X = X] by simp_all
  show ?thesis
    using kill_success [OF kill laws] before after remove_file_log [OF rm] by (simp add: st)
qed

text \<open>C20. A rollback undoes a preparation. If a preparation and then a rollback both succeed, the keyslots are what
  they were, the stash is gone, and the last thing written to the storage host is the key blob the
  preparation had read (its UTF-8 form, which is the blob itself when it is valid UTF-8).\<close>

theorem rollback_undoes_prepare:
  assumes prepare: "prepare_upgrade X E W key key_id pcrs_hex w = (Inr (), w1)"
    and revoke: "revoke_upgrade X E W w1 = (Inr (), w2)"
    and laws: "keyslot_laws W slots" "stash_codec X" "paths_distinct E"
  shows "slots (w_out w2) = slots (w_out w) \<and> stash_of X E w2 = None \<and>
    (\<exists>answer raw log. Ev_Got answer \<in> set (w_log w1) \<and> meta_reply answer = Inr raw \<and>
       w_log w2 = log @ [Ev_Put (from_utf8_lossy raw)] \<and> (valid_utf8 raw \<longrightarrow> from_utf8_lossy raw = raw))"
proof -
  obtain answer raw slot added where p: "Ev_Got answer \<in> set (w_log w1)" "meta_reply answer = Inr raw"
      "slots (w_out w) slot = None" "slots (w_out w1) = (slots (w_out w))(slot \<mapsto> added)"
      "stash_of X E w1 = Some \<lparr> us_pre_prepare_blob = from_utf8_lossy raw, us_new_keyslot = slot \<rparr>"
    by (rule prepare_success [OF prepare laws])
  have "slots (w_out w2) = (slots (w_out w1))(slot := None) \<and> stash_of X E w2 = None \<and>
      (\<exists>log. w_log w2 = log @ [Ev_Put (from_utf8_lossy raw)])"
    using revoke_success [OF revoke p(5) laws(1,3)] by simp
  moreover have "(slots (w_out w1))(slot := None) = slots (w_out w)"
    using p(3,4) by auto
  ultimately show ?thesis using p(1,2) from_utf8_lossy_valid by auto
qed

end
