(* ===== verification/Luks_Witnesses.thy ===== *)
theory Luks_Witnesses
  imports Luks_Rollback
begin

text \<open>
  A concrete outside for the key management: a volume with few keyslots, a storage host that keeps the blob, a KMS
  that decrypts, and codecs for the blob and the stash. On it a volume is prepared for an upgrade and rolled
  back, and a rollback is interrupted.
\<close>

subsection \<open>Codecs\<close>

fun ex_escape :: "bytes \<Rightarrow> bytes" where
  "ex_escape [] = [0]"
| "ex_escape (b # bs) = 1 # b # ex_escape bs"

fun ex_unescape :: "bytes \<Rightarrow> bytes option" where
  "ex_unescape [c] = (if c = 0 then Some [] else None)"
| "ex_unescape (c # b # bs) = (if c = 1 then map_option ((#) b) (ex_unescape bs) else None)"
| "ex_unescape [] = None"

definition ex_old_pass :: bytes where "ex_old_pass = replicate 32 7"

definition ex_b64 :: "(string \<times> bytes) list" where
  "ex_b64 = [(''p'', ex_old_pass), (''k'', [5]), (''e'', 0x04 # 32 # ex_old_pass)]"

definition ex_b64_encode :: "bytes \<Rightarrow> string" where
  "ex_b64_encode bs = (case find (\<lambda>(_, b). b = bs) ex_b64 of Some (s, _) \<Rightarrow> s | None \<Rightarrow> [])"

definition ex_old_blob :: KeyBlob where
  "ex_old_blob = \<lparr> kb_version = 1, kb_kms_key_id = ''old'', kb_ciphertext = Some ''p'',
     kb_prev_key_id = None \<rparr>"

definition ex_gate :: Json where
  "ex_gate = JsonObject [(''Statement'', JsonObject
     [(''Effect'', JsonString ''Allow''), (''Action'', JsonString ''kms:Decrypt''),
      (''Condition'', JsonObject [(''StringEqualsIgnoreCase'', JsonObject
        [(''kms:RecipientAttestation:PCR0'', JsonString (ex_hex [1])),
         (''kms:RecipientAttestation:PCR1'', JsonString (ex_hex [2])),
         (''kms:RecipientAttestation:PCR2'', JsonString (ex_hex [3]))])])])]"

definition ex_cms :: CmsExt where
  "ex_cms = \<lparr> content_info_from_der = (\<lambda>der. Some (ID_ENVELOPED_DATA, drop 2 der)),
     enveloped_decode_as = (\<lambda>content. Some \<lparr> ed_recip_infos = [Ktri RSAES_OAEP []],
       ed_content_enc_alg = AES_256_CBC, ed_parameters = Some [], ed_encrypted_content = Some content \<rparr>),
     octet_string_decode_as = (\<lambda>_. Some (replicate 16 0)), rsa_oaep_decrypt = (\<lambda>_ _. Some (replicate 32 0)),
     aes256_cbc_decrypt = (\<lambda>_ _ ct. Some ct) \<rparr>"

definition ex_crypto :: CryptoExt where
  "ex_crypto = ChainExt.extend
     (NitroExt.extend ((ex_nitro [])\<lparr> hex_encode := (\<lambda>bs. ex_hex (take 1 bs)), base64_encode := ex_b64_encode \<rparr>)
        (ChainExt.fields (\<lambda>_. None) (\<lambda>_. []) (\<lambda>_. None) (\<lambda>_. []) (\<lambda>_. None) (\<lambda>_. []) (map_of ex_b64)))
     (CryptoExt.fields (\<lambda>_. Some ex_gate) (\<lambda>bs. if bs = [1] then Some ex_old_blob else None)
        (\<lambda>b. if b = ex_old_blob then [1] else [2])
        (\<lambda>bs. if length bs < 4 then None
          else map_option (\<lambda>b. \<lparr> us_pre_prepare_blob = b, us_new_keyslot = from_be_bytes (take 4 bs) \<rparr>)
            (ex_unescape (drop 4 bs)))
        (\<lambda>stash. to_be_bytes (us_new_keyslot stash) @ ex_escape (us_pre_prepare_blob stash))
        (\<lambda>h. Some (replicate 48 (of_int (hd h)))) ex_cms)"

lemma ex_unescape_take: "ex_unescape (take n (ex_escape bs)) = Some x \<Longrightarrow> x = bs"
proof (induction bs arbitrary: n x)
  case Nil
  then show ?case by (cases n) (auto split: if_splits)
next
  case (Cons b bs)
  then show ?case by (cases n; cases "n - 1") auto
qed

lemma ex_unescape_escape: "ex_unescape (ex_escape bs) = Some bs"
  by (induction bs) auto

lemma ex_crypto_stash: "stash_codec ex_crypto"
  unfolding stash_codec_def
proof (intro conjI allI impI)
  fix stash :: UpgradeRollbackStash
  show "stash_from_str ex_crypto (stash_to_string ex_crypto stash) = Some stash"
    by (simp add: ex_crypto_def ChainExt.defs NitroExt.defs CryptoExt.defs ex_unescape_escape)
next
  fix stash stash' :: UpgradeRollbackStash and n
  assume *: "stash_from_str ex_crypto (take n (stash_to_string ex_crypto stash)) = Some stash'"
  then have "4 \<le> n"
    by (auto simp: ex_crypto_def ChainExt.defs NitroExt.defs CryptoExt.defs split: if_splits)
  then obtain m where n: "n = 4 + m" using le_Suc_ex by blast
  show "stash' = stash"
    using * ex_unescape_take [of m "us_pre_prepare_blob stash"]
    by (auto simp: ex_crypto_def ChainExt.defs NitroExt.defs CryptoExt.defs n split: if_splits)
qed

subsection \<open>The outside\<close>

record ExOut =
  xo_slots :: "(u32 \<times> bytes) list"
  xo_blob :: bytes
  xo_refuse :: bool

definition ex_slots :: "ExOut \<Rightarrow> u32 \<rightharpoonup> bytes" where
  "ex_slots out = map_of (xo_slots out)"

definition ex_dump :: "(u32 \<times> bytes) list \<Rightarrow> CmdExit" where
  "ex_dump slots =
     (if map fst slots = [0] then Exited True (str ''Keyslots:'' @ [10] @ str ''  0: luks2'' @ [10])
      else if map fst slots = [1, 0] then
        Exited True (str ''Keyslots:'' @ [10] @ str ''  0: luks2'' @ [10] @ str ''  1: luks2'' @ [10])
      else Exited False [])"

fun ex_cryptsetup :: "CryptsetupCmd \<Rightarrow> ExOut \<Rightarrow> CmdExit \<times> ExOut" where
  "ex_cryptsetup LuksDump out = (ex_dump (xo_slots out), out)"
| "ex_cryptsetup (LuksAddKey slot cur new) out =
     (if map_of (xo_slots out) slot = None then (Exited True [], out\<lparr> xo_slots := (slot, new) # xo_slots out \<rparr>)
      else (Exited False [], out))"
| "ex_cryptsetup (TestPassphrase at key) out =
     (Exited (case at of
        Some slot \<Rightarrow> map_of (xo_slots out) slot = Some key
      | None \<Rightarrow> list_ex (\<lambda>(s, _). map_of (xo_slots out) s = Some key) (xo_slots out)) [], out)"
| "ex_cryptsetup (LuksKillSlot key slot) out =
     (if map_of (xo_slots out) slot \<noteq> None \<and>
         list_ex (\<lambda>(s, _). s \<noteq> slot \<and> map_of (xo_slots out) s = Some key) (xo_slots out)
      then (Exited True [], out\<lparr> xo_slots := filter (\<lambda>(s, _). s \<noteq> slot) (xo_slots out) \<rparr>)
      else (Exited False [], out))"

fun ex_kms :: "KmsCall \<Rightarrow> string option" where
  "ex_kms (GetPublicKey _) = Some ''k''"
| "ex_kms (GetKeyPolicy _) = Some ''policy''"
| "ex_kms (DescribeKey _) = Some ''AWS_KMS''"
| "ex_kms (Decrypt _ ct _) = (if ct = ''p'' then Some ''e'' else None)"
| "ex_kms (ScheduleKeyDeletion _) = Some []"

definition ex_outside :: "ExOut Outside" where
  "ex_outside = \<lparr>
     o_meta_get = (\<lambda>out. (Some (to_be_bytes (of_nat (length (xo_blob out)) :: u32) @ xo_blob out), out)),
     o_meta_put = (\<lambda>frame out. if xo_refuse out then (Some [1], out) else (Some [0], out\<lparr> xo_blob := drop 5 frame \<rparr>)),
     o_kms = (\<lambda>_ call out. (ex_kms call, out)), o_nsm = (\<lambda>_ out. (Some [1], out)),
     o_random = (\<lambda>n out. (replicate n 8, out)), o_rsa_keygen = (\<lambda>out. (Some ([], []), out)),
     o_oaep_encrypt = (\<lambda>_ p out. (Some p, out)), o_write = (\<lambda>_ out. (Write_Ok, out)),
     o_file_ok = (\<lambda>_ out. (True, out)), o_cryptsetup = ex_cryptsetup \<rparr>"

lemma map_of_filter_other: "map_of (filter (\<lambda>(s, _). s \<noteq> slot) xs) = (map_of xs)(slot := None)"
  by (induction xs) auto

lemma list_ex_ran: "list_ex (\<lambda>(s, _). map_of xs s = Some key) xs \<longleftrightarrow> key \<in> ran (map_of xs)"
  by (force simp: list_ex_iff ran_def dest: map_of_SomeD)

lemma ex_dump_lists:
  "ex_dump slots = Exited True text \<Longrightarrow> map_option set (parse_occupied_keyslots text) = Some (set (map fst slots))"
proof -
  have one: "parse_occupied_keyslots (str ''Keyslots:'' @ [10] @ str ''  0: luks2'' @ [10]) = Some [0]"
    by code_simp
  have two: "parse_occupied_keyslots (str ''Keyslots:'' @ [10] @ str ''  0: luks2'' @ [10] @ str ''  1: luks2'' @ [10]) =
      Some [0, 1]"
    by code_simp
  assume "ex_dump slots = Exited True text"
  then show ?thesis
    using one two by (auto simp only: ex_dump_def split: if_splits) auto
qed

lemma ex_keyslot_laws: "keyslot_laws ex_outside ex_slots"
proof -
  have "command_laws ex_outside ex_slots"
    unfolding command_laws_def
  proof (intro allI conjI, goal_cases)
    case (1 out)
    then show ?case
      using ex_dump_lists [of "xo_slots out"] by (auto simp: ex_outside_def ex_slots_def dom_map_of_conv_image_fst)
  next
    case (2 out slot cur new)
    then show ?case by (auto simp: ex_outside_def ex_slots_def)
  next
    case (3 out at key)
    then show ?case by (auto simp: ex_outside_def ex_slots_def list_ex_ran split: option.splits)
  next
    case (4 out key slot)
    then show ?case
      by (auto simp: ex_outside_def ex_slots_def map_of_filter_other list_ex_iff)
  qed
  then show ?thesis
    unfolding keyslot_laws_def by (intro conjI) (assumption, simp add: ex_outside_def ex_slots_def)
qed

definition ex_env :: CryptoEnv where
  "ex_env = \<lparr> env_var = (\<lambda>name. map_of [(''KMS_AWS_REGION'', str ''eu-west-1''), (''AWS_ACCESS_KEY_ID'', str ''id''),
     (''AWS_SECRET_ACCESS_KEY'', str ''secret'')] name), host_cid_file = Some (str ''3'') \<rparr>"

lemma ex_env_paths: "paths_distinct ex_env"
  by code_simp

definition ex_world :: "ExOut World" where
  "ex_world = \<lparr> w_out = \<lparr> xo_slots = [(0, ex_old_pass)], xo_blob = [1], xo_refuse = False \<rparr>,
     w_files = Map.empty, w_log = [] \<rparr>"

text \<open>\<open>gives m x w\<close>: the step succeeds with \<open>x\<close> and only adds to the log.\<close>

definition gives :: "('o, 'a) crypto \<Rightarrow> 'a \<Rightarrow> 'o World \<Rightarrow> bool" where
  "gives m x w \<longleftrightarrow> (\<exists>l. m w = (Inr x, w\<lparr> w_log := w_log w @ l \<rparr>))"

lemma gives_of: "r = Inr x \<Longrightarrow> gives (run_of r) x w" "gives (run_return x) x w"
  by (auto simp: gives_def intro!: exI [of _ "[]"])

lemma gives_bind:
  assumes "gives m x w" "\<And>l. gives (f x) y (w\<lparr> w_log := w_log w @ l \<rparr>)"
  shows "gives (run_bind m f) y w"
proof -
  obtain l1 where m: "m w = (Inr x, w\<lparr> w_log := w_log w @ l1 \<rparr>)" using assms(1) by (auto simp: gives_def)
  obtain l2 where "f x (w\<lparr> w_log := w_log w @ l1 \<rparr>) = (Inr y, w\<lparr> w_log := w_log w @ l1 @ l2 \<rparr>)"
    using assms(2) [of l1] by (auto simp: gives_def)
  with m show ?thesis by (auto simp: gives_def run_bind_def)
qed

lemma gives_ask: "call (w_out w) = (x, w_out w) \<Longrightarrow> gives (ask call events) x w"
  by (auto simp: gives_def ask_def)

definition ex_transport :: KmsTransport where
  "ex_transport = Kms_Aws (str ''eu-west-1'') (str ''kms.eu-west-1.amazonaws.com'') (str ''id'') (str ''secret'') None"

lemma ex_transport_selected: "kms_transport ex_env = Inr ex_transport"
  by code_simp

lemma ex_kms_call: "ex_kms call = Some s \<Longrightarrow> gives (kms_call ex_env ex_outside call) s w"
  unfolding kms_call_def
  by (rule gives_bind [OF gives_of(1) [OF ex_transport_selected]],
      rule gives_bind [OF gives_ask [where x = "Some s"]])
    (auto simp: ex_outside_def intro: gives_of)

definition ex_pcrs :: Pcrs where
  "ex_pcrs = \<lparr> pcr0 = replicate 48 1, pcr1 = replicate 48 2, pcr2 = replicate 48 3 \<rparr>"

lemma ex_gate_accepted: "verify_decrypt_policy ex_crypto (policy_from_str ex_crypto) ''policy'' ex_pcrs = Inr ()"
  by code_simp

lemma ex_new_key: "gives (check_new_key ex_crypto ex_env ex_outside ''k'' key_id ex_pcrs) [5] w"
proof -
  have k: "base64_decode ex_crypto ''k'' = Some [5]" by code_simp
  have "gives (verify_key_policy_for ex_crypto ex_env ex_outside key_id ex_pcrs) () w'" for w'
    unfolding verify_key_policy_for_def
    by (rule gives_bind [OF ex_kms_call], simp, simp)
      (rule gives_bind [OF ex_kms_call], simp, rule gives_of(1), simp add: ex_gate_accepted)
  moreover have "gives (kms_get_public_key ex_crypto ex_env ex_outside key_id) [5] w'" for w'
    unfolding kms_get_public_key_def
    by (rule gives_bind [OF ex_kms_call], simp, rule gives_of(1), simp add: k)
  ultimately show ?thesis
    unfolding check_new_key_def
    by (intro gives_bind [OF gives_of(1) [of _ "[5]"]] gives_bind [of _ "()"] gives_bind [of _ "[5]"])
      (auto simp: k gives_of)
qed

lemma ex_attested_locally: "\<exists>a. request_local ex_crypto (Some [1]) = Inr a"
proof -
  have "is_ok (request_local ex_crypto (Some [1]))" by code_simp
  then show ?thesis by (auto simp: is_ok_iff)
qed

lemma ex_envelope_opens: "recipient_decode ex_cms [] (0x04 # 32 # ex_old_pass) = Inr ex_old_pass"
  by code_simp

lemma ex_decrypts: "gives (kms_decrypt ex_crypto ex_env ex_outside ''old'' ex_old_pass) ex_old_pass w"
proof -
  obtain a where a: "request_local ex_crypto (Some [1]) = Inr a" using ex_attested_locally ..
  have codes: "base64_encode ex_crypto ex_old_pass = ''p''" "base64_decode ex_crypto ''e'' = Some (0x04 # 32 # ex_old_pass)"
      "cms ex_crypto = ex_cms"
    by (code_simp, code_simp, simp add: ex_crypto_def ChainExt.defs NitroExt.defs CryptoExt.defs)
  have attest: "gives (request_attestation ex_crypto ex_outside request) a w'" for request w'
    unfolding request_attestation_def
    by (rule gives_bind [OF gives_ask [where x = "Some [1]"]]) (auto simp: ex_outside_def a intro: gives_of)
  have keys: "gives (ask (o_rsa_keygen ex_outside) (\<lambda>_. [])) (Some ([], [])) w'" for w'
    by (rule gives_ask) (simp add: ex_outside_def)
  have kms: "gives (kms_call ex_env ex_outside (Decrypt ''old'' (base64_encode ex_crypto ex_old_pass) doc)) ''e'' w'" for doc w'
    by (rule ex_kms_call) (simp add: codes)
  show ?thesis
    unfolding kms_decrypt_def
    by (rule gives_bind [OF keys], rule gives_bind [OF gives_of(1) [of _ "([], [])"]], simp, simp only: prod.case,
        rule gives_bind [OF attest], rule gives_bind [OF kms],
        rule gives_bind [OF gives_of(1) [of _ "0x04 # 32 # ex_old_pass"]], simp add: codes,
        rule gives_of(1), simp add: codes ex_envelope_opens)
qed

lemma ex_length [simp]: "length ex_old_pass = PASSPHRASE_BYTES"
  by (simp add: ex_old_pass_def PASSPHRASE_BYTES_def)

lemma ex_passphrases:
  "gives (current_passphrase ex_crypto ex_env ex_outside ex_old_blob ''p'') ex_old_pass w"
  "gives (staged_passphrase ex_crypto ex_env ex_outside \<lparr> us_pre_prepare_blob = [1], us_new_keyslot = slot \<rparr>) ex_old_pass w"
proof -
  have p: "base64_decode ex_crypto ''p'' = Some ex_old_pass" by code_simp
  have old: "kb_kms_key_id ex_old_blob = ''old''" "kb_ciphertext ex_old_blob = Some ''p''"
    by (simp_all add: ex_old_blob_def)
  have blob: "blob_from_slice ex_crypto [1] = Some ex_old_blob"
    by (simp add: ex_crypto_def ChainExt.defs NitroExt.defs CryptoExt.defs)
  show "gives (current_passphrase ex_crypto ex_env ex_outside ex_old_blob ''p'') ex_old_pass w"
    unfolding current_passphrase_def old
    by (rule gives_bind [OF gives_of(1) [of _ ex_old_pass]], simp add: p, rule gives_bind [OF ex_decrypts])
      (simp add: gives_of)
  show "gives (staged_passphrase ex_crypto ex_env ex_outside \<lparr> us_pre_prepare_blob = [1], us_new_keyslot = slot \<rparr>) ex_old_pass w"
    unfolding staged_passphrase_def
    by (rule gives_bind [OF gives_of(1) [of _ ex_old_blob]], simp add: blob,
        rule gives_bind [OF gives_of(1) [of _ "''p''"]], simp add: old,
        rule gives_bind [OF gives_of(1) [of _ ex_old_pass]], simp add: p, simp add: old ex_decrypts)
qed

lemma ex_blob_read: "gives (current_blob ex_crypto ex_outside ''new'') ([1], ex_old_blob, ''p'') (ex_world\<lparr> w_log := l \<rparr>)"
proof -
  have got: "gives (meta_get ex_outside) [1] (ex_world\<lparr> w_log := l' \<rparr>)" for l'
  proof -
    have "meta_reply (Some (to_be_bytes (of_nat (length [1 :: byte]) :: u32) @ [1])) = Inr [1]" by code_simp
    then show ?thesis
      unfolding meta_get_def
      by (intro gives_bind [OF gives_ask [where x = "Some (to_be_bytes (of_nat (length [1 :: byte]) :: u32) @ [1])"]])
        (auto simp: ex_outside_def ex_world_def intro: gives_of)
  qed
  have blob: "read_blob ex_crypto [1] = Inr ex_old_blob" by code_simp
  show ?thesis
    unfolding current_blob_def
    by (rule gives_bind [OF got], rule gives_bind [OF gives_of(1) [OF blob]])
      (auto simp: ex_old_blob_def intro!: gives_bind [OF gives_of(1)] gives_of)
qed

subsection \<open>The runs\<close>

lemma ex_write: "write_file ex_outside p c w = (Inr (), w\<lparr> w_files := (w_files w)(p \<mapsto> c) \<rparr>)"
  by (simp add: write_file_def run_bind_def ask_def set_file_def ex_outside_def)

lemma ex_remove: "remove_file ex_outside p w = (Inr (), w\<lparr> w_files := (w_files w)(p := None) \<rparr>)"
  by (cases "w_files w p") (auto simp: remove_file_def run_bind_def ask_def set_file_def get_file_def ex_outside_def fun_upd_idem)

lemma ex_key_file: "w_files w p = Some c \<Longrightarrow> key_file p w = (Inr c, w)"
  by (simp add: key_file_def run_bind_def get_file_def)

lemma ex_command:
  "ex_cryptsetup cmd (w_out w) = (Exited b t, out') \<Longrightarrow>
   run_command ex_outside cmd w = (Inr b, w\<lparr> w_out := out', w_log := w_log w @ [Ev_Cryptsetup cmd (Exited b t)] \<rparr>)"
  by (simp add: run_command_def cryptsetup_def run_bind_def ask_def ex_outside_def)

lemma ex_put:
  "meta_put ex_outside data w =
     (if xo_refuse (w_out w) then (Inl (Cr_MetaRejected 1), w\<lparr> w_log := w_log w @ [Ev_Put data] \<rparr>)
      else (Inr (), w\<lparr> w_out := (w_out w)\<lparr> xo_blob := data \<rparr>, w_log := w_log w @ [Ev_Put data] \<rparr>))"
  by (simp add: meta_put_def run_bind_def ask_def ex_outside_def META_OK_def put_frame_def to_be_bytes_def)

lemma ex_first_free:
  "xo_slots (w_out w) = [(0, p)] \<Longrightarrow>
   first_free_keyslot ex_outside w = (Inr 1, w\<lparr> w_log := w_log w @ [Ev_Cryptsetup LuksDump (ex_dump [(0, p)])] \<rparr>)"
proof -
  have "parse_occupied_keyslots (str ''Keyslots:'' @ [10] @ str ''  0: luks2'' @ [10]) = Some [0]"
    by code_simp
  moreover have "first_free_from_occupied [0] = Some 1" by code_simp
  moreover assume "xo_slots (w_out w) = [(0, p)]"
  ultimately show ?thesis
    by (simp add: first_free_keyslot_def cryptsetup_def run_bind_def ask_def ex_outside_def ex_dump_def)
qed

definition ex_new_pass :: bytes where "ex_new_pass = replicate 32 8"

definition ex_stash :: UpgradeRollbackStash where
  "ex_stash = \<lparr> us_pre_prepare_blob = [1], us_new_keyslot = 1 \<rparr>"

text \<open>After the preparation.\<close>

definition ex_staged :: "bool \<Rightarrow> Event list \<Rightarrow> ExOut World" where
  "ex_staged refuse l = \<lparr>
     w_out = \<lparr> xo_slots = [(1, ex_new_pass), (0, ex_old_pass)], xo_blob = [2], xo_refuse = refuse \<rparr>,
     w_files = [rollback_stash_path ex_env \<mapsto> stash_to_string ex_crypto ex_stash], w_log = l \<rparr>"

lemma ex_paths:
  "current_key_path ex_env \<noteq> new_key_path ex_env" "rollback_stash_path ex_env \<noteq> current_key_path ex_env"
  "rollback_stash_path ex_env \<noteq> new_key_path ex_env"
  using ex_env_paths by (auto simp: paths_distinct_def)

lemma ex_stage:
  "\<exists>l'. stage_upgrade ex_crypto ex_env ex_outside [1] ex_old_blob ''new'' ex_old_pass ex_new_pass ct (ex_world\<lparr> w_log := l \<rparr>) =
     (Inr (), ex_staged False l')"
proof -
  have lossy: "from_utf8_lossy [1] = [1]" by code_simp
  have vec: "blob_to_vec ex_crypto (ex_old_blob\<lparr> kb_kms_key_id := ''new'', kb_ciphertext := c, kb_prev_key_id := p \<rparr>) = [2]" for c p
    by (simp add: ex_crypto_def ChainExt.defs NitroExt.defs CryptoExt.defs ex_old_blob_def)
  show ?thesis
    by (simp add: stage_upgrade_def add_keyslot_def write_rollback_stash_def run_bind_def run_then_def run_attempt_def ex_write
        ex_remove ex_key_file ex_paths ex_paths [symmetric] ex_first_free ex_world_def ex_command ex_put vec lossy
        ex_staged_def ex_stash_def fun_eq_iff)
qed

lemma gives_then: "gives m x w \<Longrightarrow> \<exists>l. run_bind m f w = f x (w\<lparr> w_log := w_log w @ l \<rparr>)"
  by (auto simp: gives_def run_bind_def)

lemma ex_rekey:
  "\<exists>l'. rekey_volume ex_crypto ex_env ex_outside ''k'' ''new'' ex_pcrs ([1], ex_old_blob, ''p'') (ex_world\<lparr> w_log := l \<rparr>) =
     (Inr (), ex_staged False l') \<and> Ev_Sealed [5] ex_new_pass \<in> set l'"
proof -
  have random: "gives (random_passphrase ex_outside) ex_new_pass w" for w
    unfolding random_passphrase_def by (rule gives_ask) (simp add: ex_outside_def ex_new_pass_def PASSPHRASE_BYTES_def)
  have seal: "gives (rsa_oaep_encrypt ex_outside der p) p w" for der p w
    unfolding rsa_oaep_encrypt_def
    by (rule gives_bind [OF gives_ask [where x = "Some p"]]) (auto simp: ex_outside_def intro: gives_of)
  let ?w = "\<lambda>l. ex_world\<lparr> w_log := l \<rparr>"
  obtain l1 where "rekey_volume ex_crypto ex_env ex_outside ''k'' ''new'' ex_pcrs ([1], ex_old_blob, ''p'') (?w l) =
      run_bind (current_passphrase ex_crypto ex_env ex_outside ex_old_blob ''p'') (\<lambda>current.
      run_bind (random_passphrase ex_outside) (\<lambda>new.
      run_bind (rsa_oaep_encrypt ex_outside [5] new) (\<lambda>new_ct.
        stage_upgrade ex_crypto ex_env ex_outside [1] ex_old_blob ''new'' current new new_ct))) (?w l1)"
    unfolding rekey_volume_def prod.case using gives_then [OF ex_new_key, where w = "?w l"] by fastforce
  also obtain l2 where "\<dots> = run_bind (random_passphrase ex_outside) (\<lambda>new.
      run_bind (rsa_oaep_encrypt ex_outside [5] new) (\<lambda>new_ct.
        stage_upgrade ex_crypto ex_env ex_outside [1] ex_old_blob ''new'' ex_old_pass new new_ct)) (?w l2)"
    using gives_then [OF ex_passphrases(1), where w = "?w l1"] by fastforce
  also obtain l3 where "\<dots> = run_bind (rsa_oaep_encrypt ex_outside [5] ex_new_pass) (\<lambda>new_ct.
        stage_upgrade ex_crypto ex_env ex_outside [1] ex_old_blob ''new'' ex_old_pass ex_new_pass new_ct) (?w l3)"
    using gives_then [OF random, where w = "?w l2"] by fastforce
  finally have run: "rekey_volume ex_crypto ex_env ex_outside ''k'' ''new'' ex_pcrs ([1], ex_old_blob, ''p'') (?w l) = \<dots>" .
  obtain l4 where l4: "run_bind (rsa_oaep_encrypt ex_outside [5] ex_new_pass) (\<lambda>new_ct.
        stage_upgrade ex_crypto ex_env ex_outside [1] ex_old_blob ''new'' ex_old_pass ex_new_pass new_ct) (?w l3) =
      stage_upgrade ex_crypto ex_env ex_outside [1] ex_old_blob ''new'' ex_old_pass ex_new_pass
      ex_new_pass (?w l4)"
    using gives_then [OF seal, where w = "?w l3"] by fastforce
  also obtain l' where "\<dots> = (Inr (), ex_staged False l')" using ex_stage by blast
  finally have staged: "run_bind (rsa_oaep_encrypt ex_outside [5] ex_new_pass) (\<lambda>new_ct.
        stage_upgrade ex_crypto ex_env ex_outside [1] ex_old_blob ''new'' ex_old_pass ex_new_pass new_ct) (?w l3) =
      (Inr (), ex_staged False l')" .
  moreover have "Ev_Sealed [5] ex_new_pass \<in> set l'"
    using sealing_run [OF staged quiet_stage] by (auto simp: logs_quietly_def ex_staged_def)
  ultimately show ?thesis using run by metis
qed

abbreviation ex_prepare :: "(ExOut, unit) crypto" where
  "ex_prepare \<equiv> prepare_upgrade ex_crypto ex_env ex_outside ''k'' ''new'' ([1], [2], [3])"

lemma ex_prepare_runs: "\<exists>l. ex_prepare ex_world = (Inr (), ex_staged False l) \<and> Ev_Sealed [5] ex_new_pass \<in> set l"
proof -
  have pcrs: "expected_pcrs ex_crypto ([1], [2], [3]) = Inr ex_pcrs" by code_simp
  have no_stash: "read_rollback_stash ex_crypto ex_env ex_outside ex_world = (Inr None, ex_world)"
    by (simp add: read_rollback_stash_def read_to_string_def get_file_def run_bind_def ex_world_def)
  have "ex_prepare ex_world = run_bind (current_blob ex_crypto ex_outside ''new'')
      (rekey_volume ex_crypto ex_env ex_outside ''k'' ''new'' ex_pcrs) ex_world"
    by (simp add: prepare_upgrade_def run_bind_def [of "run_of r" for r] run_bind_def [of "read_rollback_stash X E W" for X E W]
        pcrs no_stash)
  also obtain l where "\<dots> = rekey_volume ex_crypto ex_env ex_outside ''k'' ''new'' ex_pcrs ([1], ex_old_blob, ''p'')
      (ex_world\<lparr> w_log := l \<rparr>)"
    using gives_then [OF ex_blob_read [of "[]"]] by (fastforce simp: ex_world_def)
  finally show ?thesis using ex_rekey by metis
qed

lemma ex_stash_read:
  "read_rollback_stash ex_crypto ex_env ex_outside (ex_staged refuse l) = (Inr (Some ex_stash), ex_staged refuse l)"
proof -
  have "valid_utf8 (stash_to_string ex_crypto ex_stash)" by code_simp
  moreover have "stash_from_str ex_crypto (stash_to_string ex_crypto ex_stash) = Some ex_stash"
    using ex_crypto_stash by (simp add: stash_codec_def)
  ultimately show ?thesis
    by (simp add: read_rollback_stash_def read_to_string_def get_file_def run_bind_def ask_def ex_staged_def) (simp add: ex_outside_def)
qed

text \<open>The rollback, with a storage host that accepts the blob and with one that refuses it.\<close>

definition ex_rolled_back :: "Event list \<Rightarrow> ExOut World" where
  "ex_rolled_back l = \<lparr> w_out = \<lparr> xo_slots = [(0, ex_old_pass)], xo_blob = [1], xo_refuse = False \<rparr>,
     w_files = Map.empty, w_log = l \<rparr>"

definition ex_interrupted :: "Event list \<Rightarrow> ExOut World" where
  "ex_interrupted l = \<lparr> w_out = \<lparr> xo_slots = [(0, ex_old_pass)], xo_blob = [2], xo_refuse = True \<rparr>,
     w_files = [rollback_stash_path ex_env \<mapsto> stash_to_string ex_crypto ex_stash], w_log = l \<rparr>"

lemma ex_revoke_runs:
  "\<exists>l'. revoke_upgrade ex_crypto ex_env ex_outside (ex_staged False l) = (Inr (), ex_rolled_back l')"
  "\<exists>l'. revoke_upgrade ex_crypto ex_env ex_outside (ex_staged True l) = (Inl (Cr_MetaRejected 1), ex_interrupted l')"
proof -
  have differ: "ex_new_pass \<noteq> ex_old_pass" by code_simp
  have start: "\<exists>l'. revoke_upgrade ex_crypto ex_env ex_outside (ex_staged refuse l) =
      run_then (run_bind (key_file (current_key_path ex_env)) (kill_staged_slot ex_crypto ex_env ex_outside ex_stash))
        (remove_file ex_outside (current_key_path ex_env))
        ((ex_staged refuse l')\<lparr> w_files := (w_files (ex_staged refuse l'))(current_key_path ex_env \<mapsto> ex_old_pass) \<rparr>)" for refuse
  proof -
    obtain l' where "\<And>f :: bytes \<Rightarrow> (ExOut, unit) crypto. run_bind (staged_passphrase ex_crypto ex_env ex_outside ex_stash) f (ex_staged refuse l) =
        f ex_old_pass (ex_staged refuse l')"
      using ex_passphrases(2) [of 1 "ex_staged refuse l"] by (auto simp: gives_def run_bind_def ex_stash_def ex_staged_def)
    then show ?thesis
      by (auto simp: revoke_upgrade_def run_bind_def [of "read_rollback_stash X E W" for X E W] run_bind_def [of "run_of r" for r]
          run_bind_def [of "write_file W p c" for W p c] ex_stash_read ex_write)
  qed
  have kill: "run_then (run_bind (key_file (current_key_path ex_env)) (kill_staged_slot ex_crypto ex_env ex_outside ex_stash))
        (remove_file ex_outside (current_key_path ex_env))
        ((ex_staged refuse l')\<lparr> w_files := (w_files (ex_staged refuse l'))(current_key_path ex_env \<mapsto> ex_old_pass) \<rparr>) =
      (if refuse then (Inl (Cr_MetaRejected 1), ex_interrupted (l' @ l''))
       else (Inr (), ex_rolled_back (l' @ l'')))"
    if "l'' = [Ev_Cryptsetup (TestPassphrase (Some 1) ex_old_pass) (Exited False []),
        Ev_Cryptsetup (LuksKillSlot ex_old_pass 1) (Exited True []),
        Ev_Cryptsetup (TestPassphrase None ex_old_pass) (Exited True []), Ev_Put [1]]" for refuse l' l''
    using differ
    by (simp add: that run_then_def run_bind_def kill_staged_slot_def remove_rollback_stash_def ex_key_file ex_command ex_put ex_remove
        ex_staged_def ex_stash_def ex_rolled_back_def ex_interrupted_def ex_paths ex_paths [symmetric] fun_eq_iff)
  show "\<exists>l'. revoke_upgrade ex_crypto ex_env ex_outside (ex_staged False l) = (Inr (), ex_rolled_back l')"
    using start [of False] kill [of _ False, OF refl] by auto
  show "\<exists>l'. revoke_upgrade ex_crypto ex_env ex_outside (ex_staged True l) = (Inl (Cr_MetaRejected 1), ex_interrupted l')"
    using start [of True] kill [of _ True, OF refl] by auto
qed

subsection \<open>The properties on these runs\<close>

lemmas ex_volume = ex_keyslot_laws ex_env_paths ex_crypto_stash

lemma ex_stash_of:
  "stash_of ex_crypto ex_env ex_world = None"
  "stash_of ex_crypto ex_env (ex_interrupted l) = Some ex_stash"
proof -
  show "stash_of ex_crypto ex_env ex_world = None" by (simp add: stash_of_def ex_world_def)
  have "valid_utf8 (stash_to_string ex_crypto ex_stash)" by code_simp
  moreover have "stash_from_str ex_crypto (stash_to_string ex_crypto ex_stash) = Some ex_stash"
    using ex_crypto_stash by (simp add: stash_codec_def)
  ultimately show "stash_of ex_crypto ex_env (ex_interrupted l) = Some ex_stash"
    by (simp add: stash_of_def ex_interrupted_def)
qed

theorem passphrase_sealed_only_to_verified_key_witness:
  "\<exists>l before after pcrs. crypto_main ex_crypto ex_env ex_outside (PrepareUpgrade ''k'' ''new'' ([1], [2], [3])) ex_world =
       (Inr (), ex_staged False l) \<and>
     l = before @ Ev_Sealed [5] ex_new_pass # after \<and> verified_key ex_crypto ex_env ''new'' pcrs [5] before \<and>
     expected_pcrs ex_crypto ([1], [2], [3]) = Inr pcrs"
proof -
  obtain l where run: "crypto_main ex_crypto ex_env ex_outside (PrepareUpgrade ''k'' ''new'' ([1], [2], [3])) ex_world =
      (Inr (), ex_staged False l)" and "Ev_Sealed [5] ex_new_pass \<in> set l"
    using ex_prepare_runs by auto
  then obtain before after where l: "l = before @ Ev_Sealed [5] ex_new_pass # after"
    by (meson split_list)
  then have "w_log (ex_staged False l) = before @ Ev_Sealed [5] ex_new_pass # after"
    by (simp add: ex_staged_def)
  then show ?thesis
    using passphrase_sealed_only_to_verified_key [OF run, of before "[5]" ex_new_pass after] l run by (auto simp: ex_world_def)
qed

theorem running_passphrase_keeps_its_slot_witness:
  "ex_slots (w_out (fold (crypto_step ex_crypto ex_env ex_outside)
     [PrepareUpgrade ''k'' ''new'' ([1], [2], [3]), RevokeUpgrade] ex_world)) 0 = Some ex_old_pass"
proof -
  have "volume_ok ex_crypto ex_env ex_outside ex_slots 0 ex_old_pass ex_world"
    using ex_volume by (simp add: volume_ok_def ex_stash_of) (simp add: ex_world_def ex_slots_def)
  then show ?thesis
    using running_passphrase_keeps_its_slot [of ex_crypto ex_env ex_outside ex_slots 0 ex_old_pass ex_world] by blast
qed

theorem interrupted_rollback_cannot_finish_witness:
  "\<exists>l l'. revoke_upgrade ex_crypto ex_env ex_outside (ex_staged True l) = (Inl (Cr_MetaRejected 1), ex_interrupted l') \<and>
     \<not> is_ok (fst (crypto_main ex_crypto ex_env ex_outside RevokeUpgrade (ex_interrupted l')))"
proof -
  obtain l' where run: "revoke_upgrade ex_crypto ex_env ex_outside (ex_staged True []) = (Inl (Cr_MetaRejected 1), ex_interrupted l')"
    using ex_revoke_runs(2) by blast
  have "rollback_stuck ex_crypto ex_env ex_outside ex_slots ex_stash (ex_interrupted l')"
    using ex_volume by (simp add: rollback_stuck_def ex_stash_of) (simp add: ex_interrupted_def ex_slots_def ex_stash_def)
  then show ?thesis
    using interrupted_rollback_cannot_finish [of ex_crypto ex_env ex_outside ex_slots ex_stash "ex_interrupted l'" RevokeUpgrade] run
    by (intro exI [of _ "[]"] exI [of _ l']) (auto split: prod.splits)
qed

theorem rollback_undoes_prepare_witness:
  "\<exists>l l'. ex_prepare ex_world = (Inr (), ex_staged False l) \<and>
     revoke_upgrade ex_crypto ex_env ex_outside (ex_staged False l) = (Inr (), ex_rolled_back l') \<and>
     ex_slots (w_out (ex_rolled_back l')) = ex_slots (w_out ex_world) \<and>
     stash_of ex_crypto ex_env (ex_rolled_back l') = None"
proof -
  obtain l where p: "ex_prepare ex_world = (Inr (), ex_staged False l)"
    using ex_prepare_runs by blast
  obtain l' where r: "revoke_upgrade ex_crypto ex_env ex_outside (ex_staged False l) = (Inr (), ex_rolled_back l')"
    using ex_revoke_runs(1) by blast
  show ?thesis using rollback_undoes_prepare [OF p r ex_volume(1,3,2)] p r by blast
qed

end
