(* ===== verification/Spec2Isabelle.thy ===== *)
theory Spec2Isabelle
  imports Chain_Descent Storage_Client Raft_Forward Raft_Join Egress Luks_Witnesses
begin

text \<open>
  A verification development of Enclavia, a runtime for confidential services in AWS Nitro enclaves. Paths
  below are relative to \<open>src/\<close>.

  \<^bold>\<open>The program.\<close> An enclave keeps its data on an encrypted volume that an untrusted
  host stores. Four parts guard it. The \<^emph>\<open>synchronizer\<close> (\<open>synchronizer/\<close>)
  is an oracle that remembers, for every enclave identity, the hash (commitment) and version of the volume's
  current superblock; it runs as one node or as a Raft cluster of attested instances. The
  \<^emph>\<open>storage client\<close> (\<open>nbd-client/\<close>) sits between the kernel's NBD device
  and the storage host; at boot it checks the volume against the oracle, and at run time it lets the kernel
  see the acknowledgement of a superblock write only once the new content is pinned. The \<^emph>\<open>key
  management\<close> (\<open>enclavia-crypto/\<close>) obtains the LUKS passphrase from KMS, after its own
  check of the key's policy, and re-keys the volume for an upgrade or rolls that back. The
  \<^emph>\<open>egress daemon\<close> (\<open>enclavia-egress/\<close>) decides which connections leave the
  enclave. They share the library \<open>enclavia-protocol/\<close>: attestation, signatures, the chain of
  upgrade links that authorizes one image to succeed another, the allowlist schema, the policy check and the
  KMS envelope.

  \<^bold>\<open>The theories, in the order of their imports.\<close>

  \<^item> \<open>Prelude\<close>: machine integers, byte strings, \<open>Result\<close> as a sum with the
    error on the left and its combinators, and the interfaces shared by the components: steps that keep an
    invariant (\<open>invariant_steps\<close>), steps that only move forward in a preorder
    (\<open>forward_steps\<close>), guarded systems with their reachable states
    (\<open>guarded_steps\<close>), and state that can be checkpointed (\<open>checkpointed\<close>).
    \<open>Rust_Text\<close>: strings and the address parsers of the standard library.
    \<open>Json_Value\<close>: values of \<open>serde_json\<close>. \<open>Run_Monad\<close>: stateful code
    that may fail, and the interface \<open>effect\<close>.

  \<^item> \<open>State_Machine\<close> (\<open>synchronizer/src/lib.rs\<close>):
    \<open>StateMachine\<close> with \<open>apply\<close> and its four operations, both observations,
    queries, snapshot and restore. Accepted pins do not fork, retired keys are final, a transition moves the
    pin intact, the control key of a key is frozen, and every input is a step of an abstract life cycle
    (unseen, active, retired).

  \<^item> \<open>Pin_Identity\<close>, \<open>Signing\<close>, \<open>Attestation\<close> (the files of
    these names in \<open>enclavia-protocol/src\<close>, with \<open>nitro_verify.rs\<close> and the
    synchronizer's \<open>attest.rs\<close>): the identity derived from PCR values and its canonical
    encoding, domain-separated signatures and canonical decoding, validation of attestation documents.

  \<^item> \<open>Chain\<close>, \<open>Chain_Descent\<close>
    (\<open>enclavia-protocol/src/chain.rs\<close>): the per-link validator, the walker of a whole chain and
    the descent check. Every change of version on an accepted chain was authorized by an unrevoked link
    signed by the control key, inside its time window; an appended revocation or boot link is sound against
    the chain it extends.

  \<^item> \<open>Wire\<close>, \<open>Node\<close>, \<open>Client\<close>
    (\<open>synchronizer/src/wire.rs\<close>, \<open>node.rs\<close>, \<open>client.rs\<close>): requests,
    responses, the two link verifiers, one handler per request with its change of state, and the client's
    methods. Sessions cannot touch one another's pins except by an authorized transition; an acknowledged
    pin is stored. \<open>net_rpc\<close> is a node behind a link that may lose requests and answers, or
    whose cluster answers \<open>Unavailable\<close> with the outcome open.

  \<^item> \<open>Membership\<close>, \<open>Raft_Store\<close>, \<open>Raft_Serve\<close>,
    \<open>Raft_Forward\<close>, \<open>Raft_Join\<close> (\<open>synchronizer/src/raft/\<close>): admission
    of instances to configured slots, the log store and the application of committed entries, the leader's
    handlers, routing with its retries, and discovery. Each slot has at most one voter; replicas converge;
    the leader refines the single node, and the cluster's pins do not fork; a routed request is applied at
    most once; a fresh cluster is formed only when no peer knows of one.

  \<^item> \<open>Superblock\<close>, \<open>Region_Watch\<close>, \<open>Device_Proxy\<close>,
    \<open>Proxy_Safety\<close> (\<open>nbd-client/src/rollback.rs\<close>, \<open>main.rs\<close>,
    \<open>nbd.rs\<close>): the geometry of the superblock region, the watch on its contents, streaming
    extraction, the gate, and the three tasks of the proxy (\<open>request_proxy\<close> and
    \<open>request_stream\<close>, \<open>pin_actor\<close>, \<open>gated_reply_proxy\<close> with
    \<open>flush_stashed\<close> and \<open>reply_eof\<close>). Their interleavings are the steps of
    \<open>proxy_step\<close>; an audit that only observes them carries the invariant. An acknowledged
    superblock write is pinned, a superblock read is forwarded exactly when it is fresh, every mutation of
    the region is gated.

  \<^item> \<open>Pinner\<close>, \<open>Boot_Verify\<close>, \<open>Host_Stream\<close>,
    \<open>Boot_Session\<close>, \<open>Storage_Client\<close> (\<open>nbd-client/src/\<close>): one pin
    with its conflict resolution, the retry policy, boot verification, the conversation with the storage
    host before the device is served, the mutually attested session, and the whole client. The interface
    \<open>pin_oracle\<close> is what the client relies on of the oracle; \<open>net_rpc\<close> satisfies
    it. The end-to-end result is that an acknowledged superblock write survives a reboot on whatever volume
    the host presents.

  \<^item> \<open>Egress\<close> (\<open>enclavia-protocol/src/egress_config.rs\<close>,
    \<open>enclavia-egress/src/policy.rs\<close>, \<open>lib.rs\<close>): loading, validating and assembling
    the allowlist, and the decision on each connection: exactly the listed destinations are reached, a file
    is rejected exactly for the documented reasons, and what the command line assembles the daemon loads.

  \<^item> \<open>Kms_Policy\<close>, \<open>Kms_Recipient\<close>, \<open>Luks_Keys\<close>,
    \<open>Luks_Rollback\<close>, \<open>Luks_Witnesses\<close>
    (\<open>enclavia-protocol/src/kms_policy.rs\<close>, \<open>kms_recipient.rs\<close>,
    \<open>enclavia-crypto/src/main.rs\<close>): the policy check, the BER to DER transcoder and the
    envelope, and the three commands. An accepted policy gates decryption, the transcoder preserves values,
    a passphrase is sealed only to a verified key, the running passphrase keeps its keyslot over every
    sequence of commands, a completed rollback undoes a completed preparation, and an interrupted one cannot
    be finished. \<open>crypto_effect\<close> and \<open>put_effect\<close> are the interfaces by which a
    relation on logs and volumes is carried along the commands.

  \<^bold>\<open>Parameters.\<close> Code that is not in the repository is a field of a record passed to the
  definitions (\<open>Ext\<close>, \<open>NitroExt\<close>, \<open>ChainExt\<close>, \<open>BootExt\<close>,
  \<open>EgressExt\<close>, \<open>CmsExt\<close>, \<open>CryptoExt\<close>): SHA-256, hex, base64, CBOR and
  JSON codecs, P-256 and P-384, COSE, X.509 and webpki, CIDR networks, the RSA, AES and CMS readers. Nothing
  is assumed of them unless a theorem says so; injectivity of SHA-256 is never assumed. KMS,
  \<open>cryptsetup\<close>, the NSM, the file system and the storage host answer as they like; the
  documented behaviour of \<open>cryptsetup\<close> on keyslots (\<open>command_laws\<close>) and of KMS on
  a policy statement are hypotheses of the theorems that need them.

  \<^bold>\<open>Bounds and fuel.\<close> Versions are 64-bit counters that wrap, so results on spent
  versions ask for fewer than \<open>2 ^ 64 - 1\<close> inputs of the state machine, or \<open>2 ^
  62\<close> requests or cluster inputs. The data offset must leave room for the region
  (\<open>region_fits\<close>). The retry policy terminates and makes at most 154 pin requests; forwarding
  makes at most 60 retries. The transcoder's fuel is the length of its input plus one and is proved enough,
  the depth limit of 64 is the code's; the search for a free keyslot has one step more of fuel than there
  are occupied slots, which is proved enough.

  \<^bold>\<open>Abstractions.\<close>

  \<^item> The steps of the proxy are atomic: one request header, one event of a superblock write, one
    outcome of the pin actor (its update of the watch, of the gate and its nudge together), one reply.
    Failures to write to the host or to the kernel are not modelled; each would end its task as the end of
    its stream does. The pin channel holds 64 jobs besides the one in progress. Sequence numbers of the region
    watch (\<open>u64\<close> in the code) are natural numbers, as one is used per superblock write. Of the
    kernel it is assumed that a handle is not reused while outstanding and that a write carries its payload;
    of the storage host nothing is assumed. A host that adapts its bytes to what it receives is covered by
    the choice of the bytes.

  \<^item> A link executes a request when it is sent or not at all: a request delayed beyond later ones of
    the same session is not modelled. Reconnecting leaves the node as it is. While an image runs, other
    sessions use the node in between, with transitions of their own, but no second session of the same
    identity, and no successor takes its pin over (\<open>device_enabled\<close>).

  \<^item> Consensus is openraft's. A call to it is a fate: a write commits, stays in the log to commit or
    be discarded later, or is refused; a read is confirmed or not. The cluster is one logical leader with
    its pending writes, and each handler and each admission is atomic, so concurrent admissions from one
    plan are not modelled. A membership is its list of voters, without joint configurations or learners. A
    forwarded call that the leader runs after the caller's deadline is the late reply of
    \<open>Raft_Forward\<close>; a call that comes too late to be run is not executed. Configured names are
    listed in ascending order.

  \<^item> In one connection decision the resolver's answers are fixed. All \<open>cryptsetup\<close>
    commands act on the one device. A KMS response is the one string field the code reads; connection, TLS,
    request signing, HTTP and its status are the outside, as are connecting and writing to the storage host.

  \<^item> Logging, metrics and the human-readable text of errors are left out throughout.

  \<^bold>\<open>Not modelled.\<close> The in-enclave server (\<open>enclavia-server/\<close>), the client
  SDK and its bindings, the command line, the boot helpers (\<open>enclavia-chain-init\<close>,
  \<open>enclavia-secrets-init\<close>), the daemon's network stack, Noise sessions and CBOR framing, the
  mesh transport and the processes around all of these: they move bytes between sockets, subprocesses and
  third-party crates and apply the rules modelled here. The development services (\<open>mock-kms\<close>,
  the metrics collector) are outside the trust boundary.
\<close>

end
